(* ===== verification/Prelude.thy ===== *)
theory Prelude
  imports Main
begin

text \<open>
  What every component of the development shares: the result monad that stands for Go's
  \<open>(value, error)\<close> returns and for panics, and the functions of Go's standard packages
  \<open>strings\<close>, \<open>bytes\<close> and \<open>strconv\<close> that the sources call, on byte strings
  (a Go string is a sequence of bytes, a HOL \<open>string\<close> a list of 8-bit characters).
  The collections \<open>bytes_simps\<close> and \<open>result_simps\<close> gather the rules the component
  theories use for evaluation and for inversion of results.
\<close>

named_theorems bytes_simps "equations of the byte string functions"
named_theorems result_simps "inversion rules of the result monad"

section \<open>Results, errors and panics\<close>

text \<open>
  \<open>Errorf f args\<close> is \<open>fmt.Errorf\<close> with format \<open>f\<close>, \<open>Wrapf f args e\<close> one that
  also formats an inner error \<open>e\<close>, \<open>Panicf\<close> a run-time panic, \<open>OutOfFuel\<close> the
  model's own mark for a recursion that was given too little fuel.
\<close>

datatype failure =
    Errorf string "string list"
  | Wrapf string "string list" failure
  | Panicf string
  | OutOfFuel

type_synonym 'a result = "failure + 'a"

fun isPanic :: "failure \<Rightarrow> bool" where
  "isPanic (Panicf m) = True"
| "isPanic _ = False"

text \<open>
  Computations over a mutable state (the lexer of a parser, a store, a counter): the state
  survives an error, as a Go receiver does.
\<close>

type_synonym ('s, 'a) comp = "'s \<Rightarrow> 'a result \<times> 's"

definition ret :: "'a \<Rightarrow> ('s, 'a) comp" where
  "ret x s = (Inr x, s)"

definition fail :: "failure \<Rightarrow> ('s, 'a) comp" where
  "fail e s = (Inl e, s)"

definition andThen :: "('s, 'a) comp \<Rightarrow> ('a \<Rightarrow> ('s, 'b) comp) \<Rightarrow> ('s, 'b) comp" where
  "andThen m f s = (case m s of (Inl e, s') \<Rightarrow> (Inl e, s') | (Inr x, s') \<Rightarrow> f x s')"

definition wrapErr :: "(failure \<Rightarrow> failure) \<Rightarrow> ('s, 'a) comp \<Rightarrow> ('s, 'a) comp" where
  "wrapErr w m s = (case m s of (Inl OutOfFuel, s') \<Rightarrow> (Inl OutOfFuel, s')
     | (Inl (Panicf p), s') \<Rightarrow> (Inl (Panicf p), s')
     | (Inl e, s') \<Rightarrow> (Inl (w e), s') | (Inr x, s') \<Rightarrow> (Inr x, s'))"

definition getS :: "('s, 's) comp" where
  "getS s = (Inr s, s)"

definition modifyS :: "('s \<Rightarrow> 's) \<Rightarrow> ('s, unit) comp" where
  "modifyS f s = (Inr (), f s)"

fun mapM :: "('a \<Rightarrow> ('s, 'b) comp) \<Rightarrow> 'a list \<Rightarrow> ('s, 'b list) comp" where
  "mapM f [] = ret []"
| "mapM f (x # xs) = andThen (f x) (\<lambda>y. andThen (mapM f xs) (\<lambda>ys. ret (y # ys)))"

lemma ret_iff [result_simps]: "ret x s = (Inr y, s') \<longleftrightarrow> y = x \<and> s' = s"
  by (auto simp: ret_def)

lemma ret_not_Inl [result_simps]: "ret x s = (Inl e, s') \<longleftrightarrow> False"
  by (simp add: ret_def)

lemma fail_iff [result_simps]: "fail e s = (Inl e', s') \<longleftrightarrow> e' = e \<and> s' = s"
  by (auto simp: fail_def)

lemma fail_not_Inr [result_simps]: "fail e s = (Inr x, s') \<longleftrightarrow> False"
  by (simp add: fail_def)

lemma andThen_Inr [result_simps]:
  "andThen m f s = (Inr y, s') \<longleftrightarrow> (\<exists>x t. m s = (Inr x, t) \<and> f x t = (Inr y, s'))"
  by (auto simp: andThen_def split: prod.splits sum.splits)

lemma andThen_Inl [result_simps]:
  "andThen m f s = (Inl e, s') \<longleftrightarrow>
     m s = (Inl e, s') \<or> (\<exists>x t. m s = (Inr x, t) \<and> f x t = (Inl e, s'))"
  by (auto simp: andThen_def split: prod.splits sum.splits)

lemma wrapErr_Inr [result_simps]: "wrapErr w m s = (Inr x, s') \<longleftrightarrow> m s = (Inr x, s')"
  by (auto simp: wrapErr_def split: prod.splits sum.splits failure.splits)

lemma getS_iff [result_simps]: "getS s = (r, s') \<longleftrightarrow> r = Inr s \<and> s' = s"
  by (auto simp: getS_def)

lemma modifyS_iff [result_simps]: "modifyS f s = (r, s') \<longleftrightarrow> r = Inr () \<and> s' = f s"
  by (auto simp: modifyS_def)

lemma andThen_ret [simp]: "andThen (ret x) f = f x"
  by (simp add: fun_eq_iff andThen_def ret_def)

lemma andThen_fail [simp]: "andThen (fail e) f = fail e"
  by (simp add: fun_eq_iff andThen_def fail_def)

lemma andThen_assoc: "andThen (andThen m f) g = andThen m (\<lambda>x. andThen (f x) g)"
  by (simp add: fun_eq_iff andThen_def split: prod.splits sum.splits)

lemma andThen_ret_right [simp]: "andThen m ret = m"
  by (simp add: fun_eq_iff andThen_def ret_def split: prod.splits sum.splits)

lemma mapM_cong [fundef_cong]:
  assumes "xs = ys" "\<And>x. x \<in> set ys \<Longrightarrow> f x = g x"
  shows "mapM f xs = mapM g ys"
  using assms(2) unfolding assms(1) by (induction ys) auto

lemma mapM_length: "mapM f xs s = (Inr ys, s') \<Longrightarrow> length ys = length xs"
  by (induction xs arbitrary: s ys) (auto simp: result_simps)

text \<open>
  Splits the outermost conditional only: the loops of the scanner are long chains of
  conditionals, which the simplifier would split from the inside.
\<close>

lemma if_cases: "(c \<Longrightarrow> P x) \<Longrightarrow> (\<not> c \<Longrightarrow> P y) \<Longrightarrow> P (if c then x else y)"
  by simp

section \<open>Bytes\<close>

abbreviation dquote :: char where "dquote \<equiv> CHR 0x22"
abbreviation squote :: char where "squote \<equiv> CHR 0x27"
abbreviation bslash :: char where "bslash \<equiv> CHR 0x5C"
abbreviation bquote :: char where "bquote \<equiv> CHR 0x60"
abbreviation newline :: char where "newline \<equiv> CHR 0x0A"

abbreviation byte :: "char \<Rightarrow> nat" where "byte c \<equiv> of_char c"

text \<open>\<open>between lo c hi\<close> is Go's \<open>c >= lo && c <= hi\<close> on bytes.\<close>

definition between :: "char \<Rightarrow> char \<Rightarrow> char \<Rightarrow> bool" where
  "between lo c hi \<longleftrightarrow> byte lo \<le> byte c \<and> byte c \<le> byte hi"

text \<open>Evaluation compares the bytes as binary integers, not as unary naturals.\<close>

lemma integer_byte: "integer_of_char c = of_nat (byte c)"
  by (simp add: integer_of_char_def of_nat_of_char)

lemma between_code [code]:
  "between lo c hi \<longleftrightarrow> integer_of_char lo \<le> integer_of_char c \<and> integer_of_char c \<le> integer_of_char hi"
  by (simp only: between_def integer_byte of_nat_le_iff)

text \<open>\<open>strings.IndexByte\<close> and \<open>bytes.IndexByte\<close>: the first position of a byte, -1 if absent.\<close>

fun IndexByte :: "string \<Rightarrow> char \<Rightarrow> int" where
  "IndexByte [] c = -1"
| "IndexByte (x # xs) c =
     (if x = c then 0 else let n = IndexByte xs c in if n < 0 then -1 else n + 1)"

lemma IndexByte_ge: "-1 \<le> IndexByte s c"
  by (induction s) (auto simp: Let_def)

lemma IndexByte_neg_iff: "IndexByte s c < 0 \<longleftrightarrow> c \<notin> set s"
  by (induction s) (auto simp: Let_def)

lemma IndexByte_append: "c \<notin> set p \<Longrightarrow> IndexByte (p @ c # q) c = int (length p)"
  by (induction p) (auto simp: Let_def)

lemma IndexByte_absent: "c \<notin> set s \<Longrightarrow> IndexByte s c = -1"
  using IndexByte_neg_iff [of s c] IndexByte_ge [of s c] by simp

lemma IndexByte_split:
  assumes "IndexByte s c = int n"
  shows "s = take n s @ c # drop (Suc n) s \<and> c \<notin> set (take n s) \<and> n < length s"
proof -
  have "c \<in> set s" using assms IndexByte_neg_iff [of s c] by auto
  then obtain p q where pq: "s = p @ c # q" "c \<notin> set p" by (meson split_list_first)
  then have "n = length p" using assms by (simp add: IndexByte_append)
  with pq show ?thesis by simp
qed

text \<open>\<open>strings.HasPrefix\<close> and \<open>strings.HasSuffix\<close>.\<close>

definition HasPrefix :: "string \<Rightarrow> string \<Rightarrow> bool" where
  "HasPrefix s p \<longleftrightarrow> take (length p) s = p"

definition HasSuffix :: "string \<Rightarrow> string \<Rightarrow> bool" where
  "HasSuffix s p \<longleftrightarrow> length p \<le> length s \<and> drop (length s - length p) s = p"

text \<open>
  \<open>strings.Split(s, sep)\<close> and \<open>bytes.Split\<close> for a separator of one byte: always at
  least one piece; \<open>JoinByte\<close> is \<open>strings.Join\<close> with that separator.
\<close>

fun SplitByte :: "string \<Rightarrow> char \<Rightarrow> string list" where
  "SplitByte [] c = [[]]"
| "SplitByte (x # xs) c =
     (if x = c then [] # SplitByte xs c
      else case SplitByte xs c of [] \<Rightarrow> [[x]] | y # ys \<Rightarrow> (x # y) # ys)"

fun JoinByte :: "char \<Rightarrow> string list \<Rightarrow> string" where
  "JoinByte c [] = []"
| "JoinByte c [x] = x"
| "JoinByte c (x # y # ys) = x @ c # JoinByte c (y # ys)"

lemma SplitByte_nonempty [simp]: "SplitByte s c \<noteq> []"
  by (cases s) (auto split: list.splits)

lemma SplitByte_sep_free: "x \<in> set (SplitByte s c) \<Longrightarrow> c \<notin> set x"
  by (induction s arbitrary: x) (auto split: list.splits if_splits)

lemma JoinByte_Split [simp]: "JoinByte c (SplitByte s c) = s"
proof (induction s)
  case (Cons x xs)
  then show ?case
    by (cases "SplitByte xs c"; cases "tl (SplitByte xs c)") auto
qed simp

lemma SplitByte_single: "c \<notin> set s \<Longrightarrow> SplitByte s c = [s]"
  by (induction s) auto

lemma SplitByte_Cons_sep: "c \<notin> set x \<Longrightarrow> SplitByte (x @ c # s) c = x # SplitByte s c"
  by (induction x) auto

lemma SplitByte_Join:
  "xs \<noteq> [] \<Longrightarrow> (\<And>x. x \<in> set xs \<Longrightarrow> c \<notin> set x) \<Longrightarrow> SplitByte (JoinByte c xs) c = xs"
  by (induction c xs rule: JoinByte.induct) (auto simp: SplitByte_single SplitByte_Cons_sep)

lemma SplitByte_inj: "SplitByte s c = SplitByte t c \<longleftrightarrow> s = t"
  by (metis JoinByte_Split)

lemma JoinByte_Cons: "ys \<noteq> [] \<Longrightarrow> JoinByte c (x # ys) = x @ c # JoinByte c ys"
  by (cases ys) auto

text \<open>\<open>strings.ReplaceAll(s, a, b)\<close> for single bytes \<open>a\<close>, \<open>b\<close>.\<close>

definition ReplaceByte :: "string \<Rightarrow> char \<Rightarrow> char \<Rightarrow> string" where
  "ReplaceByte s a b = map (\<lambda>x. if x = a then b else x) s"

lemma ReplaceByte_absent: "a \<notin> set s \<Longrightarrow> ReplaceByte s a b = s"
  by (auto simp: ReplaceByte_def intro: map_idI)

lemma ReplaceByte_set: "a \<noteq> b \<Longrightarrow> a \<notin> set (ReplaceByte s a b)"
  by (auto simp: ReplaceByte_def)

lemma ReplaceByte_other: "c \<noteq> b \<Longrightarrow> c \<notin> set s \<Longrightarrow> c \<notin> set (ReplaceByte s a b)"
  by (auto simp: ReplaceByte_def)

lemma ReplaceByte_idem: "ReplaceByte (ReplaceByte s a b) a b = ReplaceByte s a b"
  by (auto simp: ReplaceByte_def)

section \<open>Case folding\<close>

text \<open>
  \<open>strings.ToLower\<close>, as far as the sources observe it: every use compares the result with
  ASCII keywords. Besides A-Z, exactly two runes have an ASCII lower case: U+0130 (bytes C4 B0),
  whose lower case is \<open>i\<close>, and the Kelvin sign U+212A (bytes E2 84 AA), whose lower case is
  \<open>k\<close>. Any other rune outside ASCII stays outside ASCII, so its bytes are kept as they are.
\<close>

definition toLowerByte :: "char \<Rightarrow> char" where
  "toLowerByte c = (if between CHR ''A'' c CHR ''Z'' then char_of (byte c + 32) else c)"

lemma toLowerByte_code [code]:
  "toLowerByte c = (if between CHR ''A'' c CHR ''Z'' then char_of_integer (integer_of_char c + 32) else c)"
proof -
  have "integer_of_char c + 32 = of_nat (byte c + 32)" by (simp add: integer_byte)
  then have "char_of_integer (integer_of_char c + 32) = char_of (byte c + 32)"
    by (simp only: char_of_integer_def char_of_nat)
  then show ?thesis by (simp only: toLowerByte_def)
qed

fun ToLower :: "string \<Rightarrow> string" where
  "ToLower [] = []"
| "ToLower (c # cs) =
     (if c = CHR 0xC4 \<and> cs \<noteq> [] \<and> hd cs = CHR 0xB0 then CHR ''i'' # ToLower (tl cs)
      else if c = CHR 0xE2 \<and> take 2 cs = [CHR 0x84, CHR 0xAA] then CHR ''k'' # ToLower (drop 2 cs)
      else toLowerByte c # ToLower cs)"

section \<open>Decimal numbers\<close>

definition digitChar :: "nat \<Rightarrow> char" where
  "digitChar d = char_of (48 + d)"

fun natDec :: "nat \<Rightarrow> string" where
  "natDec n = (if n < 10 then [digitChar n] else natDec (n div 10) @ [digitChar (n mod 10)])"

declare natDec.simps [simp del]

text \<open>\<open>strconv.Itoa\<close>, and \<open>%d\<close> of \<open>fmt.Sprintf\<close>.\<close>

definition Itoa :: "int \<Rightarrow> string" where
  "Itoa i = (if i < 0 then CHR ''-'' # natDec (nat (- i)) else natDec (nat i))"

definition digitVal :: "char \<Rightarrow> nat" where
  "digitVal c = byte c - 48"

text \<open>Reading decimal digits back: the value of a string of digits.\<close>

definition decVal :: "string \<Rightarrow> nat" where
  "decVal s = foldl (\<lambda>v c. 10 * v + digitVal c) 0 s"

lemma byte_digitChar: "d < 10 \<Longrightarrow> byte (digitChar d) = 48 + d"
  by (simp add: digitChar_def)

lemma digitVal_digitChar [simp]: "d < 10 \<Longrightarrow> digitVal (digitChar d) = d"
  by (simp add: digitVal_def byte_digitChar)

lemma decVal_snoc: "decVal (s @ [c]) = 10 * decVal s + digitVal c"
  by (simp add: decVal_def)

lemma decVal_natDec [simp]: "decVal (natDec n) = n"
proof (induction n rule: natDec.induct)
  case (1 n)
  show ?case
  proof (cases "n < 10")
    case True
    then show ?thesis by (subst natDec.simps) (simp add: decVal_def)
  next
    case False
    with 1 show ?thesis by (subst natDec.simps) (simp add: decVal_snoc)
  qed
qed

lemma natDec_inj [simp]: "natDec m = natDec n \<longleftrightarrow> m = n"
  by (metis decVal_natDec)

lemma natDec_digits: "c \<in> set (natDec n) \<Longrightarrow> between CHR ''0'' c CHR ''9''"
proof (induction n rule: natDec.induct)
  case (1 n)
  then show ?case
    by (subst (asm) natDec.simps) (auto simp: between_def byte_digitChar split: if_splits)
qed

lemma natDec_not_Nil [simp]: "natDec n \<noteq> []"
  by (subst natDec.simps) simp

lemma Itoa_of_nat: "Itoa (int n) = natDec n"
  by (simp add: Itoa_def)

lemma Itoa_inj [simp]: "Itoa i = Itoa j \<longleftrightarrow> i = j"
proof -
  have "CHR ''-'' # natDec m \<noteq> natDec n" for m n
  proof
    assume "CHR ''-'' # natDec m = natDec n"
    then have "CHR ''-'' \<in> set (natDec n)" by (metis list.set_intros(1))
    then show False by (auto dest: natDec_digits simp: between_def)
  qed
  from this this [symmetric] show ?thesis by (auto simp: Itoa_def)
qed

text \<open>\<open>strings.Join\<close>, and the loops that write a separator between the elements of a list.\<close>

fun joinWith :: "string \<Rightarrow> string list \<Rightarrow> string" where
  "joinWith sep [] = []"
| "joinWith sep [x] = x"
| "joinWith sep (x # y # ys) = x @ sep @ joinWith sep (y # ys)"

lemma joinWith_set: "set (joinWith sep xs) \<subseteq> set sep \<union> (\<Union>x \<in> set xs. set x)"
  by (induction xs rule: induct_list012) auto

lemma byte_eq_iff [simp]: "byte c = byte d \<longleftrightarrow> c = d"
  using of_char_eq_iff by blast

text \<open>\<open>strings.Replace(s, old, new, -1)\<close> for a non-empty \<open>old\<close>: left to right, no overlap.\<close>

function ReplaceStr :: "string \<Rightarrow> string \<Rightarrow> string \<Rightarrow> string" where
  "ReplaceStr s old new =
     (if s = [] \<or> old = [] then s
      else if take (length old) s = old then new @ ReplaceStr (drop (length old) s) old new
      else hd s # ReplaceStr (tl s) old new)"
  by auto
termination by (relation "measure (\<lambda>(s, old, new). length s)") auto

declare ReplaceStr.simps [simp del]

end
