(* ===== verification/Lexer.thy ===== *)
theory Lexer
  imports Prelude
begin

text \<open>
  The scanner of \<open>src/mateql/lexer.go\<close>: byte classes, the scan functions that measure one
  token at the head of the input, escaping of identifiers. A Go slice \<open>s[i:]\<close> is
  \<open>drop i s\<close>, a byte \<open>s[i]\<close> is \<open>s ! i\<close> under the loop's own bound check; loops over
  an index are recursive functions on that index. The token level (\<open>Next\<close>, \<open>Prev\<close>) is
  theory \<open>TokenStream\<close>.
\<close>

section \<open>Byte classes\<close>

definition isDecimalChar :: "char \<Rightarrow> bool" where
  "isDecimalChar ch \<longleftrightarrow> between CHR ''0'' ch CHR ''9''"

definition isFirstIdentChar :: "char \<Rightarrow> bool" where
  "isFirstIdentChar ch \<longleftrightarrow>
     (if between CHR ''a'' ch CHR ''z'' \<or> between CHR ''A'' ch CHR ''Z'' then True
      else ch = CHR ''_'' \<or> ch = CHR '':'')"

definition isIdentChar :: "char \<Rightarrow> bool" where
  "isIdentChar ch \<longleftrightarrow>
     (if isFirstIdentChar ch then True else isDecimalChar ch \<or> ch = CHR ''.'')"

definition isSpaceChar :: "char \<Rightarrow> bool" where
  "isSpaceChar ch \<longleftrightarrow>
     ch \<in> {CHR '' '', CHR 0x09, CHR 0x0A, CHR 0x0B, CHR 0x0C, CHR 0x0D}"

definition isExtendGraphiteIdentChar :: "char \<Rightarrow> bool" where
  "isExtendGraphiteIdentChar ch \<longleftrightarrow> ch = CHR ''-'' \<or> ch = CHR ''|'' \<or> ch = CHR ''?''"

definition isEOF :: "string \<Rightarrow> bool" where
  "isEOF s \<longleftrightarrow> length s = 0"

fun isIdentPrefix :: "string \<Rightarrow> bool" where
  "isIdentPrefix [] = False"
| "isIdentPrefix (c # cs) = (if c = bslash then True else isFirstIdentChar c)"

fun isStringPrefix :: "string \<Rightarrow> bool" where
  "isStringPrefix [] = False"
| "isStringPrefix (c # cs) = (c \<in> {dquote, squote, bquote})"

fun isPositiveNumberPrefix :: "string \<Rightarrow> bool" where
  "isPositiveNumberPrefix [] = False"
| "isPositiveNumberPrefix (c # cs) =
     (if isDecimalChar c then True
      else if c \<noteq> CHR ''.'' \<or> cs = [] then False
      else isDecimalChar (hd cs))"

definition isInfOrNaN :: "string \<Rightarrow> bool" where
  "isInfOrNaN s = (if length s \<noteq> 3 then False
     else let s = ToLower s in s = ''inf'' \<or> s = ''nan'')"

definition isOffset :: "string \<Rightarrow> bool" where
  "isOffset s = (let s = ToLower s in s = ''offset'')"

section \<open>Scanning\<close>

text \<open>The loop \<open>for i < len(s) && p(s[i]) { i++ }\<close>.\<close>

function skipWhile :: "(char \<Rightarrow> bool) \<Rightarrow> string \<Rightarrow> nat \<Rightarrow> nat" where
  "skipWhile p s i = (if i < length s \<and> p (s ! i) then skipWhile p s (i + 1) else i)"
  by pat_completeness auto
termination by (relation "measure (\<lambda>(p, s, i). length s - i)") auto

declare skipWhile.simps [simp del]

definition scanTagFilterOpPrefix :: "string \<Rightarrow> int" where
  "scanTagFilterOpPrefix s =
     (if 2 \<le> length s \<and> take 2 s \<in> {''=~'', ''!~'', ''!=''} then 2
      else if 1 \<le> length s \<and> s ! 0 = CHR ''='' then 1
      else -1)"

definition scanDuration :: "string \<Rightarrow> bool \<Rightarrow> int" where
  "scanDuration s canBeNegative =
     (if length s = 0 then -1
      else
        let i = (if s ! 0 = CHR ''-'' \<and> canBeNegative then 1 else 0);
            i = skipWhile isDecimalChar s i
        in if i = 0 \<or> i = length s then -1
        else
          let j = i;
              i = (if s ! i = CHR ''.'' then skipWhile isDecimalChar s (i + 1) else i)
          in if s ! j = CHR ''.'' \<and> (i = j \<or> i = length s) then -1
          else if s ! i \<in> set ''smhdwyi'' then int i + 1
          else -1)"

definition isPositiveDuration :: "string \<Rightarrow> bool" where
  "isPositiveDuration s = (let n = scanDuration s False in n = int (length s))"

text \<open>The exponent of a number, from the byte after its letter.\<close>

definition scanExponentPart :: "string \<Rightarrow> nat \<Rightarrow> string result" where
  "scanExponentPart s i =
     (if i = length s then Inl (Errorf ''missing exponent part in %q'' [s])
      else
        let i = (if s ! i = CHR ''-'' \<or> s ! i = CHR ''+'' then i + 1 else i);
            j = skipWhile isDecimalChar s i
        in if j = i then Inl (Errorf ''missing exponent part in %q'' [s])
        else Inr (take j s))"

definition scanPositiveNumber :: "string \<Rightarrow> string result" where
  "scanPositiveNumber s =
     (let i = skipWhile isDecimalChar s 0 in
      if i = length s then
        (if i = 0 then Inl (Errorf ''number cannot be empty'' []) else Inr s)
      else if s ! i \<noteq> CHR ''.'' \<and> s ! i \<noteq> CHR ''e'' \<and> s ! i \<noteq> CHR ''E'' then Inr (take i s)
      else
        let j = (if s ! i = CHR ''.'' then skipWhile isDecimalChar s (i + 1) else i) in
        if s ! i = CHR ''.'' \<and> j = i + 1 then Inl (Errorf ''missing fractional part in %q'' [s])
        else if s ! i = CHR ''.'' \<and> j = length s then Inr s
        else if s ! j \<noteq> CHR ''e'' \<and> s ! j \<noteq> CHR ''E'' then Inr (take j s)
        else
          scanExponentPart s (j + 1))"

text \<open>The backslashes right before position \<open>i\<close>: \<open>for bs < i && s[i-bs-1] == '\'\<close>.\<close>

function countBackslashes :: "string \<Rightarrow> nat \<Rightarrow> nat \<Rightarrow> nat" where
  "countBackslashes s i bs =
     (if bs < i \<and> s ! (i - bs - 1) = bslash then countBackslashes s i (bs + 1) else bs)"
  by pat_completeness auto
termination by (relation "measure (\<lambda>(s, i, bs). i - bs)") auto

declare countBackslashes.simps [simp del]

function scanString_loop :: "string \<Rightarrow> char \<Rightarrow> nat \<Rightarrow> string result" where
  "scanString_loop s quote i =
     (let n = IndexByte (drop i s) quote in
      if n < 0 then Inl (Errorf ''cannot find closing quote %ch for the string %q'' [[quote], s])
      else let i = i + nat n in
        if countBackslashes s i 0 mod 2 = 0 then Inr (take (i + 1) s)
        else scanString_loop s quote (i + 1))"
  by pat_completeness auto
termination
proof (relation "measure (\<lambda>(s, q, i). length s - i)")
  fix s :: string and quote :: char and i :: nat and n j
  assume "n = IndexByte (drop i s) quote" "\<not> n < 0" "j = i + nat n"
  then have "nat n < length (drop i s)" using IndexByte_split [of "drop i s" quote "nat n"] by simp
  with \<open>j = i + nat n\<close> show "((s, quote, j + 1), s, quote, i) \<in> measure (\<lambda>(s, q, i). length s - i)"
    by auto
qed auto

declare scanString_loop.simps [simp del]

definition scanString :: "string \<Rightarrow> string result" where
  "scanString s =
     (if length s < 2 then Inl (Errorf ''cannot find end of string in %q'' [s])
      else let quote = s ! 0 in scanString_loop s quote 1)"

subsection \<open>Graphite character ranges and value lists\<close>

text \<open>
  The loop of \<open>scanCharRange\<close> leaves with \<open>None\<close> where the source returns -1 at once, and
  with \<open>Some (i, charCount, isRange)\<close> where it breaks or runs off the end.
\<close>

function scanCharRange_loop ::
  "string \<Rightarrow> nat \<Rightarrow> nat \<Rightarrow> bool \<Rightarrow> (nat \<times> nat \<times> bool) option" where
  "scanCharRange_loop s i charCount isRange =
     (if i < length s then
        (if isIdentChar (s ! i) then scanCharRange_loop s (i + 1) (charCount + 1) isRange
         else if s ! i = bslash then
           (if i + 2 > length s then Some (i + 1, charCount, isRange)
            else scanCharRange_loop s (i + 2) (charCount + 1) isRange)
         else if s ! i = CHR ''^'' then
           (if i \<noteq> 1 then None else scanCharRange_loop s (i + 1) charCount isRange)
         else if s ! i = CHR ''-'' then
           (if isRange then None
            else if i = 1 \<or> int i = int (length s) - 2 then None
            else if int i < int (length s) - 1 \<and> s ! (i + 1) = CHR ''-'' then None
            else scanCharRange_loop s (i + 1) charCount True)
         else Some (i, charCount, isRange))
      else Some (i, charCount, isRange))"
  by pat_completeness auto
termination by (relation "measure (\<lambda>(s, i, c, r). length s - i)") auto

declare scanCharRange_loop.simps [simp del]

definition scanCharRange :: "string \<Rightarrow> int" where
  "scanCharRange s =
     (if length s = 0 \<or> s ! 0 \<noteq> CHR ''['' then -1
      else if scanDuration (drop 1 s) True > -1 then -1
      else case scanCharRange_loop s 1 0 False of
        None \<Rightarrow> -1
      | Some (i, charCount, isRange) \<Rightarrow>
          if i = 1 \<or> i = length s \<or> s ! i \<noteq> CHR '']'' then -1
          else if isRange \<and> charCount \<noteq> 2 then -1
          else int i + 1)"

lemma scanCharRange_loop_ge:
  "scanCharRange_loop s i n r = Some (i', n', r') \<Longrightarrow> i \<le> length s \<Longrightarrow> i \<le> i' \<and> i' \<le> length s"
proof (induction s i n r rule: scanCharRange_loop.induct)
  case (1 s i n r)
  from "1.prems" "1.IH" show ?case
    by (auto simp: scanCharRange_loop.simps [of s i n r] split: if_splits)
qed

lemma scanCharRange_bounds:
  "scanCharRange s < 0 \<or> 2 \<le> scanCharRange s \<and> scanCharRange s \<le> int (length s)"
proof (cases "length s = 0 \<or> scanCharRange_loop s 1 0 False = None")
  case False
  then obtain i n r where i: "scanCharRange_loop s 1 0 False = Some (i, n, r)"
    by (cases "scanCharRange_loop s 1 0 False") auto
  from scanCharRange_loop_ge [OF this] False have "1 \<le> i" "i \<le> length s"
    by (auto simp: Suc_le_eq)
  with i show ?thesis by (auto simp: scanCharRange_def)
qed (auto simp: scanCharRange_def)

function scanValueList_loop :: "string \<Rightarrow> nat \<Rightarrow> nat option" where
  "scanValueList_loop s i =
     (if i < length s then
        (if isIdentChar (s ! i) \<or> isSpaceChar (s ! i) \<or> s ! i = CHR ''-''
         then scanValueList_loop s (i + 1)
         else if s ! i = bslash then
           (if i + 2 > length s then Some (i + 1) else scanValueList_loop s (i + 2))
         else if s ! i = CHR '','' then
           (if i = 1 \<or> int i = int (length s) - 2 then None
            else if int i < int (length s) - 1 \<and> s ! (i + 1) = CHR '','' then None
            else scanValueList_loop s (i + 1))
         else if s ! i = CHR ''['' then
           (let j = scanCharRange (drop i s) in
            if j < 0 then None else scanValueList_loop s (i + nat j))
         else Some i)
      else Some i)"
  by pat_completeness auto
termination
proof (relation "measure (\<lambda>(s, i). length s - i)")
  fix s :: string and i :: nat and j
  assume "i < length s" "j = scanCharRange (drop i s)" "\<not> j < 0"
  then show "((s, i + nat j), s, i) \<in> measure (\<lambda>(s, i). length s - i)"
    using scanCharRange_bounds [of "drop i s"] by auto
qed auto

declare scanValueList_loop.simps [simp del]

definition scanValueList :: "string \<Rightarrow> int" where
  "scanValueList s =
     (if length s < 2 \<or> s ! 0 \<noteq> CHR ''{'' then -1
      else case scanValueList_loop s 1 of
        None \<Rightarrow> -1
      | Some i \<Rightarrow>
          if i = 1 \<or> i = length s \<or> s ! i \<noteq> CHR ''}'' then -1 else int i + 1)"

lemma scanValueList_loop_ge:
  "scanValueList_loop s i = Some i' \<Longrightarrow> i \<le> length s \<Longrightarrow> i \<le> i' \<and> i' \<le> length s"
proof (induction s i rule: scanValueList_loop.induct)
  case (1 s i)
  have j: "\<not> scanCharRange (drop i s) < 0 \<Longrightarrow>
      i + nat (scanCharRange (drop i s)) \<le> length s"
    using scanCharRange_bounds [of "drop i s"] "1.prems"(2) by auto
  from "1.prems" "1.IH" j show ?case
    by (auto simp: scanValueList_loop.simps [of s i] Let_def split: if_splits)
qed

lemma scanValueList_bounds:
  "scanValueList s < 0 \<or> 2 \<le> scanValueList s \<and> scanValueList s \<le> int (length s)"
proof (cases "length s < 2 \<or> scanValueList_loop s 1 = None")
  case False
  then obtain i where i: "scanValueList_loop s 1 = Some i" by (cases "scanValueList_loop s 1") auto
  from scanValueList_loop_ge [OF this] False have "1 \<le> i" "i \<le> length s" by auto
  with i show ?thesis by (auto simp: scanValueList_def)
qed (auto simp: scanValueList_def)

subsection \<open>Identifiers\<close>

text \<open>
  The loop of \<open>scanIdent\<close>, with the position, the flag \<open>isGraphite\<close> and the position
  \<open>guess\<close> of the first graphite-only byte seen before any dot.
\<close>

function scanIdent_loop :: "string \<Rightarrow> nat \<Rightarrow> bool \<Rightarrow> int \<Rightarrow> nat \<times> bool \<times> int" where
  "scanIdent_loop s i isGraphite guess =
     (if i < length s then
        if s ! i = CHR ''.'' \<and> int i < int (length s) - 1 \<and> s ! (i + 1) = CHR ''.''
        then (i, isGraphite, guess)
        else
          let isGraphite = (isGraphite \<or> s ! i = CHR ''.'') in
          if isIdentChar (s ! i) then scanIdent_loop s (i + 1) isGraphite guess
          else if isExtendGraphiteIdentChar (s ! i) then
            scanIdent_loop s (i + 1) isGraphite
              (if \<not> isGraphite \<and> guess < 0 then int i else guess)
          else if s ! i = bslash then
            (if i + 2 > length s then (i + 1, isGraphite, guess)
             else scanIdent_loop s (i + 2) isGraphite guess)
          else if s ! i = CHR ''*'' then
            (if \<not> isGraphite then (i, isGraphite, guess)
             else scanIdent_loop s (i + 1) isGraphite guess)
          else if s ! i = CHR ''{'' then
            (if \<not> isGraphite then (i, isGraphite, guess)
             else let j = scanValueList (drop i s) in
               if j < 0 then (i, isGraphite, guess)
               else scanIdent_loop s (i + nat j) isGraphite guess)
          else if s ! i = CHR ''['' then
            (if \<not> isGraphite then (i, isGraphite, guess)
             else let j = scanCharRange (drop i s) in
               if j < 0 then (i, isGraphite, guess)
               else scanIdent_loop s (i + nat j) isGraphite guess)
          else (i, isGraphite, guess)
      else (i, isGraphite, guess))"
  by pat_completeness auto
termination
proof (relation "measure (\<lambda>(s, i, g, u). length s - i)")
  fix s :: string and i :: nat and j and g :: bool and u :: int
  assume "i < length s" "j = scanValueList (drop i s)" "\<not> j < 0"
  then show "((s, i + nat j, g, u), s, i, h, v) \<in> measure (\<lambda>(s, i, g, u). length s - i)" for h v
    using scanValueList_bounds [of "drop i s"] by auto
next
  fix s :: string and i :: nat and j and g :: bool and u :: int
  assume "i < length s" "j = scanCharRange (drop i s)" "\<not> j < 0"
  then show "((s, i + nat j, g, u), s, i, h, v) \<in> measure (\<lambda>(s, i, g, u). length s - i)" for h v
    using scanCharRange_bounds [of "drop i s"] by auto
qed auto

declare scanIdent_loop.simps [simp del]

definition scanIdentBug :: string where
  "scanIdentBug = ''BUG: scanIdent couldn't find a single ident char; make sure isIdentPrefix called before scanIdent''"

definition scanIdent :: "string \<Rightarrow> string result" where
  "scanIdent s =
     (case scanIdent_loop s 0 False (-1) of (i, isGraphite, guess) \<Rightarrow>
        if i = 0 then Inl (Panicf scanIdentBug)
        else if \<not> isGraphite \<and> guess \<ge> 0 then Inr (take (nat guess) s)
        else Inr (take i s))"

subsection \<open>Escaping\<close>

definition fromHex :: "char \<Rightarrow> int" where
  "fromHex ch =
     (if between CHR ''0'' ch CHR ''9'' then int (byte ch - 48)
      else if between CHR ''a'' ch CHR ''f'' then int (byte ch - 97 + 10)
      else if between CHR ''A'' ch CHR ''F'' then int (byte ch - 65 + 10)
      else -1)"

definition toHex :: "nat \<Rightarrow> char" where
  "toHex n = (if n < 10 then char_of (48 + n) else char_of (97 + (n - 10)))"

function unescapeIdent_loop :: "string \<Rightarrow> int \<Rightarrow> string \<Rightarrow> string" where
  "unescapeIdent_loop s n dst =
     (let dst = dst @ take (nat n) s; s = drop (nat n + 1) s in
      if length s = 0 then dst
      else
        let h1 = fromHex (s ! 1); h2 = fromHex (s ! 2);
            isHex = (s ! 0 = CHR ''x'' \<and> 3 \<le> length s \<and> h1 \<ge> 0 \<and> h2 \<ge> 0);
            dst = dst @ (if isHex then [char_of (nat h1 * 16 + nat h2)] else [s ! 0]);
            s = (if isHex then drop 3 s else drop 1 s);
            n = IndexByte s bslash
        in if n < 0 then dst @ s else unescapeIdent_loop s n dst)"
  by pat_completeness auto
termination by (relation "measure (\<lambda>(s, n, dst). length s)") (auto simp: Let_def split: if_splits)

declare unescapeIdent_loop.simps [simp del]

definition unescapeIdent :: "string \<Rightarrow> string" where
  "unescapeIdent s =
     (let n = IndexByte s bslash in if n < 0 then s else unescapeIdent_loop s n [])"

fun appendEscapedIdent_loop :: "string \<Rightarrow> nat \<Rightarrow> string \<Rightarrow> string" where
  "appendEscapedIdent_loop dst i [] = dst"
| "appendEscapedIdent_loop dst i (ch # s) =
     appendEscapedIdent_loop
       (dst @ (if isIdentChar ch then
                 (if i = 0 \<and> \<not> isFirstIdentChar ch
                  then [bslash, CHR ''x'', toHex (byte ch div 16), toHex (byte ch mod 16)]
                  else [ch])
               else if 32 \<le> byte ch \<and> byte ch < 127 then [bslash, ch]
               else [bslash, CHR ''x'', toHex (byte ch div 16), toHex (byte ch mod 16)]))
       (i + 1) s"

definition appendEscapedIdent :: "string \<Rightarrow> string \<Rightarrow> string" where
  "appendEscapedIdent dst s = appendEscapedIdent_loop dst 0 s"

lemma byte_toHex: "n < 16 \<Longrightarrow> byte (toHex n) = (if n < 10 then 48 + n else 87 + n)"
  by (simp add: toHex_def)

lemma fromHex_toHex: "n < 16 \<Longrightarrow> fromHex (toHex n) = int n"
  by (auto simp: fromHex_def between_def byte_toHex)

lemma toHex_not: "n < 16 \<Longrightarrow> byte c < 48 \<or> byte c = 92 \<Longrightarrow> toHex n \<noteq> c"
  using byte_toHex [of n] by (auto split: if_splits)

end
