(* ===== verification/BinaryOp.thy ===== *)
theory BinaryOp
  imports Lexer
begin

text \<open>
  The operator tables of \<open>src/mateql/binary_op.go\<close> and the function name tables of
  \<open>aggr.go\<close>, \<open>rollup.go\<close> and \<open>transform.go\<close>. A Go \<open>map[string]bool\<close> that only
  holds \<open>true\<close> is the list of its keys and a look-up is membership. Iterating over such a map
  visits the keys in an order the runtime chooses: \<open>scanBinaryOpPrefix_over\<close> takes that order
  as an argument, and its result is shown not to depend on it.
\<close>

section \<open>Operators\<close>

definition binaryOps :: "string list" where
  "binaryOps =
   [''+'', ''-'', ''*'', ''/'', ''%'', ''^'',
    ''=='', ''!='', ''>'', ''<'', ''>='', ''<='',
    ''and'', ''or'', ''unless'',
    ''if'', ''ifnot'', ''default'']"

definition binaryOpPriorities :: "(string \<times> int) list" where
  "binaryOpPriorities =
   [(''default'', -1), (''if'', 0), (''ifnot'', 0), (''or'', 1), (''and'', 2), (''unless'', 2),
    (''=='', 3), (''!='', 3), (''<'', 3), (''>'', 3), (''<='', 3), (''>='', 3),
    (''+'', 4), (''-'', 4), (''*'', 5), (''/'', 5), (''%'', 5), (''^'', 6)]"

definition isBinaryOp :: "string \<Rightarrow> bool" where
  "isBinaryOp op = (let op = ToLower op in op \<in> set binaryOps)"

text \<open>A key that is missing from a Go map reads as the zero value.\<close>

definition binaryOpPriority :: "string \<Rightarrow> int" where
  "binaryOpPriority op =
     (let op = ToLower op in
      case map_of binaryOpPriorities op of None \<Rightarrow> 0 | Some p \<Rightarrow> p)"

definition scanBinaryOpPrefix_over :: "string list \<Rightarrow> string \<Rightarrow> nat" where
  "scanBinaryOpPrefix_over order s =
     foldl (\<lambda>n op. if length s < length op then n
                   else let ss = ToLower (take (length op) s) in
                     if ss = op \<and> length op > n then length op else n) 0 order"

definition scanBinaryOpPrefix :: "string \<Rightarrow> nat" where
  "scanBinaryOpPrefix s = scanBinaryOpPrefix_over binaryOps s"

definition isRightAssociativeBinaryOp :: "string \<Rightarrow> bool" where
  "isRightAssociativeBinaryOp op \<longleftrightarrow> op = ''^''"

definition isBinaryOpGroupModifier :: "string \<Rightarrow> bool" where
  "isBinaryOpGroupModifier s = (let s = ToLower s in s \<in> {''on'', ''ignoring''})"

definition isBinaryOpJoinModifier :: "string \<Rightarrow> bool" where
  "isBinaryOpJoinModifier s = (let s = ToLower s in s \<in> {''group_left'', ''group_right''})"

definition isBinaryOpBoolModifier :: "string \<Rightarrow> bool" where
  "isBinaryOpBoolModifier s = (let s = ToLower s in s = ''bool'')"

definition IsBinaryOpCmp :: "string \<Rightarrow> bool" where
  "IsBinaryOpCmp op \<longleftrightarrow> op \<in> {''=='', ''!='', ''>'', ''<'', ''>='', ''<=''}"

definition isBinaryOpLogicalSet :: "string \<Rightarrow> bool" where
  "isBinaryOpLogicalSet op = (let op = ToLower op in op \<in> {''and'', ''or'', ''unless''})"

section \<open>Function names\<close>

definition aggrFuncs :: "string list" where
  "aggrFuncs =
   [''sum'', ''min'', ''max'', ''avg'', ''stddev'', ''stdvar'', ''count'', ''count_values'',
    ''bottomk'', ''topk'', ''quantile'', ''group'', ''median'', ''limitk'', ''distinct'',
    ''sum2'', ''geomean'', ''histogram'', ''topk_min'', ''topk_max'', ''topk_avg'',
    ''topk_median'', ''bottomk_min'', ''bottomk_max'', ''bottomk_avg'', ''bottomk_median'',
    ''any'', ''outliersk'', ''mode'']"

definition isAggrFunc :: "string \<Rightarrow> bool" where
  "isAggrFunc s = (let s = ToLower s in s \<in> set aggrFuncs)"

definition isAggrFuncModifier :: "string \<Rightarrow> bool" where
  "isAggrFuncModifier s = (let s = ToLower s in s \<in> {''by'', ''without''})"

definition rollupFuncs :: "string list" where
  "rollupFuncs =
   [''changes'', ''delta'', ''deriv'', ''deriv_fast'', ''holt_winters'', ''idelta'',
    ''increase'', ''irate'', ''predict_linear'', ''rate'', ''resets'', ''avg_over_time'',
    ''min_over_time'', ''max_over_time'', ''sum_over_time'', ''count_over_time'',
    ''quantile_over_time'', ''stddev_over_time'', ''stdvar_over_time'', ''absent_over_time'',
    ''default_rollup'', ''range_over_time'', ''sum2_over_time'', ''geomean_over_time'',
    ''first_over_time'', ''last_over_time'', ''distinct_over_time'', ''increases_over_time'',
    ''decreases_over_time'', ''integrate'', ''ideriv'', ''lifetime'', ''lag'',
    ''scrape_interval'', ''tmin_over_time'', ''tmax_over_time'', ''share_le_over_time'',
    ''share_gt_over_time'', ''histogram_over_time'', ''rollup'', ''rollup_rate'',
    ''rollup_deriv'', ''rollup_delta'', ''rollup_increase'', ''rollup_candlestick'',
    ''aggr_over_time'', ''hoeffding_bound_upper'', ''hoeffding_bound_lower'',
    ''ascent_over_time'', ''descent_over_time'', ''timestamp'', ''mode_over_time'']"

definition IsRollupFunc :: "string \<Rightarrow> bool" where
  "IsRollupFunc funcName = (let s = ToLower funcName in s \<in> set rollupFuncs)"

definition transformFuncs :: "string list" where
  "transformFuncs =
   [''abs'', ''absent'', ''ceil'', ''clamp_max'', ''clamp_min'', ''day_of_month'',
    ''day_of_week'', ''days_in_month'', ''exp'', ''floor'', ''histogram_quantile'', ''hour'',
    ''label_join'', ''label_replace'', ''ln'', ''log2'', ''log10'', ''minute'', ''month'',
    ''round'', ''scalar'', ''sort'', ''sort_desc'', ''sqrt'', ''time'', ''vector'', ''year'',
    ''label_set'', ''label_map'', ''label_del'', ''label_keep'', ''label_copy'',
    ''label_move'', ''label_transform'', ''label_value'', ''label_match'', ''label_mismatch'',
    ''union'', '''', ''keep_last_value'', ''keep_next_value'', ''interpolate'', ''start'',
    ''end'', ''step'', ''running_sum'', ''running_max'', ''running_min'', ''running_avg'',
    ''range_sum'', ''range_max'', ''range_min'', ''range_avg'', ''range_first'',
    ''range_last'', ''range_quantile'', ''smooth_exponential'', ''remove_resets'', ''rand'',
    ''rand_normal'', ''rand_exponential'', ''pi'', ''sin'', ''cos'', ''asin'', ''acos'',
    ''prometheus_buckets'', ''histogram_share'', ''sort_by_label'', ''sort_by_label_desc'']"

definition IsTransformFunc :: "string \<Rightarrow> bool" where
  "IsTransformFunc funcName = (let s = ToLower funcName in s \<in> set transformFuncs)"

definition isWith :: "string \<Rightarrow> bool" where
  "isWith s = (let s = ToLower s in s = ''with'')"

section \<open>The order of map iteration does not matter\<close>

definition startsWithOp :: "string \<Rightarrow> string \<Rightarrow> bool" where
  "startsWithOp s op \<longleftrightarrow> length op \<le> length s \<and> ToLower (take (length op) s) = op"

text \<open>The length of the longest operator the input starts with, whatever its case; 0 without one.\<close>

definition longestOp :: "string \<Rightarrow> nat" where
  "longestOp s = Max (insert 0 (length ` {op \<in> set binaryOps. startsWithOp s op}))"

lemma scanBinaryOpPrefix_body:
  "(if length s < length op then n
    else let ss = ToLower (take (length op) s) in
      if ss = op \<and> length op > n then length op else n)
   = (if startsWithOp s op then max n (length op) else n)"
  by (simp add: startsWithOp_def Let_def)

lemma finite_filter_set: "finite {x \<in> set xs. P x}"
  by simp

lemma Max_insert_insert:
  "finite A \<Longrightarrow> Max (insert (a :: nat) (insert b A)) = Max (insert (max a b) A)"
  by (cases "A = {}") (simp_all add: max.assoc)

lemma scanBinaryOpPrefix_fold:
  "foldl (\<lambda>n op. if startsWithOp s op then max n (length op) else n) n order
     = Max (insert n (length ` {op \<in> set order. startsWithOp s op}))"
proof (induction order arbitrary: n)
  case (Cons op order)
  show ?case
  proof (cases "startsWithOp s op")
    case True
    then have "{x \<in> set (op # order). startsWithOp s x} = insert op {x \<in> set order. startsWithOp s x}"
      by auto
    then have "Max (insert n (length ` {x \<in> set (op # order). startsWithOp s x}))
        = Max (insert (max n (length op)) (length ` {x \<in> set order. startsWithOp s x}))"
      by (simp only: image_insert Max_insert_insert finite_imageI finite_filter_set)
    with True Cons.IH show ?thesis by simp
  next
    case False
    then have "{x \<in> set (op # order). startsWithOp s x} = {x \<in> set order. startsWithOp s x}" by auto
    with False Cons.IH show ?thesis by simp
  qed
qed simp

lemmas scanBinaryOpPrefix_eqs =
  scanBinaryOpPrefix_over_def scanBinaryOpPrefix_body scanBinaryOpPrefix_fold

lemma scanBinaryOpPrefix_over_eq:
  "set order = set binaryOps \<Longrightarrow> scanBinaryOpPrefix_over order s = longestOp s"
  by (simp only: scanBinaryOpPrefix_eqs longestOp_def)

lemma scanBinaryOpPrefix_le: "scanBinaryOpPrefix s \<le> length s"
  by (simp only: scanBinaryOpPrefix_def scanBinaryOpPrefix_eqs) (simp add: startsWithOp_def)

end
