(* ===== verification/TokenStream.thy ===== *)
theory TokenStream
  imports BinaryOp
begin

text \<open>
  The token level of \<open>src/mateql/lexer.go\<close>: \<open>next_token\<close> is the method \<open>next\<close> (a result
  and the new \<open>sTail\<close>), the record \<open>lexer\<close> with \<open>Init\<close>, \<open>Next\<close>, \<open>Prev\<close> and
  \<open>Context\<close> is the struct of that name. The locale \<open>token_zipper\<close> is what the parser
  relies on: a position in a fixed sequence of tokens that moves forward and back.
\<close>

section \<open>The next token\<close>

definition tokenFound :: "string \<Rightarrow> string result \<Rightarrow> string result \<times> string" where
  "tokenFound s r = (case r of Inl e \<Rightarrow> (Inl e, s) | Inr token \<Rightarrow> (Inr token, drop (length token) s))"

function next_token :: "string \<Rightarrow> string result \<times> string" where
  "next_token sTail =
     (let s = drop (skipWhile isSpaceChar sTail 0) sTail in
      if length s = 0 then (Inr [], s)
      else if s ! 0 = CHR ''#'' then
        (let n = IndexByte (drop 1 s) newline in
         if n < 0 then (Inr [], s) else next_token (drop (nat n + 1) (drop 1 s)))
      else if s ! 0 \<in> set ''{}[](),'' then tokenFound s (Inr (take 1 s))
      else if isIdentPrefix s then tokenFound s (scanIdent s)
      else if isStringPrefix s then tokenFound s (scanString s)
      else if scanBinaryOpPrefix s > 0 then tokenFound s (Inr (take (scanBinaryOpPrefix s) s))
      else if scanTagFilterOpPrefix s > 0 then
        tokenFound s (Inr (take (nat (scanTagFilterOpPrefix s)) s))
      else if scanDuration s False > 0 then
        tokenFound s (Inr (take (nat (scanDuration s False)) s))
      else if isPositiveNumberPrefix s then tokenFound s (scanPositiveNumber s)
      else (Inl (Errorf ''cannot recognize %q'' [s]), s))"
  by pat_completeness auto
termination by (relation "measure length") auto

declare next_token.simps [simp del]

record lexer =
  Token :: string
  prevTokens :: "string list"
  nextTokens :: "string list"
  sOrig :: string
  sTail :: string
  lexErr :: "failure option"

definition Context :: "lexer \<Rightarrow> string" where
  "Context lx = Token lx @ sTail lx"

definition Init :: "string \<Rightarrow> lexer \<Rightarrow> lexer" where
  "Init s lx = lx\<lparr>Token := [], prevTokens := [], nextTokens := [], lexErr := None,
                  sOrig := s, sTail := s\<rparr>"

definition Next :: "(lexer, unit) comp" where
  "Next lx =
     (case lexErr lx of
        Some e \<Rightarrow> (Inl e, lx)
      | None \<Rightarrow>
          let lx = lx\<lparr>prevTokens := prevTokens lx @ [Token lx]\<rparr> in
          if length (nextTokens lx) > 0 then
            (Inr (), lx\<lparr>Token := last (nextTokens lx), nextTokens := butlast (nextTokens lx)\<rparr>)
          else
            case next_token (sTail lx) of
              (Inl e, tail) \<Rightarrow> (Inl e, lx\<lparr>sTail := tail, lexErr := Some e\<rparr>)
            | (Inr token, tail) \<Rightarrow> (Inr (), lx\<lparr>sTail := tail, Token := token\<rparr>))"

definition Prev :: "(lexer, unit) comp" where
  "Prev lx =
     (let lx = lx\<lparr>nextTokens := nextTokens lx @ [Token lx]\<rparr> in
      if prevTokens lx = [] then (Inl (Panicf ''index out of range''), lx)
      else (Inr (), lx\<lparr>Token := last (prevTokens lx), prevTokens := butlast (prevTokens lx)\<rparr>))"

section \<open>Scanning lemmas\<close>

lemma skipWhile_bounds: "i \<le> length s \<Longrightarrow> i \<le> skipWhile p s i \<and> skipWhile p s i \<le> length s"
proof (induction p s i rule: skipWhile.induct)
  case (1 p s i)
  then show ?case by (auto simp: skipWhile.simps [of p s i])
qed

lemma skipWhile_all: "i \<le> k \<Longrightarrow> k < skipWhile p s i \<Longrightarrow> p (s ! k)"
proof (induction p s i rule: skipWhile.induct)
  case (1 p s i)
  show ?case
  proof (cases "i < length s \<and> p (s ! i)")
    case True
    with 1 show ?thesis by (cases "k = i") (auto simp: skipWhile.simps [of p s i])
  next
    case False
    with "1.prems" show ?thesis by (auto simp: skipWhile.simps [of p s i])
  qed
qed

lemma skipWhile_stop: "skipWhile p s i < length s \<Longrightarrow> \<not> p (s ! skipWhile p s i)"
proof (induction p s i rule: skipWhile.induct)
  case (1 p s i)
  then show ?case by (cases "i < length s \<and> p (s ! i)") (auto simp: skipWhile.simps [of p s i])
qed

lemma skipWhile_takeWhile: "skipWhile p s i = i + length (takeWhile p (drop i s))"
proof (induction p s i rule: skipWhile.induct)
  case (1 p s i)
  show ?case
  proof (cases "i < length s")
    case True
    then have "drop i s = s ! i # drop (Suc i) s" by (simp add: Cons_nth_drop_Suc)
    with 1 True show ?thesis by (simp add: skipWhile.simps [of p s i])
  next
    case False
    then show ?thesis by (simp add: skipWhile.simps [of p s i])
  qed
qed

lemma scanDuration_le: "scanDuration s b \<le> int (length s)"
proof (cases "length s = 0")
  case False
  define i where "i = skipWhile isDecimalChar s (if s ! 0 = CHR ''-'' \<and> b then 1 else 0)"
  have i: "i \<le> length s"
    using skipWhile_bounds [of 0 s isDecimalChar] skipWhile_bounds [of 1 s isDecimalChar] False
    by (auto simp: i_def Suc_le_eq)
  have j: "i < length s \<Longrightarrow> skipWhile isDecimalChar s (Suc i) \<le> length s"
    using skipWhile_bounds [of "Suc i" s isDecimalChar] by auto
  show ?thesis
    using False i j by (auto simp: scanDuration_def Let_def i_def [symmetric])
qed (simp add: scanDuration_def)

lemma scanString_loop_shape:
  "scanString_loop s q i = Inr t \<Longrightarrow>
     \<exists>k. i \<le> k \<and> k < length s \<and> t = take (k + 1) s \<and> s ! k = q \<and> even (countBackslashes s k 0)"
proof (induction s q i rule: scanString_loop.induct)
  case (1 s q i)
  define n where "n = IndexByte (drop i s) q"
  show ?case
  proof (cases "n < 0")
    case True
    with "1.prems" show ?thesis by (simp add: scanString_loop.simps [of s q i] n_def)
  next
    case False
    then have "IndexByte (drop i s) q = int (nat n)" by (simp add: n_def)
    from IndexByte_split [OF this] have k: "nat n < length (drop i s)" "drop i s ! nat n = q"
      by (metis, metis append_take_drop_id le_add1 length_append length_take min.absorb2
          nat_less_le nth_append_length order_less_imp_le)
    show ?thesis
    proof (cases "even (countBackslashes s (i + nat n) 0)")
      case True
      with "1.prems" False have "t = take (i + nat n + 1) s"
        by (simp add: scanString_loop.simps [of s q i] n_def [symmetric] even_iff_mod_2_eq_zero)
      with True k show ?thesis by (intro exI [of _ "i + nat n"]) auto
    next
      case odd: False
      with "1.prems" False have "scanString_loop s q (i + nat n + 1) = Inr t"
        by (simp add: scanString_loop.simps [of s q i] n_def [symmetric] even_iff_mod_2_eq_zero)
      with "1.IH" [OF n_def False refl] odd obtain k where
        "i + nat n + 1 \<le> k" "k < length s" "t = take (k + 1) s" "s ! k = q" "even (countBackslashes s k 0)"
        by (auto simp: even_iff_mod_2_eq_zero)
      then show ?thesis by (intro exI [of _ k]) auto
    qed
  qed
qed


text \<open>
  One round of \<open>scanIdent_loop\<close>: it stops at \<open>i\<close> or, after a final backslash, at \<open>i + 1\<close>,
  or goes on from a later position.
\<close>

lemma scanIdent_loop_cases:
  assumes i: "i \<le> length s"
    and stop: "\<And>k g'. k = i \<or> k = i + 1 \<Longrightarrow> k \<le> length s \<Longrightarrow> P (k, g', u)"
    and more: "\<And>j g' u'. i < j \<Longrightarrow> j \<le> length s \<Longrightarrow> u' = u \<or> u' = int i \<Longrightarrow>
        P (scanIdent_loop s j g' u')"
  shows "P (scanIdent_loop s i g u)"
proof -
  have v: "\<not> scanValueList (drop i s) < 0 \<Longrightarrow>
      i < i + nat (scanValueList (drop i s)) \<and> i + nat (scanValueList (drop i s)) \<le> length s"
    using scanValueList_bounds [of "drop i s"] i by auto
  have c: "\<not> scanCharRange (drop i s) < 0 \<Longrightarrow>
      i < i + nat (scanCharRange (drop i s)) \<and> i + nat (scanCharRange (drop i s)) \<le> length s"
    using scanCharRange_bounds [of "drop i s"] i by auto
  show ?thesis
    unfolding scanIdent_loop.simps [of s i g u] Let_def
    by (rule if_cases [where P = P] | (rule stop; use i in simp; fail)
        | (rule more; use i v c in simp; fail))+
qed

lemma scanIdent_loop_bounds:
  "scanIdent_loop s i g u = (i', g', u') \<Longrightarrow> i \<le> length s \<Longrightarrow>
     i \<le> i' \<and> i' \<le> length s \<and> (u' = u \<or> int i \<le> u' \<and> u' < int (length s))"
proof (induction "length s - i" arbitrary: i g u i' g' u' rule: less_induct)
  case less
  define Q where "Q r \<longleftrightarrow> (case r of (i', g', u') \<Rightarrow>
      i \<le> i' \<and> i' \<le> length s \<and> (u' = u \<or> int i \<le> u' \<and> u' < int (length s)))"
    for r :: "nat \<times> bool \<times> int"
  have "Q (scanIdent_loop s i g u)"
  proof (rule scanIdent_loop_cases [OF less.prems(2)])
    fix j h v
    assume j: "i < j" "j \<le> length s" "v = u \<or> v = int i"
    obtain i2 g2 u2 where r: "scanIdent_loop s j h v = (i2, g2, u2)"
      by (cases "scanIdent_loop s j h v")
    have "length s - j < length s - i" using j by simp
    from less.hyps [OF this r j(2)] j r show "Q (scanIdent_loop s j h v)"
      by (auto simp: Q_def)
  qed (auto simp: Q_def)
  with less.prems show ?case by (simp add: Q_def)
qed

text \<open>
  What every scan function delivers: an error that is no panic, or a non-empty prefix of the
  input.
\<close>

definition isToken :: "string \<Rightarrow> string result \<Rightarrow> bool" where
  "isToken s r \<longleftrightarrow> (case r of Inl e \<Rightarrow> \<not> isPanic e \<and> e \<noteq> OutOfFuel
     | Inr t \<Rightarrow> t \<noteq> [] \<and> length t \<le> length s \<and> t = take (length t) s)"

lemma isToken_take: "0 < n \<Longrightarrow> n \<le> length s \<Longrightarrow> isToken s (Inr (take n s))"
  by (auto simp: isToken_def)

lemma isToken_Errorf [simp]: "isToken s (Inl (Errorf f xs))"
  by (simp add: isToken_def)

lemma isToken_scanIdent:
  assumes "isIdentPrefix s"
  shows "isToken s (scanIdent s)"
proof -
  obtain c cs where s: "s = c # cs" using assms by (cases s) auto
  have fin: "isToken s (case r of (i, isGraphite, guess) \<Rightarrow>
      if i = 0 then Inl (Panicf m)
      else if \<not> isGraphite \<and> guess \<ge> 0 then Inr (take (nat guess) s) else Inr (take i s))"
    if "r = scanIdent_loop s i g (-1)" "0 < i" "i \<le> length s" for r i g m
  proof -
    obtain i2 g2 u2 where r: "r = (i2, g2, u2)" by (cases r)
    with that have "i \<le> i2 \<and> i2 \<le> length s \<and> (u2 = -1 \<or> int i \<le> u2 \<and> u2 < int (length s))"
      using scanIdent_loop_bounds [of s i g "-1" i2 g2 u2] by simp
    with r that(2) show ?thesis by (auto intro!: isToken_take)
  qed
  show ?thesis
  proof (cases "c = bslash")
    case True
    then show ?thesis
    proof (cases "length s < 2")
      case True
      with s \<open>c = bslash\<close> show ?thesis
        by (auto simp: scanIdent_def scanIdent_loop.simps [of _ 0] isIdentChar_def
            isFirstIdentChar_def isDecimalChar_def isExtendGraphiteIdentChar_def between_def
            intro!: isToken_take [of 1 "[bslash]", simplified])
    next
      case False
      with s True have "scanIdent_loop s 0 False (-1) = scanIdent_loop s 2 False (-1)"
        by (simp add: scanIdent_loop.simps [of _ 0] isIdentChar_def numeral_2_eq_2
            isFirstIdentChar_def isDecimalChar_def isExtendGraphiteIdentChar_def between_def)
      with fin [OF refl, where i = 2] False show ?thesis by (simp add: scanIdent_def)
    qed
  next
    case False
    with assms s have c: "isFirstIdentChar c" by simp
    then have "c \<noteq> CHR ''.''" by (auto simp: isFirstIdentChar_def between_def)
    with c s have "scanIdent_loop s 0 False (-1) = scanIdent_loop s 1 False (-1)"
      by (simp add: scanIdent_loop.simps [of _ 0] isIdentChar_def)
    moreover have "1 \<le> length s" using s by simp
    ultimately show ?thesis using fin [OF refl, where i = 1] by (simp add: scanIdent_def)
  qed
qed

lemma isToken_scanString: "isToken s (scanString s)"
proof (cases "scanString s")
  case (Inl e)
  have "scanString_loop s q i = Inl e \<Longrightarrow> \<exists>xs f. e = Errorf f xs" for q i
  proof (induction s q i rule: scanString_loop.induct)
    case (1 s q i)
    then show ?case
      by (auto simp: scanString_loop.simps [of s q i] Let_def split: if_splits)
  qed
  from this [of "s ! 0" 1] Inl show ?thesis by (auto simp: scanString_def Let_def split: if_splits)
next
  case (Inr t)
  then show ?thesis
    by (auto simp: scanString_def Let_def split: if_splits dest!: scanString_loop_shape
        intro!: isToken_take)
qed

lemma isToken_scanPositiveNumber:
  assumes "isPositiveNumberPrefix s"
  shows "isToken s (scanPositiveNumber s)"
proof -
  obtain c cs where s: "s = c # cs" using assms by (cases s) auto
  define i where "i = skipWhile isDecimalChar s 0"
  define j where "j = (if s ! i = CHR ''.'' then skipWhile isDecimalChar s (i + 1) else i)"
  have i: "i \<le> length s" using skipWhile_bounds [of 0 s isDecimalChar] by (simp add: i_def)
  have j: "i \<le> j \<and> j \<le> length s \<and> (s ! i = CHR ''.'' \<longrightarrow> i < j)" if "i \<noteq> length s"
    using skipWhile_bounds [of "i + 1" s isDecimalChar] i that by (auto simp: j_def)
  have k: "k \<le> length s \<Longrightarrow> k \<le> skipWhile isDecimalChar s k \<and> skipWhile isDecimalChar s k \<le> length s"
    for k by (rule skipWhile_bounds)
  have pos: "0 < i \<or> s ! i = CHR ''.''"
  proof (cases "isDecimalChar c")
    case True
    then have "i = skipWhile isDecimalChar s 1" by (simp add: i_def s skipWhile.simps [of _ _ 0])
    with skipWhile_bounds [of 1 s isDecimalChar] s show ?thesis by simp
  next
    case False
    then have "i = 0" by (simp add: i_def s skipWhile.simps [of _ _ 0])
    with False assms s show ?thesis by (auto split: if_splits)
  qed
  have T: "isToken s (Inr s)" "\<And>n. 0 < n \<Longrightarrow> n \<le> length s \<Longrightarrow> isToken s (Inr (take n s))"
    using s by (simp_all add: isToken_def)
  have K: "isToken s (scanExponentPart s m)" if "m \<le> length s" for m
  proof -
    define i where "i = (if s ! m = CHR ''-'' \<or> s ! m = CHR ''+'' then m + 1 else m)"
    have "m \<noteq> length s \<Longrightarrow> i \<le> length s" using that by (simp add: i_def)
    with k [of i] T that show ?thesis
      by (auto simp: scanExponentPart_def Let_def simp flip: i_def)
  qed
  have jl: "i \<noteq> length s \<Longrightarrow> \<not> (s ! i = CHR ''.'' \<and> j = length s) \<Longrightarrow> j < length s"
    using j i by (auto simp: j_def split: if_splits)
  show ?thesis
    unfolding scanPositiveNumber_def Let_def i_def [symmetric] j_def [symmetric]
    by (rule isToken_Errorf | rule K | rule T(1) | rule if_cases [where P = "isToken s"]
        | (rule T(2); use i j pos in fastforce) | (use jl in simp; fail))+
qed

section \<open>Progress and totality of the scanner\<close>

text \<open>White space and comments, as \<open>next\<close> skips them before a token.\<close>

inductive blank :: "string \<Rightarrow> bool" where
  blank_Nil: "blank []"
| blank_space: "isSpaceChar c \<Longrightarrow> blank w \<Longrightarrow> blank (c # w)"
| blank_comment: "newline \<notin> set w \<Longrightarrow> blank v \<Longrightarrow> blank (CHR ''#'' # w @ newline # v)"

inductive_simps blank_Cons_simp: "blank (c # w)"

lemma blank_append: "blank u \<Longrightarrow> blank v \<Longrightarrow> blank (u @ v)"
  by (induction rule: blank.induct) (auto intro: blank.intros)

lemma blank_spaces: "\<forall>c \<in> set w. isSpaceChar c \<Longrightarrow> blank w"
  by (induction w) (auto intro: blank.intros)

text \<open>
  The specification of \<open>next\<close>: the input is blanks, the token and the rest. An empty token
  means that nothing is left but blanks and possibly one comment that no newline ends.
\<close>

definition nextSpec :: "string \<Rightarrow> string result \<times> string \<Rightarrow> bool" where
  "nextSpec s r \<longleftrightarrow>
     (\<exists>w v. s = w @ v \<and> blank w \<and>
       (case r of
          (Inl e, rest) \<Rightarrow> \<not> isPanic e \<and> e \<noteq> OutOfFuel \<and> rest = v \<and> v \<noteq> []
        | (Inr t, rest) \<Rightarrow> v = t @ rest \<and>
            (t = [] \<longrightarrow> rest = [] \<or> (hd rest = CHR ''#'' \<and> newline \<notin> set rest))))"

lemma nextSpec_tokenFound:
  assumes "isToken s r" and "s \<noteq> []"
  shows "nextSpec s (tokenFound s r)"
proof (cases r)
  case (Inl e)
  with assms show ?thesis
    by (auto simp: isToken_def tokenFound_def nextSpec_def intro: exI [of _ "[]"] blank_Nil)
next
  case (Inr t)
  with assms have "s = t @ drop (length t) s" "t \<noteq> []"
    by (auto simp: isToken_def) (metis append_take_drop_id)
  with Inr show ?thesis
    by (auto simp: tokenFound_def nextSpec_def intro!: exI [of _ "[]"] blank_Nil)
qed

lemma nextSpec_blank:
  assumes "blank w" and "nextSpec s r"
  shows "nextSpec (w @ s) r"
proof -
  from assms(2) obtain u v where uv: "s = u @ v" "blank u" and r:
    "case r of (Inl e, rest) \<Rightarrow> \<not> isPanic e \<and> e \<noteq> OutOfFuel \<and> rest = v \<and> v \<noteq> []
      | (Inr t, rest) \<Rightarrow> v = t @ rest \<and>
          (t = [] \<longrightarrow> rest = [] \<or> (hd rest = CHR ''#'' \<and> newline \<notin> set rest))"
    by (auto simp: nextSpec_def)
  have "w @ s = (w @ u) @ v" "blank (w @ u)" using uv assms(1) by (auto intro: blank_append)
  with r show ?thesis unfolding nextSpec_def by blast
qed

lemma isToken_ops:
  "0 < scanBinaryOpPrefix s \<Longrightarrow> isToken s (Inr (take (scanBinaryOpPrefix s) s))"
  "0 < scanTagFilterOpPrefix s \<Longrightarrow> isToken s (Inr (take (nat (scanTagFilterOpPrefix s)) s))"
  "0 < scanDuration s b \<Longrightarrow> isToken s (Inr (take (nat (scanDuration s b)) s))"
  using scanBinaryOpPrefix_le [of s] scanDuration_le [of s b]
  by (auto intro!: isToken_take simp: scanTagFilterOpPrefix_def split: if_splits)

lemmas isToken_scanners =
  isToken_scanIdent isToken_scanString isToken_scanPositiveNumber isToken_ops

lemma next_token_spec: "nextSpec s (next_token s)"
proof (induction s rule: next_token.induct)
  case (1 inp)
  define n where "n = skipWhile isSpaceChar inp 0"
  define s where "s = drop n inp"
  have w: "blank (take n inp)"
  proof (rule blank_spaces, rule ballI)
    fix c assume "c \<in> set (take n inp)"
    then obtain k where "k < n" "c = inp ! k" by (auto simp: in_set_conv_nth)
    then show "isSpaceChar c" using skipWhile_all [of 0 k isSpaceChar inp] by (simp add: n_def)
  qed
  have inp: "inp = take n inp @ s" by (simp add: s_def)
  have "nextSpec s (next_token inp)"
  proof (cases "s = []")
    case True
    then have "next_token inp = (Inr [], [])"
      by (simp add: next_token.simps [of inp] s_def n_def)
    with True show ?thesis by (auto simp: nextSpec_def intro: blank_Nil)
  next
    case ne: False
    then obtain c cs where s: "s = c # cs" by (cases s) auto
    show ?thesis
    proof (cases "c = CHR ''#''")
      case True
      define m where "m = IndexByte cs newline"
      show ?thesis
      proof (cases "m < 0")
        case neg: True
        then have "next_token inp = (Inr [], s)"
          using True s by (simp add: next_token.simps [of inp] s_def [symmetric] n_def [symmetric] m_def)
        moreover have "newline \<notin> set s"
          using neg True s by (simp add: m_def IndexByte_neg_iff)
        ultimately show ?thesis using True s by (auto simp: nextSpec_def intro!: exI [of _ "[]"] blank_Nil)
      next
        case False
        then have eq: "next_token inp = next_token (drop (nat m + 1) cs)"
          using True s by (simp add: next_token.simps [of inp] s_def [symmetric] n_def [symmetric] m_def)
        have "nextSpec (drop (nat m + 1) cs) (next_token (drop (nat m + 1) cs))"
        proof -
          have "s = drop (skipWhile isSpaceChar inp 0) inp" "length s \<noteq> 0" "s ! 0 = CHR ''#''"
            "m = IndexByte (drop 1 s) newline" by (simp_all add: s True m_def) (simp_all add: s_def n_def flip: s True)
          from "1.IH" [OF this False] show ?thesis by (simp add: s)
        qed
        moreover have "IndexByte cs newline = int (nat m)" using False by (simp add: m_def)
        from IndexByte_split [OF this]
        have "s = (CHR ''#'' # take (nat m) cs @ newline # []) @ drop (nat m + 1) cs"
          and "newline \<notin> set (take (nat m) cs)" using s True by auto
        moreover from this(2) have "blank (CHR ''#'' # take (nat m) cs @ newline # [])"
          by (rule blank_comment) (rule blank_Nil)
        ultimately show ?thesis unfolding eq by (metis nextSpec_blank)
      qed
    next
      case False
      have "isToken s (Inr (take 1 s))" using ne by (intro isToken_take) (simp_all add: Suc_le_eq)
      with False ne s show ?thesis
        unfolding next_token.simps [of inp] Let_def n_def [symmetric] s_def [symmetric]
        by (simp add: nextSpec_tokenFound isToken_scanners)
          (auto simp: nextSpec_def intro!: exI [of _ "[]"] blank_Nil)
    qed
  qed
  with w inp show ?case by (metis nextSpec_blank)
qed

lemma next_token_shorter:
  assumes "next_token s = (Inr t, rest)" and "t \<noteq> []"
  shows "length rest < length s"
  using next_token_spec [of s] assms by (auto simp: nextSpec_def)

lemma next_token_le: "next_token s = (r, rest) \<Longrightarrow> length rest \<le> length s"
  using next_token_spec [of s] by (cases r) (auto simp: nextSpec_def)

lemma next_token_no_panic:
  "next_token s = (Inl e, rest) \<Longrightarrow> \<not> isPanic e \<and> e \<noteq> OutOfFuel"
  using next_token_spec [of s] by (auto simp: nextSpec_def)

lemma next_token_eof_sticky:
  assumes "next_token s = (Inr [], rest)"
  shows "next_token rest = (Inr [], rest)"
proof -
  from next_token_spec [of s] assms
  consider "rest = []" | cs where "rest = CHR ''#'' # cs" "newline \<notin> set cs"
    by (cases rest) (auto simp: nextSpec_def)
  then show ?thesis
  proof cases
    case 1
    then show ?thesis by (simp add: next_token.simps)
  next
    case 2
    then have "skipWhile isSpaceChar rest 0 = 0"
      by (simp add: skipWhile.simps [of _ _ 0] isSpaceChar_def)
    with 2 show ?thesis by (simp add: next_token.simps [of "CHR ''#'' # cs"] IndexByte_absent)
  qed
qed

text \<open>All tokens up to the end of the input, or up to the first error.\<close>

function lexAll :: "string \<Rightarrow> string list \<times> failure option" where
  "lexAll s =
     (case next_token s of
        (Inl e, rest) \<Rightarrow> ([], Some e)
      | (Inr t, rest) \<Rightarrow>
          if t = [] then ([], None)
          else case lexAll rest of (ts, e) \<Rightarrow> (t # ts, e))"
  by pat_completeness auto
termination
  by (relation "measure length") (auto simp: next_token_shorter [OF sym])

declare lexAll.simps [simp del]

lemma lexAll_length: "length (fst (lexAll s)) \<le> length s"
proof (induction s rule: lexAll.induct)
  case (1 s)
  show ?case
  proof (cases "next_token s")
    case (Pair r rest)
    show ?thesis
    proof (cases r)
      case (Inr t)
      show ?thesis
      proof (cases "t = []")
        case False
        from "1.IH" [OF Pair [symmetric] Inr False]
        have "length (fst (lexAll rest)) \<le> length rest" .
        with next_token_shorter [of s t rest] Pair Inr False show ?thesis
          by (cases "lexAll rest") (simp add: lexAll.simps [of s])
      qed (simp add: lexAll.simps [of s] Pair Inr)
    qed (simp add: lexAll.simps [of s] Pair)
  qed
qed

section \<open>The token zipper\<close>

text \<open>
  What the parser relies on: the tokens before the position, the current token, the tokens
  after it, and how the sequence ends (\<open>None\<close>: at the end of the input, which then reads as
  empty tokens for ever; \<open>Some e\<close>: with the error \<open>e\<close>).
\<close>

locale token_zipper =
  fixes adv :: "('s, unit) comp"
    and unadv :: "('s, unit) comp"
    and past :: "'s \<Rightarrow> string list"
    and cur :: "'s \<Rightarrow> string"
    and rest :: "'s \<Rightarrow> string list"
    and ending :: "'s \<Rightarrow> failure option"
    and ok :: "'s \<Rightarrow> bool"
  assumes adv_Cons: "ok s \<Longrightarrow> rest s = t # ts \<Longrightarrow>
      \<exists>s'. adv s = (Inr (), s') \<and> ok s' \<and> past s' = past s @ [cur s] \<and> cur s' = t
        \<and> rest s' = ts \<and> ending s' = ending s"
    and adv_eof: "ok s \<Longrightarrow> rest s = [] \<Longrightarrow> ending s = None \<Longrightarrow>
      \<exists>s'. adv s = (Inr (), s') \<and> ok s' \<and> past s' = past s @ [cur s] \<and> cur s' = []
        \<and> rest s' = [] \<and> ending s' = None"
    and adv_err: "ok s \<Longrightarrow> rest s = [] \<Longrightarrow> ending s = Some e \<Longrightarrow>
      \<exists>s'. adv s = (Inl e, s') \<and> \<not> ok s'"
    and back_snoc: "ok s \<Longrightarrow> past s = p @ [t] \<Longrightarrow>
      \<exists>s'. unadv s = (Inr (), s') \<and> ok s' \<and> past s' = p \<and> cur s' = t
        \<and> rest s' = cur s # rest s \<and> ending s' = ending s"
begin

fun advs :: "nat \<Rightarrow> ('s, unit) comp" where
  "advs 0 = ret ()"
| "advs (Suc n) = andThen adv (\<lambda>_. advs n)"

fun backs :: "nat \<Rightarrow> ('s, unit) comp" where
  "backs 0 = ret ()"
| "backs (Suc n) = andThen unadv (\<lambda>_. backs n)"

text \<open>Reading \<open>n\<close> tokens of the sequence moves them to the past.\<close>

lemma advs_reads:
  "ok s \<Longrightarrow> n \<le> length (rest s) \<Longrightarrow>
     \<exists>s'. advs n s = (Inr (), s') \<and> ok s'
       \<and> past s' @ [cur s'] = past s @ cur s # take n (rest s)
       \<and> rest s' = drop n (rest s) \<and> ending s' = ending s"
proof (induction n arbitrary: s)
  case 0
  then show ?case by (simp add: ret_def)
next
  case (Suc n)
  then obtain t ts where r: "rest s = t # ts" by (cases "rest s") auto
  with adv_Cons [OF Suc.prems(1) r] obtain s' where
    s': "adv s = (Inr (), s')" "ok s'" "past s' = past s @ [cur s]" "cur s' = t"
      "rest s' = ts" "ending s' = ending s" by auto
  with Suc.IH [of s'] Suc.prems(2) r show ?case by (auto simp: andThen_def)
qed

text \<open>
  Looking ahead and going back the same number of steps restores the position: the same past,
  current token and tokens to come, whether they were read before or not.
\<close>

lemma advs_backs:
  "ok s \<Longrightarrow> n \<le> length (rest s) \<Longrightarrow>
     \<exists>s'. andThen (advs n) (\<lambda>_. backs n) s = (Inr (), s') \<and> ok s'
       \<and> past s' = past s \<and> cur s' = cur s \<and> rest s' = rest s \<and> ending s' = ending s"
proof (induction n arbitrary: s)
  case 0
  then show ?case by (simp add: ret_def andThen_def)
next
  case (Suc n)
  then obtain t ts where r: "rest s = t # ts" by (cases "rest s") auto
  with adv_Cons [OF Suc.prems(1) r] obtain s1 where
    s1: "adv s = (Inr (), s1)" "ok s1" "past s1 = past s @ [cur s]" "cur s1 = t"
      "rest s1 = ts" "ending s1 = ending s" by auto
  with Suc.IH [of s1] Suc.prems(2) r obtain s2 where
    s2: "andThen (advs n) (\<lambda>_. backs n) s1 = (Inr (), s2)" "ok s2"
      "past s2 = past s1" "cur s2 = cur s1" "rest s2 = rest s1" "ending s2 = ending s1"
    by auto
  with s1 have "past s2 = past s @ [cur s]" by simp
  from back_snoc [OF s2(2) this] obtain s3 where
    s3: "unadv s2 = (Inr (), s3)" "ok s3" "past s3 = past s" "cur s3 = cur s"
      "rest s3 = cur s2 # rest s2" "ending s3 = ending s2" by auto
  have swap: "andThen (backs k) (\<lambda>_. unadv) = andThen unadv (\<lambda>_. backs k)" for k
    by (induction k) (simp_all add: andThen_assoc)
  from s2(1) obtain sm where sm: "advs n s1 = (Inr (), sm)" "backs n sm = (Inr (), s2)"
    by (auto simp: result_simps)
  have "andThen (backs n) (\<lambda>_. unadv) sm = (Inr (), s3)" using sm s3 by (simp add: andThen_def)
  then have "backs (Suc n) sm = (Inr (), s3)" by (simp flip: swap)
  with s1 sm have "andThen (advs (Suc n)) (\<lambda>_. backs (Suc n)) s = (Inr (), s3)"
    by (simp add: andThen_def)
  with s1 s2 s3 r show ?case by auto
qed

end

text \<open>The zipper of a lexer state: pushed-unadv tokens come first, then what the tail holds.\<close>

definition lexOk :: "lexer \<Rightarrow> bool" where
  "lexOk st \<longleftrightarrow> lexErr st = None"

definition lexRest :: "lexer \<Rightarrow> string list" where
  "lexRest st = rev (nextTokens st) @ fst (lexAll (sTail st))"

definition lexEnding :: "lexer \<Rightarrow> failure option" where
  "lexEnding st = snd (lexAll (sTail st))"

lemma lexAll_Cons:
  assumes "fst (lexAll s) = t # ts"
  shows "\<exists>s'. next_token s = (Inr t, s') \<and> lexAll s' = (ts, snd (lexAll s))"
  using assms by (subst (asm) lexAll.simps, subst lexAll.simps)
    (auto split: prod.splits sum.splits if_splits)

lemma lexAll_eof:
  assumes "lexAll s = ([], None)"
  shows "\<exists>s'. next_token s = (Inr [], s') \<and> lexAll s' = ([], None)"
proof -
  from assms obtain s' where n: "next_token s = (Inr [], s')"
    by (subst (asm) lexAll.simps) (auto split: prod.splits sum.splits if_splits)
  with next_token_eof_sticky [OF n] show ?thesis by (auto simp: lexAll.simps [of s'])
qed

lemma lexAll_err:
  assumes "lexAll s = ([], Some e)"
  shows "\<exists>s'. next_token s = (Inl e, s')"
  using assms by (subst (asm) lexAll.simps) (auto split: prod.splits sum.splits if_splits)

lemma append_eq_rev_Cons: "rev xs @ ys = t # ts \<Longrightarrow> xs \<noteq> [] \<Longrightarrow>
    last xs = t \<and> rev (butlast xs) @ ys = ts"
  by (cases xs rule: rev_cases) auto

interpretation lz: token_zipper Next Prev prevTokens Token lexRest lexEnding lexOk
proof (unfold_locales, goal_cases)
  case (1 s t ts)
  show ?case
  proof (cases "nextTokens s = []")
    case True
    with 1 have "fst (lexAll (sTail s)) = t # ts" by (simp add: lexRest_def)
    from lexAll_Cons [OF this] 1 True show ?thesis
      by (auto simp: Next_def lexOk_def lexRest_def lexEnding_def)
  next
    case False
    with 1 append_eq_rev_Cons [of "nextTokens s" _ t ts] show ?thesis
      by (auto simp: Next_def lexOk_def lexRest_def lexEnding_def)
  qed
next
  case (2 s)
  then have "lexAll (sTail s) = ([], None)" by (simp add: lexRest_def lexEnding_def prod_eq_iff)
  from lexAll_eof [OF this] 2 show ?case
    by (auto simp: Next_def lexOk_def lexRest_def lexEnding_def)
next
  case (3 s e)
  then have "lexAll (sTail s) = ([], Some e)" by (simp add: lexRest_def lexEnding_def prod_eq_iff)
  from lexAll_err [OF this] 3 show ?case
    by (auto simp: Next_def lexOk_def lexRest_def)
next
  case (4 s p t)
  then show ?case by (auto simp: Prev_def lexOk_def lexRest_def lexEnding_def)
qed

end
