(* ===== verification/LexSpec.thy ===== *)
theory LexSpec
  imports TokenStream
begin

text \<open>
  What the scanner of \<open>lexer.go\<close> recognises, against grammars: number and duration literals,
  quoted strings, escaped identifiers. \<open>unesc\<close> is the reference definition of unescaping that
  the buffer-and-index loop of \<open>unescapeIdent\<close> implements.
\<close>

section \<open>Escaped identifiers\<close>

fun unesc :: "string \<Rightarrow> string" where
  "unesc [] = []"
| "unesc (c # cs) =
     (if c \<noteq> bslash then c # unesc cs
      else if cs = [] then []
      else if hd cs = CHR ''x'' \<and> 3 \<le> length cs \<and> fromHex (cs ! 1) \<ge> 0 \<and> fromHex (cs ! 2) \<ge> 0
      then char_of (nat (fromHex (cs ! 1)) * 16 + nat (fromHex (cs ! 2))) # unesc (drop 3 cs)
      else hd cs # unesc (tl cs))"

lemma unesc_plain: "bslash \<notin> set s \<Longrightarrow> unesc s = s"
  by (induction s) auto

lemma unesc_append_plain: "bslash \<notin> set p \<Longrightarrow> unesc (p @ s) = p @ unesc s"
  by (induction p) auto

lemma unescapeIdent_loop_eq:
  "IndexByte s bslash = n \<Longrightarrow> 0 \<le> n \<Longrightarrow> unescapeIdent_loop s n dst = dst @ unesc s"
proof (induction s n dst rule: unescapeIdent_loop.induct)
  case (1 s n dst)
  define p t where "p = take (nat n) s" and "t = drop (nat n + 1) s"
  have pt: "take (nat n) s = p" "drop (Suc (nat n)) s = t" by (simp_all add: p_def t_def)
  from "1.prems" have "IndexByte s bslash = int (nat n)" by simp
  from IndexByte_split [OF this] have s: "s = p @ bslash # t" "bslash \<notin> set p"
    by (simp_all add: p_def t_def)
  then have u: "unesc s = p @ unesc (bslash # t)" by (simp only: s(1) unesc_append_plain [OF s(2)])
  show ?case
  proof (cases t)
    case Nil
    with u show ?thesis
      by (simp only: unescapeIdent_loop.simps [of s n dst] Let_def Suc_eq_plus1 [symmetric] pt) simp
  next
    case (Cons d r)
    define isHex where "isHex \<longleftrightarrow> t ! 0 = CHR ''x'' \<and> 3 \<le> length t \<and> fromHex (t ! 1) \<ge> 0 \<and> fromHex (t ! 2) \<ge> 0"
    define b where "b = (if isHex then [char_of (nat (fromHex (t ! 1)) * 16 + nat (fromHex (t ! 2)))] else [t ! 0])"
    define v where "v = (if isHex then drop 3 t else drop 1 t)"
    have ut: "unesc (bslash # t) = b @ unesc v"
      using Cons by (auto simp: isHex_def b_def v_def)
    have step: "unescapeIdent_loop s n dst =
        (if IndexByte v bslash < 0 then dst @ p @ b @ v
         else unescapeIdent_loop v (IndexByte v bslash) (dst @ p @ b))"
      using Cons
      by (simp only: unescapeIdent_loop.simps [of s n dst] Let_def Suc_eq_plus1 [symmetric] pt)
        (simp add: b_def v_def isHex_def)
    show ?thesis
    proof (cases "IndexByte v bslash < 0")
      case True
      then have "unesc v = v" by (simp add: unesc_plain IndexByte_neg_iff)
      with True step u ut show ?thesis by simp
    next
      case False
      have "unescapeIdent_loop v (IndexByte v bslash) (dst @ p @ b) = (dst @ p @ b) @ unesc v"
        using "1.IH" [OF refl refl _ refl refl refl refl refl refl, unfolded Suc_eq_plus1 [symmetric] pt,
            folded isHex_def, folded b_def v_def] Cons False
        by simp
      with False step u ut show ?thesis by simp
    qed
  qed
qed

lemma unescapeIdent_eq_unesc: "unescapeIdent s = unesc s"
  using IndexByte_neg_iff [of s bslash]
  by (auto simp: unescapeIdent_def Let_def unesc_plain unescapeIdent_loop_eq)

text \<open>One escaped byte, and the escaped string as a concatenation.\<close>

definition hexEsc :: "char \<Rightarrow> string" where
  "hexEsc ch = [bslash, CHR ''x'', toHex (byte ch div 16), toHex (byte ch mod 16)]"

definition escChar :: "bool \<Rightarrow> char \<Rightarrow> string" where
  "escChar first ch =
     (if isIdentChar ch then (if first \<and> \<not> isFirstIdentChar ch then hexEsc ch else [ch])
      else if 32 \<le> byte ch \<and> byte ch < 127 then [bslash, ch] else hexEsc ch)"

fun esc :: "bool \<Rightarrow> string \<Rightarrow> string" where
  "esc first [] = []"
| "esc first (ch # s) = escChar first ch @ esc False s"

lemma appendEscapedIdent_loop_eq:
  "appendEscapedIdent_loop dst i s = dst @ esc (i = 0) s"
proof (induction dst i s rule: appendEscapedIdent_loop.induct)
  case (2 dst i ch s)
  then show ?case by (simp add: escChar_def hexEsc_def)
qed simp

lemma appendEscapedIdent_eq: "appendEscapedIdent dst s = dst @ esc True s"
  by (simp add: appendEscapedIdent_def appendEscapedIdent_loop_eq)

lemma toHex_ident: "n < 16 \<Longrightarrow> isIdentChar (toHex n) \<and> toHex n \<noteq> CHR ''.'' \<and> toHex n \<noteq> bslash"
  by (auto simp: isIdentChar_def isFirstIdentChar_def isDecimalChar_def between_def byte_toHex toHex_not)

lemma hex_digits: "byte c div 16 < 16" "byte c mod 16 < 16"
  by (auto intro: less_mult_imp_div_less)

lemma hex_byte: "char_of (byte c div 16 * 16 + byte c mod 16) = c"
  by simp

lemma unesc_hexEsc: "unesc (hexEsc c @ s) = c # unesc s"
  by (simp add: hexEsc_def fromHex_toHex hex_digits)

lemma bslash_not_ident: "\<not> isIdentChar bslash"
  by (simp add: isIdentChar_def isFirstIdentChar_def isDecimalChar_def between_def)

lemma unesc_escChar: "unesc (escChar first c @ s) = c # unesc s"
  using bslash_not_ident
  by (auto simp: escChar_def unesc_hexEsc isIdentChar_def isFirstIdentChar_def between_def)

lemma unesc_esc: "unesc (esc first s) = s"
  by (induction first s rule: esc.induct) (auto simp: unesc_escChar)

section \<open>Escaped identifiers are scanned as one token\<close>

text \<open>Bytes that end an identifier wherever they appear.\<close>

definition identStop :: "string \<Rightarrow> bool" where
  "identStop r \<longleftrightarrow> r = [] \<or>
     \<not> (isIdentChar (hd r) \<or> isExtendGraphiteIdentChar (hd r) \<or> hd r \<in> {bslash, CHR ''*'', CHR ''{'', CHR ''[''})"

fun noDotDot :: "string \<Rightarrow> bool" where
  "noDotDot (a # b # s) = (\<not> (a = CHR ''.'' \<and> b = CHR ''.'') \<and> noDotDot (b # s))"
| "noDotDot s = True"

lemma dot_ident [simp]: "isIdentChar CHR ''.''"
  by (simp add: isIdentChar_def)

lemma drop_nth: "drop i w = c # x \<Longrightarrow> i < length w \<and> w ! i = c \<and> drop (Suc i) w = x"
  by (metis Cons_nth_drop_Suc drop_all list.distinct(1) list.inject not_le)

lemma scanIdent_step_ident:
  assumes "drop i w = c # x" "isIdentChar c" "\<not> (c = CHR ''.'' \<and> x \<noteq> [] \<and> hd x = CHR ''.'')"
  shows "scanIdent_loop w i g u = scanIdent_loop w (i + 1) (g \<or> c = CHR ''.'') u"
proof -
  from drop_nth [OF assms(1)] have c: "i < length w" "w ! i = c" "drop (Suc i) w = x" by auto
  have "\<not> (c = CHR ''.'' \<and> int i < int (length w) - 1 \<and> w ! (i + 1) = CHR ''.'')"
  proof
    assume a: "c = CHR ''.'' \<and> int i < int (length w) - 1 \<and> w ! (i + 1) = CHR ''.''"
    then have "drop (Suc i) w = w ! Suc i # drop (Suc (Suc i)) w"
      by (intro Cons_nth_drop_Suc [symmetric]) auto
    with a c assms(3) show False by auto
  qed
  then have "(w ! i = CHR ''.'' \<and> int i < int (length w) - 1 \<and> w ! (i + 1) = CHR ''.'') = False"
    using c(2) by blast
  with c(1) assms(2) show ?thesis
    by (simp only: scanIdent_loop.simps [of w i g u] if_False Let_def) (simp add: c)
qed

lemma not_special:
  "\<not> isExtendGraphiteIdentChar bslash" "\<not> isIdentChar CHR ''*''" "\<not> isIdentChar CHR ''{''"
  "\<not> isIdentChar CHR ''[''" "\<not> isIdentChar CHR ''-''"
  by (simp_all add: isExtendGraphiteIdentChar_def isIdentChar_def isFirstIdentChar_def
      isDecimalChar_def between_def)

lemma scanIdent_step_bslash:
  assumes "drop i w = bslash # d # x"
  shows "scanIdent_loop w i g u = scanIdent_loop w (i + 2) g u"
proof -
  from drop_nth [OF assms] have c: "i < length w" "w ! i = bslash" "drop (Suc i) w = d # x" by auto
  from drop_nth [OF c(3)] have "Suc i < length w" by simp
  with c bslash_not_ident not_special show ?thesis
    by (simp add: scanIdent_loop.simps [of w i g u])
qed

lemma scanIdent_step_stop:
  assumes "drop i w = r" "identStop r"
  shows "scanIdent_loop w i g u = (i, g, u) \<or> scanIdent_loop w i g u = (i, True, u)"
proof (cases r)
  case Nil
  with assms show ?thesis by (simp add: scanIdent_loop.simps [of w i g u])
next
  case (Cons c x)
  from drop_nth [OF assms(1) [unfolded Cons]] have c: "i < length w" "w ! i = c" by auto
  from assms(2) Cons have "c \<noteq> CHR ''.''" by (auto simp: identStop_def)
  with c assms(2) Cons show ?thesis
    by (auto simp: scanIdent_loop.simps [of w i g u] identStop_def)
qed

lemma scanIdent_hexEsc:
  assumes "drop i w = hexEsc c @ x"
  shows "scanIdent_loop w i g u = scanIdent_loop w (i + 4) g u"
proof -
  let ?h = "toHex (byte c div 16)" and ?l = "toHex (byte c mod 16)"
  have d: "drop (i + 2) w = ?h # ?l # x" "drop (i + 3) w = ?l # x"
    using arg_cong [OF assms, of "drop 2"] arg_cong [OF assms, of "drop 3"]
    by (simp_all add: hexEsc_def numeral_3_eq_3 add.commute)
  have "scanIdent_loop w i g u = scanIdent_loop w (i + 2) g u"
    using assms by (intro scanIdent_step_bslash) (auto simp: hexEsc_def)
  also have "\<dots> = scanIdent_loop w (i + 2 + 1) g u"
    using scanIdent_step_ident [OF d(1), of g u] toHex_ident [OF hex_digits(1), of c] by simp
  also have "i + 2 + 1 = i + 3" by simp
  also have "scanIdent_loop w (i + 3) g u = scanIdent_loop w (i + 3 + 1) g u"
    using scanIdent_step_ident [OF d(2), of g u] toHex_ident [OF hex_digits(2), of c] by simp
  also have "i + 3 + 1 = i + 4" by simp
  finally show ?thesis .
qed

lemma hd_escChar: "hd (escChar f c @ x) = CHR ''.'' \<Longrightarrow> c = CHR ''.''"
  by (auto simp: escChar_def hexEsc_def split: if_splits)

lemma scanIdent_escChar:
  assumes "drop i w = escChar first c @ x"
    and "\<not> (c = CHR ''.'' \<and> x \<noteq> [] \<and> hd x = CHR ''.'')"
  shows "\<exists>g'. scanIdent_loop w i g u = scanIdent_loop w (i + length (escChar first c)) g' u"
proof -
  consider "escChar first c = [c]" "isIdentChar c" | "escChar first c = [bslash, c]"
    | "escChar first c = hexEsc c" by (metis escChar_def)
  then show ?thesis
  proof cases
    case 1
    with assms scanIdent_step_ident [of i w c x] show ?thesis by auto
  next
    case 2
    with assms scanIdent_step_bslash [of i w c x] show ?thesis by (auto simp: numeral_2_eq_2)
  next
    case 3
    have "length (hexEsc c) = 4" by (simp add: hexEsc_def)
    with scanIdent_hexEsc [of i w c x g u] assms(1) 3 show ?thesis by auto
  qed
qed

lemma escChar_not_Nil: "escChar f c \<noteq> []"
  by (simp add: escChar_def hexEsc_def)

lemma scanIdent_loop_esc:
  "drop i w = esc first s @ r \<Longrightarrow> noDotDot s \<Longrightarrow> identStop r \<Longrightarrow>
     \<exists>g'. scanIdent_loop w i g u = (i + length (esc first s), g', u)"
proof (induction first s arbitrary: i g rule: esc.induct)
  case (1 first)
  then show ?case using scanIdent_step_stop [of i w r g u] by auto
next
  case (2 first c s)
  let ?x = "esc False s @ r"
  have "\<not> (c = CHR ''.'' \<and> ?x \<noteq> [] \<and> hd ?x = CHR ''.'')"
  proof
    assume a: "c = CHR ''.'' \<and> ?x \<noteq> [] \<and> hd ?x = CHR ''.''"
    show False
    proof (cases s)
      case Nil
      with a 2 show False by (auto simp: identStop_def)
    next
      case (Cons d t)
      with a have "d = CHR ''.''" using hd_escChar [of False d "esc False t @ r"] by simp
      with a Cons 2 show False by simp
    qed
  qed
  with scanIdent_escChar [of i w first c ?x g u] 2 obtain g' where
    "scanIdent_loop w i g u = scanIdent_loop w (i + length (escChar first c)) g' u" by auto
  moreover have "drop (i + length (escChar first c)) w = ?x"
    using arg_cong [OF "2.prems"(1), of "drop (length (escChar first c))"] by (simp add: add.commute)
  moreover have "noDotDot s" using "2.prems"(2) by (cases s) auto
  ultimately show ?case using "2.IH" "2.prems"(3) by (fastforce simp: add.assoc)
qed

lemma scanIdent_esc:
  assumes "s \<noteq> []" "noDotDot s" "identStop r"
  shows "scanIdent (esc True s @ r) = Inr (esc True s)"
proof -
  obtain g' where "scanIdent_loop (esc True s @ r) 0 False (-1) = (length (esc True s), g', -1)"
    using scanIdent_loop_esc [of 0 "esc True s @ r" True s r False "-1"] assms by auto
  moreover have "esc True s \<noteq> []" using assms(1) escChar_not_Nil by (cases s) auto
  ultimately show ?thesis by (simp add: scanIdent_def)
qed

section \<open>Number and duration literals\<close>

definition digits :: "string \<Rightarrow> bool" where
  "digits d \<longleftrightarrow> d \<noteq> [] \<and> (\<forall>c \<in> set d. isDecimalChar c)"

text \<open>
  A duration literal: digits, an optional fraction whose digits may be missing, a unit. The
  source's test \<open>i == j\<close> for an empty fraction never succeeds, since \<open>i\<close> has been
  advanced past the point, so \<open>5.s\<close> is a duration.
\<close>

definition isDurationLit :: "string \<Rightarrow> bool" where
  "isDurationLit t \<longleftrightarrow> (\<exists>a f u. t = a @ f @ [u] \<and> digits a \<and> u \<in> set ''smhdwyi'' \<and>
     (f = [] \<or> (\<exists>d. f = CHR ''.'' # d \<and> (\<forall>c \<in> set d. isDecimalChar c))))"

lemma takeWhile_all: "\<forall>c \<in> set d. p c \<Longrightarrow> takeWhile p d = d"
  by (induction d) auto

lemma span_ex: "\<exists>d r. s = d @ r \<and> (\<forall>c \<in> set d. p c) \<and> (r = [] \<or> \<not> p (hd r))"
proof (intro exI conjI)
  show "s = takeWhile p s @ dropWhile p s" by simp
  show "\<forall>c \<in> set (takeWhile p s). p c" by (auto dest: set_takeWhileD)
  show "dropWhile p s = [] \<or> \<not> p (hd (dropWhile p s))" using hd_dropWhile by blast
qed

lemma skipWhile_span:
  assumes "\<forall>c \<in> set d. p c" "r = [] \<or> \<not> p (hd r)"
  shows "skipWhile p (b @ d @ r) (length b) = length b + length d"
  using assms by (cases r) (auto simp: skipWhile_takeWhile takeWhile_append takeWhile_all)

lemma point_not_digit [simp]: "\<not> isDecimalChar CHR ''.''"
  by (simp add: isDecimalChar_def between_def)

lemma unit_not_digit: "u \<in> set ''smhdwyi'' \<Longrightarrow> \<not> isDecimalChar u \<and> u \<noteq> CHR ''.''"
  by (auto simp: isDecimalChar_def between_def)

text \<open>\<open>scanDuration\<close> on an input cut at the places where its loops stop.\<close>

lemma scanDuration_cut:
  assumes "\<forall>c \<in> set a. isDecimalChar c" "r = [] \<or> \<not> isDecimalChar (hd r)"
  shows "scanDuration (a @ r) False =
     (if a = [] \<or> r = [] then -1
      else if hd r = CHR ''.'' then
        (let d = takeWhile isDecimalChar (tl r); q = dropWhile isDecimalChar (tl r) in
         if q = [] then -1
         else if hd q \<in> set ''smhdwyi'' then int (length a + 1 + length d) + 1 else -1)
      else if hd r \<in> set ''smhdwyi'' then int (length a) + 1 else -1)"
proof (cases "a = [] \<or> r = []")
  case True
  with skipWhile_span [of a isDecimalChar r "[]"] assms show ?thesis
    by (auto simp: scanDuration_def)
next
  case False
  then obtain c q where r: "r = c # q" by (cases r) auto
  have i: "skipWhile isDecimalChar (a @ c # q) 0 = length a"
    using skipWhile_span [of a isDecimalChar r "[]"] assms r by simp
  show ?thesis
  proof (cases "c = CHR ''.''")
    case True
    define d e where "d = takeWhile isDecimalChar q" and "e = dropWhile isDecimalChar q"
    note de = d_def [symmetric] e_def [symmetric]
    have q: "q = d @ e" by (simp add: d_def e_def)
    then have len: "length q = length d + length e" by simp
    have j: "skipWhile isDecimalChar (a @ c # q) (Suc (length a)) = Suc (length a + length d)"
      by (simp add: skipWhile_takeWhile d_def)
    show ?thesis
    proof (cases e)
      case Nil
      with False i j True r len show ?thesis by (simp add: scanDuration_def Let_def de)
    next
      case (Cons u x)
      have n: "(a @ CHR ''.'' # q) ! Suc (length a + length d) = u"
        using nth_append_length [of "a @ CHR ''.'' # d" u x] q Cons by simp
      with False i j True r Cons len show ?thesis by (simp add: scanDuration_def Let_def de)
    qed
  next
    case nd: False
    with False i r show ?thesis by (simp add: scanDuration_def Let_def)
  qed
qed

lemma scanDuration_iff:
  "scanDuration s False = int n \<longleftrightarrow> n \<le> length s \<and> isDurationLit (take n s)"
proof
  assume L: "scanDuration s False = int n"
  obtain a r where s: "s = a @ r" "\<forall>c \<in> set a. isDecimalChar c" "r = [] \<or> \<not> isDecimalChar (hd r)"
    using span_ex [of s isDecimalChar] by auto
  from L scanDuration_cut [OF s(2,3)] s(1) have ne: "a \<noteq> []" "r \<noteq> []" by (auto split: if_splits)
  then obtain c q where r: "r = c # q" by (cases r) auto
  show "n \<le> length s \<and> isDurationLit (take n s)"
  proof (cases "c = CHR ''.''")
    case True
    define d e where "d = takeWhile isDecimalChar q" and "e = dropWhile isDecimalChar q"
    have q: "q = d @ e" by (simp add: d_def e_def)
    have dd: "\<forall>c \<in> set d. isDecimalChar c" unfolding d_def by (auto dest: set_takeWhileD)
    from L scanDuration_cut [OF s(2,3)] s(1) ne r True have
      e: "e \<noteq> []" "hd e \<in> set ''smhdwyi''" "n = length a + 1 + length d + 1"
      by (auto simp: Let_def simp flip: d_def e_def split: if_splits)
    then obtain u x where u: "e = u # x" by (cases e) auto
    have "take n s = a @ (CHR ''.'' # d) @ [u]" using s(1) r True q u e(3) by simp
    with e u s(2) ne dd have "isDurationLit (take n s)"
      unfolding isDurationLit_def digits_def by (metis list.sel(1))
    moreover have "n \<le> length s" using s(1) r q u e(3) by simp
    ultimately show ?thesis by simp
  next
    case False
    from L scanDuration_cut [OF s(2,3)] s(1) ne r False have
      e: "c \<in> set ''smhdwyi''" "n = length a + 1"
      by (auto split: if_splits)
    have "take n s = a @ [] @ [c]" using s(1) r e(2) by simp
    with e s(2) ne have "isDurationLit (take n s)"
      unfolding isDurationLit_def digits_def by blast
    moreover have "n \<le> length s" using s(1) r e(2) by simp
    ultimately show ?thesis by simp
  qed
next
  assume R: "n \<le> length s \<and> isDurationLit (take n s)"
  then obtain a f u where t: "take n s = a @ f @ [u]" "digits a" "u \<in> set ''smhdwyi''"
    "f = [] \<or> (\<exists>d. f = CHR ''.'' # d \<and> (\<forall>c \<in> set d. isDecimalChar c))"
    by (auto simp: isDurationLit_def)
  have s: "s = a @ (f @ [u] @ drop n s)"
    using append_take_drop_id [of n s] t(1) by simp
  have n: "n = length a + length f + 1" using R arg_cong [OF t(1), of length] by simp
  note u = unit_not_digit [OF t(3)]
  have a: "\<forall>c \<in> set a. isDecimalChar c" "a \<noteq> []" using t(2) by (auto simp: digits_def)
  from t(4) show "scanDuration s False = int n"
  proof
    assume f: "f = []"
    with scanDuration_cut [OF a(1), of "[u] @ drop n s"] a(2) u t(3) n s show ?thesis by auto
  next
    assume "\<exists>d. f = CHR ''.'' # d \<and> (\<forall>c \<in> set d. isDecimalChar c)"
    then obtain d where d: "f = CHR ''.'' # d" "\<forall>c \<in> set d. isDecimalChar c" by auto
    have "takeWhile isDecimalChar (d @ u # drop n s) = d"
      "dropWhile isDecimalChar (d @ u # drop n s) = u # drop n s"
      using d(2) u by (simp_all add: takeWhile_append dropWhile_append)
    with scanDuration_cut [OF a(1), of "f @ [u] @ drop n s"] a(2) u t(3) n s d(1)
    show ?thesis by simp
  qed
qed

text \<open>With a sign allowed, a minus stands for the first digit: the digits behind it may be missing.\<close>

definition isUnsignedBody :: "string \<Rightarrow> bool" where
  "isUnsignedBody t \<longleftrightarrow> (\<exists>a f u. t = a @ f @ [u] \<and> (\<forall>c \<in> set a. isDecimalChar c) \<and> u \<in> set ''smhdwyi'' \<and>
     (f = [] \<or> (\<exists>d. f = CHR ''.'' # d \<and> (\<forall>c \<in> set d. isDecimalChar c))))"

definition isDurationText :: "bool \<Rightarrow> string \<Rightarrow> bool" where
  "isDurationText canBeNegative t \<longleftrightarrow>
     isDurationLit t \<or> (canBeNegative \<and> t \<noteq> [] \<and> hd t = CHR ''-'' \<and> isUnsignedBody (tl t))"

lemma scanDuration_minus: "scanDuration (CHR ''-'' # s) True = scanDuration (CHR ''0'' # s) False"
proof -
  have "isDecimalChar CHR ''0''" by (simp add: isDecimalChar_def between_def)
  then show ?thesis by (simp add: scanDuration_def skipWhile_takeWhile Let_def)
qed

lemma isDurationLit_zero: "isDurationLit (CHR ''0'' # t) \<longleftrightarrow> isUnsignedBody t"
proof
  assume "isDurationLit (CHR ''0'' # t)"
  then obtain a f u where a: "CHR ''0'' # t = a @ f @ [u]" "digits a" "u \<in> set ''smhdwyi''"
    "f = [] \<or> (\<exists>d. f = CHR ''.'' # d \<and> (\<forall>c \<in> set d. isDecimalChar c))" by (auto simp: isDurationLit_def)
  obtain b where "a = CHR ''0'' # b" using a(1,2) by (cases a) (auto simp: digits_def)
  with a(1,2) have "t = b @ f @ [u]" "\<forall>c \<in> set b. isDecimalChar c" by (simp_all add: digits_def)
  with a(3,4) show "isUnsignedBody t" unfolding isUnsignedBody_def by blast
next
  assume "isUnsignedBody t"
  then obtain a f u where a: "t = a @ f @ [u]" "\<forall>c \<in> set a. isDecimalChar c" "u \<in> set ''smhdwyi''"
    "f = [] \<or> (\<exists>d. f = CHR ''.'' # d \<and> (\<forall>c \<in> set d. isDecimalChar c))" by (auto simp: isUnsignedBody_def)
  have "CHR ''0'' # t = (CHR ''0'' # a) @ f @ [u]" "digits (CHR ''0'' # a)"
    using a(1,2) by (simp_all add: digits_def isDecimalChar_def between_def)
  with a(3,4) show "isDurationLit (CHR ''0'' # t)" unfolding isDurationLit_def by blast
qed

lemma isDurationLit_minus: "\<not> isDurationLit (CHR ''-'' # t)"
  by (auto simp: isDurationLit_def digits_def Cons_eq_append_conv isDecimalChar_def between_def)

lemma isDurationLit_Nil: "\<not> isDurationLit []"
  by (simp add: isDurationLit_def)

lemma scanDuration_text: "scanDuration s neg = int n \<longleftrightarrow> n \<le> length s \<and> isDurationText neg (take n s)"
proof (cases "neg \<and> s \<noteq> [] \<and> hd s = CHR ''-''")
  case True
  then obtain t where s: "s = CHR ''-'' # t" by (cases s) auto
  have "scanDuration s neg = int n \<longleftrightarrow> n \<le> length s \<and> isDurationLit (take n (CHR ''0'' # t))"
    using scanDuration_minus [of t] scanDuration_iff [of "CHR ''0'' # t" n] True s by simp
  also have "isDurationLit (take n (CHR ''0'' # t)) \<longleftrightarrow> isDurationText neg (take n s)"
    using True isDurationLit_minus isDurationLit_zero isDurationLit_Nil by (cases n) (auto simp: s isDurationText_def)
  finally show ?thesis .
next
  case False
  then have "scanDuration s neg = scanDuration s False" by (cases s) (auto simp: scanDuration_def)
  moreover have "isDurationText neg (take n s) = isDurationLit (take n s)"
    using False by (cases n; cases s) (auto simp: isDurationText_def)
  ultimately show ?thesis using scanDuration_iff by simp
qed

text \<open>A number literal: integer part, fraction and exponent; the integer part or the fraction is there.\<close>

definition isNumberLit :: "string \<Rightarrow> bool" where
  "isNumberLit t \<longleftrightarrow> (\<exists>a f x. t = a @ f @ x \<and> (\<forall>c \<in> set a. isDecimalChar c)
     \<and> (f = [] \<or> (\<exists>d. f = CHR ''.'' # d \<and> digits d))
     \<and> (x = [] \<or> (\<exists>e g d. x = e # g @ d \<and> e \<in> set ''eE'' \<and> g \<in> {[], ''+'', ''-''} \<and> digits d))
     \<and> (a \<noteq> [] \<or> f \<noteq> []))"

definition stopsDigits :: "string \<Rightarrow> bool" where
  "stopsDigits r \<longleftrightarrow> r = [] \<or> \<not> isDecimalChar (hd r)"

lemma skipWhile_cut:
  assumes "i = length b" "\<forall>c \<in> set d. isDecimalChar c" "stopsDigits r"
  shows "skipWhile isDecimalChar (b @ d @ r) i = length (b @ d)"
  using skipWhile_span [OF assms(2), of r b] assms by (auto simp: stopsDigits_def)

lemma digits_ex: "\<exists>d r. s = d @ r \<and> (\<forall>c \<in> set d. isDecimalChar c) \<and> stopsDigits r"
  using span_ex [of s isDecimalChar] by (simp add: stopsDigits_def)

lemma sign_not_digit [simp]:
  "\<not> isDecimalChar CHR ''-''" "\<not> isDecimalChar CHR ''+''" "\<not> isDecimalChar CHR ''e''"
  "\<not> isDecimalChar CHR ''E''"
  by (simp_all add: isDecimalChar_def between_def)

text \<open>The exponent, once the scanner stands on the letter that starts it.\<close>

lemma scanExponent:
  assumes s: "s = p @ e # q" and e: "e \<in> set ''eE''"
    and ok: "scanExponentPart s (Suc (length p)) = Inr t"
  shows "\<exists>g d r. t = p @ e # g @ d \<and> s = t @ r \<and> g \<in> {[], ''+'', ''-''} \<and> digits d \<and> stopsDigits r"
proof -
  from ok s have "q \<noteq> []" by (auto simp: scanExponentPart_def)
  define g where "g = (if hd q = CHR ''-'' \<or> hd q = CHR ''+'' then [hd q] else [])"
  define v where "v = (if hd q = CHR ''-'' \<or> hd q = CHR ''+'' then tl q else q)"
  have q: "q = g @ v" using \<open>q \<noteq> []\<close> by (auto simp: g_def v_def)
  obtain d r where d: "v = d @ r" "\<forall>c \<in> set d. isDecimalChar c" "stopsDigits r"
    using digits_ex [of v] by auto
  have n: "s ! Suc (length p) = hd q" using s \<open>q \<noteq> []\<close> by (cases q) (auto simp: nth_append)
  define i where "i = (if s ! Suc (length p) = CHR ''-'' \<or> s ! Suc (length p) = CHR ''+''
      then Suc (length p) + 1 else Suc (length p))"
  have i: "i = length (p @ e # g)" by (simp add: i_def n g_def)
  have s': "s = (p @ e # g) @ d @ r" using s q d(1) by simp
  have j: "skipWhile isDecimalChar s i = length ((p @ e # g) @ d)"
    unfolding s' by (rule skipWhile_cut [OF i d(2,3)])
  from ok have "d \<noteq> [] \<and> t = take (length ((p @ e # g) @ d)) s"
    using s \<open>q \<noteq> []\<close> unfolding scanExponentPart_def Let_def i_def [symmetric] j
    by (auto simp: i split: if_splits)
  then have "digits d" "t = p @ e # g @ d" using d(2) s' by (auto simp: digits_def)
  moreover have "s = t @ r" using s' calculation(2) by simp
  moreover have "g \<in> {[], ''+'', ''-''}" by (auto simp: g_def)
  ultimately show ?thesis using d(3) by blast
qed

lemma scanPositiveNumber_sound:
  assumes "scanPositiveNumber s = Inr t" "isPositiveNumberPrefix s"
  shows "isNumberLit t \<and> (\<exists>r. s = t @ r \<and> stopsDigits r)"
proof -
  obtain a r where s: "s = a @ r" "\<forall>c \<in> set a. isDecimalChar c" "stopsDigits r"
    using digits_ex [of s] by auto
  have i: "skipWhile isDecimalChar s 0 = length a"
    using skipWhile_cut [of 0 "[]" a r] s by simp
  have L: "isNumberLit (a @ f @ x)"
    if "f = [] \<or> (\<exists>d. f = CHR ''.'' # d \<and> digits d)" "a \<noteq> [] \<or> f \<noteq> []"
      "x = [] \<or> (\<exists>e g d. x = e # g @ d \<and> e \<in> set ''eE'' \<and> g \<in> {[], ''+'', ''-''} \<and> digits d)" for f x
    using that s(2) unfolding isNumberLit_def by blast
  show ?thesis
  proof (cases r)
    case Nil
    with assms(1) s i have "t = a" "a \<noteq> []" by (auto simp: scanPositiveNumber_def Let_def split: if_splits)
    with Nil s L [of "[]" "[]"] show ?thesis by auto
  next
    case (Cons c q)
    have ne: "length a \<noteq> length s" "s ! length a = c" using s Cons by auto
    have a: "a \<noteq> [] \<or> c = CHR ''.''"
      using assms(2) s Cons by (cases a) (auto simp: stopsDigits_def split: if_splits)
    consider (stop) "c \<noteq> CHR ''.'' \<and> c \<noteq> CHR ''e'' \<and> c \<noteq> CHR ''E''" | (point) "c = CHR ''.''"
      | (expo) "c \<in> set ''eE''" by auto
    then show ?thesis
    proof cases
      case stop
      with assms(1) ne i have "t = take (length a) s" by (simp add: scanPositiveNumber_def Let_def)
      with stop s a L [of "[]" "[]"] Cons show ?thesis by auto
    next
      case expo
      then have "c \<noteq> CHR ''.''" by auto
      with expo assms(1) ne i have "scanExponentPart s (Suc (length a)) = Inr t"
        by (auto simp: scanPositiveNumber_def Let_def)
      from scanExponent [OF s(1) [unfolded Cons] expo this] obtain g d r' where
        "t = a @ c # g @ d" "s = t @ r'" "g \<in> {[], ''+'', ''-''}" "digits d" "stopsDigits r'"
        by blast
      with expo a \<open>c \<noteq> CHR ''.''\<close> L [of "[]" "c # g @ d"] show ?thesis by auto
    next
      case point
      obtain d u where q: "q = d @ u" "\<forall>c \<in> set d. isDecimalChar c" "stopsDigits u"
        using digits_ex [of q] by auto
      have s2: "s = (a @ [c]) @ d @ u" using s(1) Cons q(1) by simp
      have j: "skipWhile isDecimalChar s (length a + 1) = length (a @ c # d)"
        unfolding s2 using skipWhile_cut [of "length a + 1" "a @ [c]" d u] q by simp
      have dd: "digits d" using assms(1) ne i point j q(2)
        by (auto simp: scanPositiveNumber_def Let_def digits_def)
      show ?thesis
      proof (cases "u = []")
        case True
        with assms(1) ne i point j dd s2 have "t = s"
          by (auto simp: scanPositiveNumber_def Let_def digits_def)
        with True s2 point dd L [of "c # d" "[]"] show ?thesis by (auto simp: stopsDigits_def)
      next
        case False
        then obtain v w where u: "u = v # w" by (cases u) auto
        have v: "s ! length (a @ c # d) = v" "length (a @ c # d) \<noteq> length s"
          using s2 u nth_append_length [of "a @ c # d" v w] by auto
        have s3: "s = (a @ c # d) @ v # w" using s2 u by simp
        show ?thesis
        proof (cases "v \<in> set ''eE''")
          case True
          with assms(1) ne i point j dd v
          have "scanExponentPart s (Suc (length (a @ c # d))) = Inr t"
            by (auto simp: scanPositiveNumber_def Let_def digits_def)
          from scanExponent [OF s3 True this] obtain g h r' where
            "t = (a @ c # d) @ v # g @ h" "s = t @ r'" "g \<in> {[], ''+'', ''-''}" "digits h" "stopsDigits r'"
            by blast
          with True point dd L [of "c # d" "v # g @ h"] show ?thesis by auto
        next
          case False
          with assms(1) ne i point j dd v have "t = take (length (a @ c # d)) s"
            by (auto simp: scanPositiveNumber_def Let_def digits_def)
          then have "t = a @ c # d" using s3 by simp
          with s3 u q(3) point dd L [of "c # d" "[]"] show ?thesis by auto
        qed
      qed
    qed
  qed
qed

section \<open>Quoted strings\<close>

text \<open>
  The reference scanner for a quoted string: one pass with an escape flag. The source instead
  jumps from quote to quote and counts the backslashes before each.
\<close>

fun strEnd :: "char \<Rightarrow> bool \<Rightarrow> string \<Rightarrow> nat option" where
  "strEnd q escaped [] = None"
| "strEnd q escaped (c # cs) =
     (if c = q \<and> \<not> escaped then Some 0
      else map_option Suc (strEnd q (c = bslash \<and> \<not> escaped) cs))"

lemma countBackslashes_Suc:
  "bs \<le> i \<Longrightarrow> countBackslashes s (Suc i) (Suc bs) = Suc (countBackslashes s i bs)"
proof (induction s i bs rule: countBackslashes.induct)
  case (1 s i bs)
  then show ?case
    by (cases "bs < i") (simp_all add: countBackslashes.simps [of s i] countBackslashes.simps [of s "Suc i"])
qed

lemma countBackslashes_step:
  "countBackslashes s (Suc i) 0 = (if s ! i = bslash then Suc (countBackslashes s i 0) else 0)"
  by (simp add: countBackslashes.simps [of s "Suc i" 0] countBackslashes_Suc)

lemma scanString_loop_step:
  assumes "i < length s"
  shows "scanString_loop s q i =
     (if s ! i = q \<and> even (countBackslashes s i 0) then Inr (take (Suc i) s)
      else scanString_loop s q (Suc i))"
proof -
  have d: "drop i s = s ! i # drop (Suc i) s" using assms by (simp add: Cons_nth_drop_Suc)
  show ?thesis
  proof (cases "s ! i = q")
    case True
    then show ?thesis
      by (simp add: scanString_loop.simps [of s q i] d even_iff_mod_2_eq_zero)
  next
    case False
    then show ?thesis
      by (simp add: scanString_loop.simps [of s q i] scanString_loop.simps [of s q "Suc i"] d Let_def
          nat_add_distrib)
  qed
qed

lemma scanString_loop_strEnd:
  assumes "i \<le> length s"
  shows "scanString_loop s q i =
     (case strEnd q (odd (countBackslashes s i 0)) (drop i s) of
        None \<Rightarrow> Inl (Errorf ''cannot find closing quote %ch for the string %q'' [[q], s])
      | Some k \<Rightarrow> Inr (take (i + k + 1) s))"
  using assms
proof (induction "length s - i" arbitrary: i rule: less_induct)
  case less
  show ?case
  proof (cases "i = length s")
    case True
    then show ?thesis by (simp add: scanString_loop.simps [of s q "length s"])
  next
    case False
    with less.prems have i: "i < length s" by simp
    then have d: "drop i s = s ! i # drop (Suc i) s" by (simp add: Cons_nth_drop_Suc)
    have "odd (countBackslashes s (Suc i) 0) \<longleftrightarrow> s ! i = bslash \<and> even (countBackslashes s i 0)"
      by (simp add: countBackslashes_step)
    with less.hyps [of "Suc i"] i scanString_loop_step [OF i, of q] d show ?thesis
      by (auto split: option.splits)
  qed
qed

lemma scanString_strEnd:
  assumes "s = q # r" "q \<noteq> bslash"
  shows "scanString s = Inr t \<longleftrightarrow> (\<exists>k. strEnd q False r = Some k \<and> t = take (k + 2) s)"
proof -
  have c: "countBackslashes s 1 0 = 0"
    using countBackslashes_step [of s 0] assms by simp
  have "1 \<le> length s" using assms by simp
  from scanString_loop_strEnd [OF this, of q] c assms(1) show ?thesis
    by (cases r) (auto simp: scanString_def split: option.splits)
qed

end
