(* ===== verification/LexerProps.thy ===== *)
theory LexerProps
  imports LexSpec
begin

text \<open>
  The properties of the scanner and of the token stream, stated over the definitions of
  \<open>Lexer\<close>, \<open>BinaryOp\<close> and \<open>TokenStream\<close>.
\<close>

text \<open>C21: \<open>lexer.next\<close> reads blanks (white space and closed comments), then a token, and leaves
  the rest: nothing is lost or reordered. It never panics, and an empty token means that the input is used up
  (but for a comment that no newline ends).\<close>

theorem next_token_partition: "nextSpec s (next_token s)"
  by (rule next_token_spec)

text \<open>C33: every token but the empty one shortens the input, and the end of the input is sticky.\<close>

theorem next_token_progress:
  assumes "next_token s = (Inr t, rest)"
  shows "if t = [] then next_token rest = (Inr [], rest) else length rest < length s"
  using assms next_token_eof_sticky next_token_shorter by auto

theorem next_token_progress_witness:
  "next_token ''b'' = (Inr ''b'', []) \<and> (if ''a'' = [] then next_token '' b'' = (Inr [], '' b'') else length '' b'' < length ''a b'')"
proof -
  have "next_token ''a b'' = (Inr ''a'', '' b'')" "next_token ''b'' = (Inr ''b'', [])" by code_simp+
  with next_token_progress [of "''a b''" "''a''" "'' b''"] show ?thesis by simp
qed

text \<open>C24: reading \<open>n\<close> tokens ahead with \<open>Next\<close> and going back with \<open>Prev\<close> restores the position:
  current token, tokens before it and tokens to come, also when they had been read before.\<close>

theorem lookahead_restores:
  assumes "lexErr lx = None" "n \<le> length (lexRest lx)"
  shows "\<exists>lx'. andThen (lz.advs n) (\<lambda>_. lz.backs n) lx = (Inr (), lx') \<and> Token lx' = Token lx
    \<and> prevTokens lx' = prevTokens lx \<and> lexRest lx' = lexRest lx \<and> lexErr lx' = None"
  using lz.advs_backs [of lx n] assms by (auto simp: lexOk_def)

definition sampleLexer :: lexer where
  "sampleLexer = \<lparr>Token = ''a'', prevTokens = [[]], nextTokens = [''{'', ''+''], sOrig = ''a + {'', sTail = [], lexErr = None\<rparr>"

theorem lookahead_restores_witness:
  "\<exists>lx'. andThen (lz.advs 2) (\<lambda>_. lz.backs 2) sampleLexer = (Inr (), lx') \<and> Token lx' = ''a''
    \<and> lexRest lx' = [''+'', ''{'']"
proof -
  have "lexErr sampleLexer = None" "Token sampleLexer = ''a''" by (simp_all add: sampleLexer_def)
  moreover have "lexRest sampleLexer = [''+'', ''{'']"
    by (simp add: sampleLexer_def lexRest_def lexAll.simps [of "[]"] next_token.simps [of "[]"]
        skipWhile.simps [of _ "[]"] isEOF_def)
  ultimately show ?thesis using lookahead_restores [of sampleLexer 2] by auto
qed

text \<open>C34: the operator at the head of the input is the longest one, whatever the order in which
  Go's map is visited.\<close>

theorem scanBinaryOpPrefix_order:
  assumes "set order = set binaryOps"
  shows "scanBinaryOpPrefix_over order s = longestOp s \<and> scanBinaryOpPrefix_over order s = scanBinaryOpPrefix s"
  using scanBinaryOpPrefix_over_eq assms by (auto simp: scanBinaryOpPrefix_def)

theorem scanBinaryOpPrefix_order_witness:
  "scanBinaryOpPrefix_over (rev binaryOps) ''ifnot b'' = scanBinaryOpPrefix ''ifnot b'' \<and> scanBinaryOpPrefix ''ifnot b'' = 5"
proof -
  have "set (rev binaryOps) = set binaryOps" by simp
  from scanBinaryOpPrefix_order [OF this, of "''ifnot b''"]
  have "scanBinaryOpPrefix_over (rev binaryOps) ''ifnot b'' = scanBinaryOpPrefix ''ifnot b''" by (rule conjunct2)
  moreover have "scanBinaryOpPrefix ''ifnot b'' = 5" by code_simp
  ultimately show ?thesis by (rule conjI)
qed

text \<open>C35: \<open>unescapeIdent\<close> inverts \<open>appendEscapedIdent\<close> on every byte string.\<close>

theorem unescape_append: "unescapeIdent (drop (length dst) (appendEscapedIdent dst s)) = s"
  by (simp add: appendEscapedIdent_eq unescapeIdent_eq_unesc unesc_esc)

text \<open>An escaped name is scanned back as one identifier token, provided it has no two dots in a row.\<close>

lemma scanIdent_append:
  assumes "s \<noteq> []" "noDotDot s" "identStop r"
  shows "scanIdent (appendEscapedIdent [] s @ r) = Inr (appendEscapedIdent [] s)"
  using scanIdent_esc [OF assms] by (simp add: appendEscapedIdent_eq)

text \<open>C37: the durations that \<open>scanDuration\<close> finds at the head of the input: digits, an optional
  fraction, whose digits may be missing, and a unit. With a sign allowed a minus may come first, and then
  the digits may be missing too, so that \<open>-s\<close> is taken.\<close>

theorem scanDuration_exact:
  "scanDuration s canBeNegative = int n \<longleftrightarrow> n \<le> length s \<and> isDurationText canBeNegative (take n s)"
  by (rule scanDuration_text)

text \<open>C38: a number token is a decimal literal, and the digits after it are all taken.\<close>

theorem scanPositiveNumber_literal:
  assumes "scanPositiveNumber s = Inr t" "isPositiveNumberPrefix s"
  shows "isNumberLit t \<and> (\<exists>r. s = t @ r \<and> stopsDigits r)"
  using assms by (rule scanPositiveNumber_sound)

theorem scanPositiveNumber_literal_witness: "isNumberLit ''1.5e-3'' \<and> (\<exists>r. ''1.5e-3m'' = ''1.5e-3'' @ r \<and> stopsDigits r)"
proof -
  have "scanPositiveNumber ''1.5e-3m'' = Inr ''1.5e-3''" "isPositiveNumberPrefix ''1.5e-3m''" by code_simp+
  then show ?thesis by (rule scanPositiveNumber_literal)
qed

text \<open>C36: \<open>scanString\<close>, which counts the backslashes before each closing quote, finds the same end
  as a forward scanner with an escape flag.\<close>

theorem scanString_forward:
  assumes "s = q # r" "q \<noteq> bslash"
  shows "scanString s = Inr t \<longleftrightarrow> (\<exists>k. strEnd q False r = Some k \<and> t = take (k + 2) s)"
  using assms by (rule scanString_strEnd)

theorem scanString_forward_witness:
  "scanString [dquote, CHR ''a'', bslash, dquote, dquote, CHR ''b''] = Inr [dquote, CHR ''a'', bslash, dquote, dquote]"
  using scanString_forward [of "[dquote, CHR ''a'', bslash, dquote, dquote, CHR ''b'']" dquote
      "[CHR ''a'', bslash, dquote, dquote, CHR ''b'']" "[dquote, CHR ''a'', bslash, dquote, dquote]"]
  by simp

text \<open>
  Two places where the scanner does not do what it means to: an empty fraction in a duration, and a
  comma before the closing brace of a value list, which is refused at the end of the whole input only.
\<close>

lemma scanDuration_empty_fraction: "scanDuration ''5.s'' False = 3"
  by code_simp

lemma scanValueList_trailing_comma: "scanValueList ''{b,}'' = -1 \<and> scanValueList ''{b,})'' = 4"
  by code_simp

text \<open>A name with two dots in a row is printed so that the scanner does not read it back as one token.\<close>

lemma two_dots_not_scanned: "appendEscapedIdent [] ''a..b'' = ''a..b'' \<and> scanIdent ''a..b'' = Inr ''a''"
  by code_simp

end
