(* ===== verification/Utf8.thy ===== *)
theory Utf8
  imports Prelude
begin

text \<open>
  Go's reading of a byte string as runes: \<open>utf8.DecodeRuneInString\<close> (an invalid byte reads as
  U+FFFD of width 1), \<open>utf8.EncodeRune\<close> and the \<open>range\<close> loop over a string.
\<close>

abbreviation runeError :: nat where "runeError \<equiv> 0xFFFD"

definition isCont :: "nat \<Rightarrow> nat \<Rightarrow> nat \<Rightarrow> bool" where
  "isCont lo b hi \<longleftrightarrow> lo \<le> b \<and> b \<le> hi"

text \<open>The rune at the head and its width; \<open>bs\<close> are the byte values.\<close>

fun decodeBytes :: "nat list \<Rightarrow> nat \<times> nat" where
  "decodeBytes [] = (runeError, 0)"
| "decodeBytes (b0 # bs) =
     (if b0 < 0x80 then (b0, 1)
      else if b0 < 0xC2 \<or> 0xF4 < b0 then (runeError, 1)
      else case bs of
        [] \<Rightarrow> (runeError, 1)
      | b1 # bs1 \<Rightarrow>
          if \<not> isCont (if b0 = 0xE0 then 0xA0 else if b0 = 0xF0 then 0x90 else 0x80) b1
                 (if b0 = 0xED then 0x9F else if b0 = 0xF4 then 0x8F else 0xBF) then (runeError, 1)
          else if b0 < 0xE0 then ((b0 mod 32) * 64 + b1 mod 64, 2)
          else case bs1 of
            [] \<Rightarrow> (runeError, 1)
          | b2 # bs2 \<Rightarrow>
              if \<not> isCont 0x80 b2 0xBF then (runeError, 1)
              else if b0 < 0xF0 then ((b0 mod 16) * 4096 + (b1 mod 64) * 64 + b2 mod 64, 3)
              else case bs2 of
                [] \<Rightarrow> (runeError, 1)
              | b3 # bs3 \<Rightarrow>
                  if \<not> isCont 0x80 b3 0xBF then (runeError, 1)
                  else ((b0 mod 8) * 262144 + (b1 mod 64) * 4096 + (b2 mod 64) * 64 + b3 mod 64, 4))"

definition decodeRune :: "string \<Rightarrow> nat \<times> nat" where
  "decodeRune s = decodeBytes (map of_char (take 4 s))"

definition encodeRune :: "nat \<Rightarrow> string" where
  "encodeRune r =
     (if r < 0x80 then [char_of r]
      else if r < 0x800 then [char_of (0xC0 + r div 64), char_of (0x80 + r mod 64)]
      else if r > 0x10FFFF \<or> (0xD800 \<le> r \<and> r \<le> 0xDFFF) then [CHR 0xEF, CHR 0xBF, CHR 0xBD]
      else if r < 0x10000 then
        [char_of (0xE0 + r div 4096), char_of (0x80 + (r div 64) mod 64), char_of (0x80 + r mod 64)]
      else [char_of (0xF0 + r div 262144), char_of (0x80 + (r div 4096) mod 64),
            char_of (0x80 + (r div 64) mod 64), char_of (0x80 + r mod 64)])"

lemma decodeBytes_width: "bs \<noteq> [] \<Longrightarrow> 0 < snd (decodeBytes bs) \<and> snd (decodeBytes bs) \<le> length bs"
  by (cases bs) (auto split: list.splits)

lemma decodeRune_width: "s \<noteq> [] \<Longrightarrow> 0 < snd (decodeRune s) \<and> snd (decodeRune s) \<le> length s"
  using decodeBytes_width [of "map of_char (take 4 s)"] by (auto simp: decodeRune_def)

text \<open>The pairs \<open>i, r\<close> of \<open>for i, r := range s\<close>.\<close>

function rangeRunes_from :: "nat \<Rightarrow> string \<Rightarrow> (nat \<times> nat) list" where
  "rangeRunes_from i s =
     (if s = [] then []
      else let (r, w) = decodeRune s in (i, r) # rangeRunes_from (i + w) (drop w s))"
  by pat_completeness auto
termination
proof (relation "measure (\<lambda>(i, s). length s)")
  fix i s x r w
  assume "s \<noteq> []" "x = decodeRune s" "(r, w) = x"
  then show "((i + w, drop w s), i, s) \<in> measure (\<lambda>(i, s). length s)"
    using decodeRune_width [of s] by (cases "decodeRune s") auto
qed auto

declare rangeRunes_from.simps [simp del]

definition rangeRunes :: "string \<Rightarrow> (nat \<times> nat) list" where
  "rangeRunes s = rangeRunes_from 0 s"

definition isAscii :: "string \<Rightarrow> bool" where
  "isAscii s \<longleftrightarrow> (\<forall>c \<in> set s. byte c < 0x80)"

lemma decodeRune_ascii: "byte c < 0x80 \<Longrightarrow> decodeRune (c # s) = (byte c, 1)"
  by (simp add: decodeRune_def)

lemma rangeRunes_from_ascii_append:
  "isAscii s \<Longrightarrow> rangeRunes_from i (s @ t) =
     zip [i..<i + length s] (map of_char s) @ rangeRunes_from (i + length s) t"
proof (induction s arbitrary: i)
  case (Cons c s)
  then have "rangeRunes_from i ((c # s) @ t) = (i, byte c) # rangeRunes_from (Suc i) (s @ t)"
    by (subst rangeRunes_from.simps) (simp add: isAscii_def decodeRune_ascii)
  moreover have "isAscii s" using Cons.prems by (simp add: isAscii_def)
  moreover have "[i..<i + length (c # s)] = i # [Suc i..<Suc i + length s]"
    using upt_conv_Cons [of i "i + length (c # s)"] by simp
  ultimately show ?case using Cons.IH [of "Suc i"] by (simp del: upt_Suc)
qed simp

lemma rangeRunes_from_Nil [simp]: "rangeRunes_from i [] = []"
  by (simp add: rangeRunes_from.simps)

lemma rangeRunes_ascii: "isAscii s \<Longrightarrow> rangeRunes s = zip [0..<length s] (map of_char s)"
  using rangeRunes_from_ascii_append [of s 0 "[]"] by (simp add: rangeRunes_def)

section \<open>Decoding and encoding are inverse\<close>

definition encodeBytes :: "nat \<Rightarrow> nat list" where
  "encodeBytes r =
     (if r < 0x80 then [r]
      else if r < 0x800 then [0xC0 + r div 64, 0x80 + r mod 64]
      else if r > 0x10FFFF \<or> (0xD800 \<le> r \<and> r \<le> 0xDFFF) then [0xEF, 0xBF, 0xBD]
      else if r < 0x10000 then [0xE0 + r div 4096, 0x80 + (r div 64) mod 64, 0x80 + r mod 64]
      else [0xF0 + r div 262144, 0x80 + (r div 4096) mod 64, 0x80 + (r div 64) mod 64, 0x80 + r mod 64])"

lemma encodeRune_bytes: "encodeRune r = map char_of (encodeBytes r)"
proof -
  have "[CHR 0xEF, CHR 0xBF, CHR 0xBD] = map char_of [0xEF :: nat, 0xBF, 0xBD]" by code_simp
  then show ?thesis by (auto simp: encodeRune_def encodeBytes_def)
qed

lemma mod_offset:
  assumes "k * m \<le> b" "b < k * m + m"
  shows "b mod m + k * m = (b::nat)"
proof -
  have "b = (b - k * m) + m * k" using assms by simp
  then have "b mod m = (b - k * m) mod m" by (metis mod_mult_self2)
  moreover have "b - k * m < m" using assms by linarith
  ultimately show ?thesis using assms by simp
qed

lemma lead2: "0xC2 \<le> b \<Longrightarrow> b < 0xE0 \<Longrightarrow> b mod 32 + 192 = (b::nat)"
  using mod_offset [of 6 32 b] by simp

lemma lead3: "0xE0 \<le> b \<Longrightarrow> b < 0xF0 \<Longrightarrow> b mod 16 + 224 = (b::nat)"
  using mod_offset [of 14 16 b] by simp

lemma lead4: "0xF0 \<le> b \<Longrightarrow> b \<le> 0xF4 \<Longrightarrow> b mod 8 + 240 = (b::nat)"
  using mod_offset [of 30 8 b] by simp

lemma cont: "0x80 \<le> b \<Longrightarrow> b \<le> 0xBF \<Longrightarrow> b mod 64 + 128 = (b::nat)"
  using mod_offset [of 2 64 b] by simp

lemma encode2:
  assumes "x < 32" "2 \<le> x" "y < (64::nat)"
  shows "encodeBytes (x * 64 + y) = [192 + x, 128 + y]"
  using assms by (auto simp: encodeBytes_def)

lemma radix:
  assumes "z < (b::nat)"
  shows "(q * b + z) div b = q" "(q * b + z) mod b = z"
  using assms by simp_all

lemma encode3:
  assumes "x < 16" "x = 0 \<longrightarrow> 32 \<le> y" "x = 13 \<longrightarrow> y < 32" "y < 64" "z < (64::nat)"
  shows "encodeBytes (x * 4096 + y * 64 + z) = [224 + x, 128 + y, 128 + z]"
proof -
  let ?r = "x * 4096 + y * 64 + z"
  have r: "?r = (x * 64 + y) * 64 + z" "?r = x * 4096 + (y * 64 + z)" by simp_all
  have "?r div 64 = x * 64 + y" "?r mod 64 = z" unfolding r(1) using radix assms(5) by blast+
  moreover have "?r div 4096 = x" unfolding r(2) using assms by (intro radix) linarith
  moreover have "(x * 64 + y) mod 64 = y" using assms by simp
  moreover have "\<not> ?r < 0x800" using assms(2) by (cases "x = 0") simp_all
  moreover have "?r < 0x10000" using assms by linarith
  moreover have "\<not> (0xD800 \<le> ?r \<and> ?r \<le> 0xDFFF)"
  proof
    assume *: "0xD800 \<le> ?r \<and> ?r \<le> 0xDFFF"
    then have "x = 13" using assms(4,5) by linarith
    with * assms(3,5) show False by auto
  qed
  ultimately show ?thesis by (simp add: encodeBytes_def)
qed

lemma encode4:
  assumes "x \<le> 4" "x = 0 \<longrightarrow> 16 \<le> y" "x = 4 \<longrightarrow> y < 16" "y < 64" "z < 64" "w < (64::nat)"
  shows "encodeBytes (x * 262144 + y * 4096 + z * 64 + w) = [240 + x, 128 + y, 128 + z, 128 + w]"
proof -
  let ?r = "x * 262144 + y * 4096 + z * 64 + w"
  have r: "?r = (x * 4096 + y * 64 + z) * 64 + w" "?r = (x * 64 + y) * 4096 + (z * 64 + w)"
    "?r = x * 262144 + (y * 4096 + z * 64 + w)" "x * 4096 + y * 64 + z = (x * 64 + y) * 64 + z" by simp_all
  have "?r div 64 = x * 4096 + y * 64 + z" "?r mod 64 = w" unfolding r(1) using radix assms(6) by blast+
  moreover have "?r div 4096 = x * 64 + y" unfolding r(2) using assms by (intro radix) linarith
  moreover have "?r div 262144 = x" unfolding r(3) using assms by (intro radix) linarith
  moreover have "(x * 64 + y) mod 64 = y" using assms by simp
  moreover have "(x * 4096 + y * 64 + z) mod 64 = z" unfolding r(4) using radix assms(5) by blast
  moreover have "\<not> ?r < 0x10000" using assms(2) by (cases "x = 0") simp_all
  moreover have "?r \<le> 0x10FFFF" using assms(1,3,4,5,6) by (cases "x = 4") simp_all
  ultimately show ?thesis by (simp add: encodeBytes_def)
qed

text \<open>A multi-byte rune is the encoding of what it decodes to, whatever follows it.\<close>

lemma decodeBytes_encode:
  assumes "decodeBytes bs = (r, w)" "2 \<le> w"
  shows "encodeBytes r = take w bs \<and> 0x80 \<le> r \<and> r \<le> 0x10FFFF"
proof -
  obtain b0 b1 bs1 where bs: "bs = b0 # b1 # bs1"
    using assms by (cases bs; cases "tl bs") (auto split: if_splits)
  have b0: "0xC2 \<le> b0" "b0 \<le> 0xF4" and c1: "(if b0 = 0xE0 then 0xA0 else if b0 = 0xF0 then 0x90 else 0x80) \<le> b1"
    "b1 \<le> (if b0 = 0xED then 0x9F else if b0 = 0xF4 then 0x8F else 0xBF)"
    using assms by (auto simp: bs isCont_def split: if_splits)
  have b1: "b1 mod 64 + 128 = b1" using c1 by (intro cont) (auto split: if_splits)
  consider "b0 < 0xE0" | "0xE0 \<le> b0" "b0 < 0xF0" | "0xF0 \<le> b0" by linarith
  then show ?thesis
  proof cases
    case 1
    then have r: "r = (b0 mod 32) * 64 + b1 mod 64" "w = 2"
      using assms b0 c1 by (auto simp: bs isCont_def split: if_splits)
    from lead2 [of b0] 1 b0 have x: "b0 mod 32 + 192 = b0" by simp
    with b0 have "2 \<le> b0 mod 32" by linarith
    with encode2 [of "b0 mod 32" "b1 mod 64"] x b1 r show ?thesis by (simp add: bs)
  next
    case 2
    from 2 assms b0 c1 obtain b2 bs2 where
      b2: "bs1 = b2 # bs2" "0x80 \<le> b2" "b2 \<le> 0xBF"
        "r = (b0 mod 16) * 4096 + (b1 mod 64) * 64 + b2 mod 64" "w = 3"
      by (cases bs1) (auto simp: bs isCont_def split: if_splits)
    from lead3 [of b0] 2 have x: "b0 mod 16 + 224 = b0" by simp
    from cont b2 have z: "b2 mod 64 + 128 = b2" by simp
    have "b0 mod 16 = 0 \<longrightarrow> 32 \<le> b1 mod 64" "b0 mod 16 = 13 \<longrightarrow> b1 mod 64 < 32"
      using x b1 c1 by (auto split: if_splits)
    with encode3 [of "b0 mod 16" "b1 mod 64" "b2 mod 64"] x b1 z b2
    have "encodeBytes r = take w bs" by (simp add: bs)
    moreover have "0x80 \<le> r" using \<open>b0 mod 16 = 0 \<longrightarrow> 32 \<le> b1 mod 64\<close>
      by (cases "b0 mod 16 = 0") (simp_all add: b2)
    moreover have "r \<le> 0x10FFFF"
      using mod_less_divisor [of 16 b0] mod_less_divisor [of 64 b1] mod_less_divisor [of 64 b2] b2(4)
      by linarith
    ultimately show ?thesis by simp
  next
    case 3
    from 3 assms b0 c1 obtain b2 b3 bs3 where
      b2: "bs1 = b2 # b3 # bs3" "0x80 \<le> b2" "b2 \<le> 0xBF" "0x80 \<le> b3" "b3 \<le> 0xBF"
        "r = (b0 mod 8) * 262144 + (b1 mod 64) * 4096 + (b2 mod 64) * 64 + b3 mod 64" "w = 4"
      by (cases bs1; cases "tl bs1") (auto simp: bs isCont_def split: if_splits)
    from lead4 [of b0] 3 b0 have x: "b0 mod 8 + 240 = b0" by simp
    from cont b2 have z: "b2 mod 64 + 128 = b2" "b3 mod 64 + 128 = b3" by simp_all
    have c: "b0 mod 8 = 0 \<longrightarrow> 16 \<le> b1 mod 64" "b0 mod 8 = 4 \<longrightarrow> b1 mod 64 < 16" "b0 mod 8 \<le> 4"
      using x b1 c1 b0 by (auto split: if_splits)
    with encode4 [of "b0 mod 8" "b1 mod 64" "b2 mod 64" "b3 mod 64"] x b1 z b2
    have "encodeBytes r = take w bs" by (simp add: bs)
    moreover have "0x80 \<le> r" using c(1) by (cases "b0 mod 8 = 0") (simp_all add: b2)
    moreover have "r \<le> 0x10FFFF"
    proof (cases "b0 mod 8 = 4")
      case True
      with c(2) show ?thesis
        using mod_less_divisor [of 64 b2] mod_less_divisor [of 64 b3] unfolding b2(6) by linarith
    next
      case False
      with c(3) have "b0 mod 8 \<le> 3" by linarith
      then show ?thesis
        using mod_less_divisor [of 64 b1] mod_less_divisor [of 64 b2] mod_less_divisor [of 64 b3]
        unfolding b2(6) by linarith
    qed
    ultimately show ?thesis by simp
  qed
qed

lemma decodeBytes_prefix:
  assumes "decodeBytes bs = (r, w)" "2 \<le> w"
  shows "decodeBytes (take w bs @ t) = (r, w)"
proof -
  obtain b0 b1 bs1 where bs: "bs = b0 # b1 # bs1"
    using assms by (cases bs; cases "tl bs") (auto split: if_splits)
  show ?thesis
    using assms unfolding bs
    by (cases bs1; cases "tl bs1") (auto split: if_splits)
qed

lemma decodeBytes_single:
  assumes "decodeBytes (b # bs) = (r, w)" "\<not> 2 \<le> w"
  shows "w = 1 \<and> (r = b \<and> b < 0x80 \<or> r = runeError \<and> 0x80 \<le> b)"
  using assms by (auto split: if_splits list.splits)

lemma decodeRune_single:
  assumes "decodeRune (c # s) = (r, w)" "\<not> 2 \<le> w"
  shows "w = 1 \<and> (r = byte c \<and> byte c < 0x80 \<or> r = runeError \<and> 0x80 \<le> byte c)"
  using assms decodeBytes_single [of "byte c" "map of_char (take 3 s)" r w] by (simp add: decodeRune_def)

lemma decodeRune_multi:
  assumes "decodeRune s = (r, w)" "2 \<le> w"
  shows "encodeRune r = take w s" "0x80 \<le> r" "r \<le> 0x10FFFF" "decodeRune (take w s @ t) = (r, w)"
proof -
  have d: "decodeBytes (map of_char (take 4 s)) = (r, w)" using assms(1) by (simp add: decodeRune_def)
  have w: "w \<le> length (take 4 s)" using decodeBytes_width [of "map of_char (take 4 s)"] d assms(2) by force
  then have tk: "take w (take 4 s) = take w s" by simp
  from decodeBytes_encode [OF d assms(2)] have
    e: "encodeBytes r = map of_char (take w s)" "0x80 \<le> r" "r \<le> 0x10FFFF"
    using tk by (simp_all add: take_map)
  then show "encodeRune r = take w s" "0x80 \<le> r" "r \<le> 0x10FFFF"
    by (simp_all add: encodeRune_bytes comp_def)
  have "take 4 (take w s @ t) = take w s @ take (4 - w) t" using w by simp
  then show "decodeRune (take w s @ t) = (r, w)"
    using decodeBytes_prefix [OF d assms(2), of "map of_char (take (4 - w) t)"] tk
    by (simp add: decodeRune_def take_map)
qed

lemma encodeBytes_high: "0x80 \<le> r \<Longrightarrow> b \<in> set (encodeBytes r) \<Longrightarrow> 0x80 \<le> b \<and> b < 256"
  by (auto simp: encodeBytes_def div_less_iff_less_mult split: if_splits)

lemma encodeRune_high: "0x80 \<le> r \<Longrightarrow> c \<in> set (encodeRune r) \<Longrightarrow> 0x80 \<le> byte c"
  using encodeBytes_high by (auto simp: encodeRune_bytes)

section \<open>The runes of a string\<close>

definition runesOf :: "string \<Rightarrow> nat list" where
  "runesOf s = map snd (rangeRunes s)"

lemma rangeRunes_from_Cons:
  "decodeRune (c # s) = (r, w) \<Longrightarrow> rangeRunes_from i (c # s) = (i, r) # rangeRunes_from (i + w) (drop w (c # s))"
  by (simp add: rangeRunes_from.simps [of i "c # s"])

lemma ascii_runes_from:
  "map snd (rangeRunes_from i v) = map of_char s \<Longrightarrow> isAscii s \<Longrightarrow> v = s"
proof (induction s arbitrary: i v)
  case Nil
  then show ?case by (cases v; cases "decodeRune v") (auto simp: rangeRunes_from_Cons)
next
  case (Cons a s)
  obtain c x where v: "v = c # x" using Cons.prems(1) by (cases v) auto
  obtain r w where d: "decodeRune (c # x) = (r, w)" by fastforce
  have r: "r = byte a" "map snd (rangeRunes_from (i + w) (drop w (c # x))) = map of_char s"
    using Cons.prems(1) by (simp_all add: v rangeRunes_from_Cons [OF d])
  have a: "r < 0x80" "isAscii s" using Cons.prems(2) r(1) by (simp_all add: isAscii_def)
  then have "\<not> 2 \<le> w" using decodeRune_multi(2) [OF d] by auto
  with decodeRune_single [OF d] a(1) have w: "w = 1" "r = byte c" by auto
  from r(2) have "map snd (rangeRunes_from (i + 1) x) = map of_char s" by (simp add: w(1))
  then have "x = s" using Cons.IH a(2) by blast
  with v r(1) w(2) show ?case by simp
qed

lemma runesOf_ascii: "isAscii s \<Longrightarrow> runesOf s = map of_char s"
  by (simp add: runesOf_def rangeRunes_ascii)

text \<open>Only the text itself has the runes of an ASCII text.\<close>

lemma runesOf_ascii_iff: "isAscii s \<Longrightarrow> runesOf v = map of_char s \<longleftrightarrow> v = s"
  using ascii_runes_from [of 0 v s] runesOf_ascii by (auto simp: runesOf_def rangeRunes_def)

end
