(* ===== verification/Float64.thy ===== *)
theory Float64
  imports Prelude
begin

text \<open>
  Go's \<open>float64\<close>: IEEE 754 binary64 with exact rational arithmetic followed by rounding to the
  nearest, ties to even, and the part of \<open>strconv\<close> that reads and prints it
  (\<open>ParseFloat\<close> on the decimal grammar, \<open>AppendFloat\<close> with format \<open>'g'\<close> and precision -1).
\<close>

section \<open>Values\<close>

text \<open>
  \<open>FFin s m e\<close> is \<open>(-1)^s * m * 2^e\<close>; in a canonical value \<open>0 \<le> m < 2^53\<close>, \<open>-1074 \<le> e \<le> 971\<close>, and
  \<open>2^52 \<le> m\<close> unless \<open>e = -1074\<close>.
\<close>

datatype float64 = FNaN | FInf bool | FFin bool int int

definition canonical :: "float64 \<Rightarrow> bool" where
  "canonical x \<longleftrightarrow> (case x of FFin s m e \<Rightarrow>
     0 \<le> m \<and> m < 2 ^ 53 \<and> -1074 \<le> e \<and> e \<le> 971 \<and> (2 ^ 52 \<le> m \<or> e = -1074) | _ \<Rightarrow> True)"

function bitLen :: "int \<Rightarrow> int" where
  "bitLen n = (if n \<le> 0 then 0 else 1 + bitLen (n div 2))"
  by auto
termination by (relation "measure nat") auto

declare bitLen.simps [simp del]

definition scaleUp :: "int \<Rightarrow> int \<Rightarrow> int" where
  "scaleUp n k = (if 0 \<le> k then n * 2 ^ nat k else n)"

text \<open>The nearest integer to \<open>n / d\<close>, ties to even.\<close>

definition roundDiv :: "int \<Rightarrow> int \<Rightarrow> int" where
  "roundDiv n d =
     (let q = n div d; r = n mod d in
      if 2 * r < d \<or> (2 * r = d \<and> even q) then q else q + 1)"

text \<open>The binary64 value nearest to \<open>(-1)^s * n / d\<close>.\<close>

definition roundQ :: "bool \<Rightarrow> int \<Rightarrow> int \<Rightarrow> float64" where
  "roundQ s n d =
     (if n = 0 then FFin s 0 (-1074)
      else
        let k = bitLen n - bitLen d;
            lg = (if scaleUp d k \<le> scaleUp n (- k) then k else k - 1);
            e = max (-1074) (lg - 52);
            m = roundDiv (scaleUp n (- e)) (scaleUp d e) in
        let (m, e) = (if m = 2 ^ 53 then (2 ^ 52, e + 1) else (m, e)) in
        if 971 < e then FInf s else FFin s m e)"

definition zero64 :: float64 where "zero64 = FFin False 0 (-1074)"
definition one64 :: float64 where "one64 = FFin False (2 ^ 52) (-52)"

section \<open>Arithmetic and comparison\<close>

definition isNaN :: "float64 \<Rightarrow> bool" where
  "isNaN x \<longleftrightarrow> x = FNaN"

text \<open>The signed mantissa of a finite value at an exponent not above its own.\<close>

definition mantAt :: "bool \<Rightarrow> int \<Rightarrow> int \<Rightarrow> int \<Rightarrow> int" where
  "mantAt s m e e0 = (if s then - 1 else 1) * (m * 2 ^ nat (e - e0))"

text \<open>\<open>v * 2^e\<close> rounded; a zero gets the sign \<open>z\<close>.\<close>

definition roundI :: "bool \<Rightarrow> int \<Rightarrow> int \<Rightarrow> float64" where
  "roundI z v e = (if v = 0 then FFin z 0 (-1074)
     else roundQ (v < 0) (scaleUp \<bar>v\<bar> e) (scaleUp 1 (- e)))"

fun negF :: "float64 \<Rightarrow> float64" where
  "negF FNaN = FNaN"
| "negF (FInf s) = FInf (\<not> s)"
| "negF (FFin s m e) = FFin (\<not> s) m e"

fun addF :: "float64 \<Rightarrow> float64 \<Rightarrow> float64" where
  "addF (FFin s m e) (FFin s' m' e') =
     (let e0 = min e e' in roundI (s \<and> s') (mantAt s m e e0 + mantAt s' m' e' e0) e0)"
| "addF (FInf s) (FInf s') = (if s = s' then FInf s else FNaN)"
| "addF (FInf s) (FFin _ _ _) = FInf s"
| "addF (FFin _ _ _) (FInf s) = FInf s"
| "addF FNaN _ = FNaN"
| "addF _ FNaN = FNaN"

definition subF :: "float64 \<Rightarrow> float64 \<Rightarrow> float64" where
  "subF x y = addF x (negF y)"

fun mulF :: "float64 \<Rightarrow> float64 \<Rightarrow> float64" where
  "mulF (FFin s m e) (FFin s' m' e') =
     roundQ (s \<noteq> s') (scaleUp (m * m') (e + e')) (scaleUp 1 (- (e + e')))"
| "mulF (FInf s) (FInf s') = FInf (s \<noteq> s')"
| "mulF (FInf s) (FFin s' m _) = (if m = 0 then FNaN else FInf (s \<noteq> s'))"
| "mulF (FFin s m _) (FInf s') = (if m = 0 then FNaN else FInf (s \<noteq> s'))"
| "mulF FNaN _ = FNaN"
| "mulF _ FNaN = FNaN"

fun divF :: "float64 \<Rightarrow> float64 \<Rightarrow> float64" where
  "divF (FFin s m e) (FFin s' m' e') =
     (if m' = 0 then (if m = 0 then FNaN else FInf (s \<noteq> s'))
      else roundQ (s \<noteq> s') (scaleUp m (e - e')) (scaleUp m' (e' - e)))"
| "divF (FInf s) (FInf s') = FNaN"
| "divF (FInf s) (FFin s' _ _) = FInf (s \<noteq> s')"
| "divF (FFin s _ _) (FInf s') = FFin (s \<noteq> s') 0 (-1074)"
| "divF FNaN _ = FNaN"
| "divF _ FNaN = FNaN"

text \<open>\<open>math.Mod\<close>: the exact remainder with the sign of the left operand.\<close>

fun modF :: "float64 \<Rightarrow> float64 \<Rightarrow> float64" where
  "modF (FFin s m e) (FFin s' m' e') =
     (if m' = 0 then FNaN
      else let e0 = min e e' in
        roundQ s (scaleUp ((m * 2 ^ nat (e - e0)) mod (m' * 2 ^ nat (e' - e0))) e0) (scaleUp 1 (- e0)))"
| "modF (FInf s) _ = FNaN"
| "modF (FFin s m e) (FInf s') = FFin s m e"
| "modF FNaN _ = FNaN"
| "modF _ FNaN = FNaN"

fun ltF :: "float64 \<Rightarrow> float64 \<Rightarrow> bool" where
  "ltF (FFin s m e) (FFin s' m' e') =
     (let e0 = min e e' in mantAt s m e e0 < mantAt s' m' e' e0)"
| "ltF (FInf s) (FInf s') = (s \<and> \<not> s')"
| "ltF (FInf s) (FFin _ _ _) = s"
| "ltF (FFin _ _ _) (FInf s) = (\<not> s)"
| "ltF FNaN _ = False"
| "ltF _ FNaN = False"

fun eqF :: "float64 \<Rightarrow> float64 \<Rightarrow> bool" where
  "eqF (FFin s m e) (FFin s' m' e') =
     (let e0 = min e e' in mantAt s m e e0 = mantAt s' m' e' e0)"
| "eqF (FInf s) (FInf s') = (s = s')"
| "eqF _ _ = False"

definition leF :: "float64 \<Rightarrow> float64 \<Rightarrow> bool" where
  "leF x y \<longleftrightarrow> ltF x y \<or> eqF x y"

lemma mantAt_compare:
  assumes "e0 \<le> e1" "e1 \<le> e" "e1 \<le> e'"
  shows "mantAt s m e e0 < mantAt s' m' e' e0 \<longleftrightarrow> mantAt s m e e1 < mantAt s' m' e' e1"
    and "mantAt s m e e0 = mantAt s' m' e' e0 \<longleftrightarrow> mantAt s m e e1 = mantAt s' m' e' e1"
proof -
  have "mantAt s m e e0 = 2 ^ nat (e1 - e0) * mantAt s m e e1"
    using assms by (auto simp: mantAt_def simp flip: power_add nat_add_distrib)
  moreover have "mantAt s' m' e' e0 = 2 ^ nat (e1 - e0) * mantAt s' m' e' e1"
    using assms by (auto simp: mantAt_def simp flip: power_add nat_add_distrib)
  ultimately show "mantAt s m e e0 < mantAt s' m' e' e0 \<longleftrightarrow> mantAt s m e e1 < mantAt s' m' e' e1"
    "mantAt s m e e0 = mantAt s' m' e' e0 \<longleftrightarrow> mantAt s m e e1 = mantAt s' m' e' e1" by simp_all
qed

lemma eqF_refl: "x \<noteq> FNaN \<Longrightarrow> eqF x x"
  by (cases x) simp_all

lemma eqF_sym: "eqF x y \<longleftrightarrow> eqF y x"
  by (cases x; cases y) (auto simp: min.commute Let_def)

lemma ltF_not_eqF: "ltF x y \<Longrightarrow> \<not> eqF x y"
  by (cases x; cases y) (auto simp: Let_def)

lemma ltF_asym: "ltF x y \<Longrightarrow> \<not> ltF y x"
  by (cases x; cases y) (auto simp: Let_def min.commute)

lemma ltF_linear: "x \<noteq> FNaN \<Longrightarrow> y \<noteq> FNaN \<Longrightarrow> ltF x y \<or> eqF x y \<or> ltF y x"
  by (cases x; cases y) (auto simp: Let_def min.commute)

end
