(* ===== verification/Strconv.thy ===== *)
theory Strconv
  imports Lexer Utf8 Float64
begin

text \<open>
  The part of Go's \<open>strconv\<close> that the sources call: \<open>Quote\<close>/\<open>AppendQuote\<close>, \<open>Unquote\<close>,
  \<open>Atoi\<close>, \<open>ParseFloat\<close> and \<open>AppendFloat(.., 'g', -1, 64)\<close>. Every byte string survives quoting
  (\<open>Unquote_Quote\<close>). The record \<open>golib\<close> holds what the model takes from outside: the Unicode
  tables behind \<open>unicode.IsPrint\<close>, \<open>math.Pow\<close> and the \<open>regexp\<close> package.
\<close>

record golib =
  isPrintU :: "nat \<Rightarrow> bool"
  mathPow :: "float64 \<Rightarrow> float64 \<Rightarrow> float64"
  regexpCompile :: "string \<Rightarrow> failure option"

section \<open>Quoting\<close>

text \<open>\<open>strconv.IsPrint\<close>: ASCII and Latin-1 by ranges, the rest by table.\<close>

definition IsPrint :: "golib \<Rightarrow> nat \<Rightarrow> bool" where
  "IsPrint L r \<longleftrightarrow>
     (if r \<le> 0xFF then (0x20 \<le> r \<and> r < 0x7F) \<or> (0xA1 \<le> r \<and> r \<noteq> 0xAD) else isPrintU L r)"

fun hexDigits :: "nat \<Rightarrow> nat \<Rightarrow> string" where
  "hexDigits 0 r = []"
| "hexDigits (Suc k) r = hexDigits k (r div 16) @ [toHex (r mod 16)]"

definition appendEscapedRune :: "golib \<Rightarrow> nat \<Rightarrow> string" where
  "appendEscapedRune L r =
     (if r = byte dquote \<or> r = byte bslash then [bslash, char_of r]
      else if IsPrint L r then encodeRune r
      else if r = 7 then [bslash, CHR ''a'']
      else if r = 8 then [bslash, CHR ''b'']
      else if r = 12 then [bslash, CHR ''f'']
      else if r = 10 then [bslash, CHR ''n'']
      else if r = 13 then [bslash, CHR ''r'']
      else if r = 9 then [bslash, CHR ''t'']
      else if r = 11 then [bslash, CHR ''v'']
      else if r < 32 then bslash # CHR ''x'' # hexDigits 2 r
      else if r < 0x10000 then bslash # CHR ''u'' # hexDigits 4 r
      else bslash # CHR ''U'' # hexDigits 8 r)"

function quoteBody :: "golib \<Rightarrow> string \<Rightarrow> string" where
  "quoteBody L s =
     (if s = [] then []
      else let (r, w) = decodeRune s in
        (if w = 1 \<and> r = runeError then bslash # CHR ''x'' # hexDigits 2 (byte (s ! 0))
         else appendEscapedRune L r) @ quoteBody L (drop w s))"
  by pat_completeness auto
termination
proof (relation "measure (\<lambda>(L, s). length s)")
  fix L :: golib and s x r w
  assume "s \<noteq> []" "x = decodeRune s" "(r, w) = x"
  then show "((L, drop w s), L, s) \<in> measure (\<lambda>(L, s). length s)"
    using decodeRune_width [of s] by (cases "decodeRune s") auto
qed auto

declare quoteBody.simps [simp del]

definition Quote :: "golib \<Rightarrow> string \<Rightarrow> string" where
  "Quote L s = [dquote] @ quoteBody L s @ [dquote]"

section \<open>Unquoting\<close>

definition ErrSyntax :: failure where
  "ErrSyntax = Errorf ''invalid syntax'' []"

fun hexVal :: "nat \<Rightarrow> string \<Rightarrow> nat option" where
  "hexVal v [] = Some v"
| "hexVal v (c # cs) = (if fromHex c < 0 then None else hexVal (v * 16 + nat (fromHex c)) cs)"

definition isOct :: "char \<Rightarrow> bool" where
  "isOct c \<longleftrightarrow> between CHR ''0'' c CHR ''7''"

text \<open>
  \<open>UnquoteChar\<close>: the value of the first character or escape, whether it is to be encoded as a
  rune, and the tail.
\<close>

definition UnquoteChar :: "string \<Rightarrow> char \<Rightarrow> (nat \<times> bool \<times> string) option" where
  "UnquoteChar s quote =
     (if s = [] then None
      else let c = s ! 0 in
      if c = quote \<and> (quote = squote \<or> quote = dquote) then None
      else if 0x80 \<le> byte c then (let (r, w) = decodeRune s in Some (r, True, drop w s))
      else if c \<noteq> bslash then Some (byte c, False, drop 1 s)
      else if length s \<le> 1 then None
      else let c = s ! 1; s = drop 2 s in
      if c = CHR ''a'' then Some (7, False, s)
      else if c = CHR ''b'' then Some (8, False, s)
      else if c = CHR ''f'' then Some (12, False, s)
      else if c = CHR ''n'' then Some (10, False, s)
      else if c = CHR ''r'' then Some (13, False, s)
      else if c = CHR ''t'' then Some (9, False, s)
      else if c = CHR ''v'' then Some (11, False, s)
      else if c = CHR ''x'' \<or> c = CHR ''u'' \<or> c = CHR ''U'' then
        (let n = (if c = CHR ''x'' then 2 else if c = CHR ''u'' then 4 else 8) in
         if length s < n then None
         else case hexVal 0 (take n s) of
           None \<Rightarrow> None
         | Some v \<Rightarrow>
             if c = CHR ''x'' then Some (v, False, drop n s)
             else if v > 0x10FFFF then None
             else Some (v, True, drop n s))
      else if isOct c then
        (if length s < 2 \<or> \<not> isOct (s ! 0) \<or> \<not> isOct (s ! 1) then None
         else let v = (byte c - 48) * 64 + (byte (s ! 0) - 48) * 8 + (byte (s ! 1) - 48) in
           if v > 255 then None else Some (v, False, drop 2 s))
      else if c = bslash then Some (byte bslash, False, s)
      else if c = squote \<or> c = dquote then (if c \<noteq> quote then None else Some (byte c, False, s))
      else None)"

lemma UnquoteChar_shorter: "UnquoteChar s q = Some (r, mb, t) \<Longrightarrow> length t < length s"
  using decodeRune_width [of s]
  by (auto simp: UnquoteChar_def Let_def split: if_splits prod.splits option.splits)

function unquoteBody :: "char \<Rightarrow> string \<Rightarrow> string option" where
  "unquoteBody q s =
     (if s = [] then Some []
      else case UnquoteChar s q of
        None \<Rightarrow> None
      | Some (r, mb, t) \<Rightarrow>
          if q = squote \<and> t \<noteq> [] then None
          else case unquoteBody q t of
            None \<Rightarrow> None
          | Some u \<Rightarrow> Some ((if r < 0x80 \<or> \<not> mb then [char_of r] else encodeRune r) @ u))"
  by pat_completeness auto
termination
  by (relation "measure (\<lambda>(q, s). length s)") (auto simp: UnquoteChar_shorter)

declare unquoteBody.simps [simp del]

definition Unquote :: "string \<Rightarrow> string result" where
  "Unquote s =
     (let n = length s in
      if n < 2 \<or> s ! 0 \<noteq> s ! (n - 1) then Inl ErrSyntax
      else
        let quote = s ! 0; body = take (n - 2) (drop 1 s) in
        if quote = bquote then
          (if bquote \<in> set body then Inl ErrSyntax
           else Inr (filter (\<lambda>c. c \<noteq> CHR 0x0D) body))
        else if quote \<noteq> dquote \<and> quote \<noteq> squote then Inl ErrSyntax
        else if newline \<in> set body then Inl ErrSyntax
        else if quote = squote \<and> body = [] then Inl ErrSyntax
        else case unquoteBody quote body of None \<Rightarrow> Inl ErrSyntax | Some u \<Rightarrow> Inr u)"

section \<open>Numbers\<close>

text \<open>\<open>strconv.Atoi\<close> on 64-bit \<open>int\<close>: an optional sign and decimal digits.\<close>

fun decDigits :: "string \<Rightarrow> int \<Rightarrow> int" where
  "decDigits [] v = v"
| "decDigits (c # cs) v = decDigits cs (v * 10 + int (byte c - 48))"

lemma decDigits_decVal: "decDigits ds (int a) = int (foldl (\<lambda>v c. 10 * v + digitVal c) a ds)"
proof (induction ds arbitrary: a)
  case (Cons c ds)
  from Cons [of "10 * a + digitVal c"] show ?case by (simp add: digitVal_def algebra_simps)
qed simp

lemma natDec_decimal: "list_all isDecimalChar (natDec n)"
  by (auto simp: list_all_iff isDecimalChar_def dest: natDec_digits)

lemma decDigits_natDec: "decDigits (natDec n) 0 = int n"
  using decDigits_decVal [of "natDec n" 0] decVal_natDec [of n] by (simp add: decVal_def)

definition Atoi :: "string \<Rightarrow> int result" where
  "Atoi s =
     (let neg = (s \<noteq> [] \<and> s ! 0 = CHR ''-'');
          ds = (if s \<noteq> [] \<and> (s ! 0 = CHR ''-'' \<or> s ! 0 = CHR ''+'') then drop 1 s else s);
          v = decDigits ds 0 in
      if ds = [] \<or> \<not> list_all isDecimalChar ds then
        Inl (Errorf ''strconv.Atoi: parsing %q: invalid syntax'' [s])
      else if v \<ge> 2 ^ 63 \<and> \<not> (neg \<and> v = 2 ^ 63) then
        Inl (Errorf ''strconv.Atoi: parsing %q: value out of range'' [s])
      else Inr (if neg then - v else v))"

text \<open>
  \<open>ParseFloat\<close> on the decimal grammar and the special names: mantissa digits with an optional
  point, and an exponent clamped at 10000 as \<open>readFloat\<close> does.
\<close>

fun clampExp :: "string \<Rightarrow> int \<Rightarrow> int" where
  "clampExp [] e = e"
| "clampExp (c # cs) e = clampExp cs (if e < 10000 then e * 10 + int (byte c - 48) else e)"

definition decimalValue :: "bool \<Rightarrow> int \<Rightarrow> int \<Rightarrow> float64" where
  "decimalValue neg m e = (if 0 \<le> e then roundQ neg (m * 10 ^ nat e) 1 else roundQ neg m (10 ^ nat (- e)))"

definition ParseFloat :: "string \<Rightarrow> float64 result" where
  "ParseFloat s =
     (let bad = Inl (Errorf ''strconv.ParseFloat: parsing %q: invalid syntax'' [s]);
          neg = (s \<noteq> [] \<and> s ! 0 = CHR ''-'');
          signed = (s \<noteq> [] \<and> (s ! 0 = CHR ''-'' \<or> s ! 0 = CHR ''+''));
          t = (if signed then drop 1 s else s);
          l = map toLowerByte t in
      if l = ''inf'' \<or> l = ''infinity'' then Inr (FInf neg)
      else if l = ''nan'' \<and> \<not> signed then Inr FNaN
      else
        let ip = takeWhile isDecimalChar t; t1 = dropWhile isDecimalChar t;
            dot = (t1 \<noteq> [] \<and> t1 ! 0 = CHR ''.'');
            fp = (if dot then takeWhile isDecimalChar (drop 1 t1) else []);
            t2 = (if dot then dropWhile isDecimalChar (drop 1 t1) else t1);
            hasE = (t2 \<noteq> [] \<and> (t2 ! 0 = CHR ''e'' \<or> t2 ! 0 = CHR ''E''));
            t3 = (if hasE then drop 1 t2 else t2);
            eneg = (hasE \<and> t3 \<noteq> [] \<and> t3 ! 0 = CHR ''-'');
            t4 = (if hasE \<and> t3 \<noteq> [] \<and> (t3 ! 0 = CHR ''-'' \<or> t3 ! 0 = CHR ''+'') then drop 1 t3 else t3);
            ed = (if hasE then takeWhile isDecimalChar t4 else []);
            t5 = (if hasE then dropWhile isDecimalChar t4 else t4);
            e = (if eneg then - clampExp ed 0 else clampExp ed 0);
            x = decimalValue neg (decDigits (ip @ fp) 0) (e - int (length fp)) in
        if ip @ fp = [] \<or> (hasE \<and> ed = []) \<or> t5 \<noteq> [] then bad
        else case x of
          FInf _ \<Rightarrow> Inl (Errorf ''strconv.ParseFloat: parsing %q: value out of range'' [s])
        | _ \<Rightarrow> Inr x)"

text \<open>
  The shortest decimal that reads back as the value: for each number of digits, the two
  neighbours of the value at that precision; both in range, the nearer one. \<open>n / d\<close> is the
  absolute value; the result is the digits and the position of the decimal point
  (\<open>0.digits * 10^dp\<close>).
\<close>

fun dropZeros :: "int \<Rightarrow> nat \<Rightarrow> int \<times> nat" where
  "dropZeros m 0 = (m, 0)"
| "dropZeros m (Suc k) = (if m mod 10 = 0 \<and> m \<noteq> 0 then dropZeros (m div 10) k else (m, Suc k))"

function decLen :: "int \<Rightarrow> nat" where
  "decLen m = (if m \<le> 0 then 0 else Suc (decLen (m div 10)))"
  by auto
termination by (relation "measure nat") auto

declare decLen.simps [simp del]

definition scale10 :: "int \<Rightarrow> int \<Rightarrow> int" where
  "scale10 n k = (if 0 \<le> k then n * 10 ^ nat k else n)"

fun shortest :: "nat \<Rightarrow> nat \<Rightarrow> float64 \<Rightarrow> int \<Rightarrow> int \<Rightarrow> int \<Rightarrow> int \<times> int" where
  "shortest 0 k x n d dp = (0, 0)"
| "shortest (Suc fuel) k x n d dp =
     (let e = dp - int k;
          num = scale10 n (- e); den = scale10 d e;
          lo = num div den; hi = lo + 1;
          okLo = (decimalValue False lo e = x); okHi = (decimalValue False hi e = x);
          m = (if okLo \<and> okHi then roundDiv num den else if okLo then lo else hi) in
      if okLo \<or> okHi then (fst (dropZeros m (decLen m)), dp + (if int (decLen m) > int k then 1 else 0))
      else shortest fuel (k + 1) x n d dp)"

definition decimalPoint :: "int \<Rightarrow> int \<Rightarrow> int" where
  "decimalPoint n d =
     (let k = int (decLen n) - int (decLen d) in
      if scale10 d k \<le> scale10 n (- k) then k + 1 else k)"

definition AppendFloat :: "float64 \<Rightarrow> string" where
  "AppendFloat x =
     (case x of
        FNaN \<Rightarrow> ''NaN''
      | FInf s \<Rightarrow> (if s then ''-Inf'' else ''+Inf'')
      | FFin s m e \<Rightarrow>
          let sign = (if s then ''-'' else []) in
          if m = 0 then sign @ ''0''
          else
            let n = scaleUp m e; d = scaleUp 1 (- e);
                (ds, dp) = shortest 18 1 (FFin False m e) n d (decimalPoint n d);
                digs = Itoa ds; nd = length digs; ex = dp - 1;
                eprec = (6::int) in
            if ex < -4 \<or> ex \<ge> eprec then
              sign @ take 1 digs @ (if nd > 1 then ''.'' @ drop 1 digs else []) @ ''e''
                @ (if ex < 0 then ''-'' else ''+'') @ (if \<bar>ex\<bar> < 10 then ''0'' else []) @ Itoa \<bar>ex\<bar>
            else if dp \<le> 0 then sign @ ''0.'' @ replicate (nat (- dp)) CHR ''0'' @ digs
            else if nat dp \<ge> nd then sign @ digs @ replicate (nat dp - nd) CHR ''0''
            else sign @ take (nat dp) digs @ ''.'' @ drop (nat dp) digs)"

section \<open>Quoting and unquoting are inverse\<close>

lemma hexVal_append: "hexVal v (xs @ ys) = (case hexVal v xs of None \<Rightarrow> None | Some u \<Rightarrow> hexVal u ys)"
  by (induction xs arbitrary: v) auto

lemma hexVal_hexDigits: "r < 16 ^ k \<Longrightarrow> hexVal 0 (hexDigits k r) = Some r"
proof (induction k arbitrary: r)
  case (Suc k)
  then have "r div 16 < 16 ^ k" by (simp add: div_less_iff_less_mult mult.commute)
  with Suc.IH [of "r div 16"] show ?case
    by (simp add: hexVal_append fromHex_toHex [of "r mod 16"])
qed simp

lemma length_hexDigits [simp]: "length (hexDigits k r) = k"
  by (induction k arbitrary: r) simp_all

lemma newline_hexDigits: "newline \<notin> set (hexDigits k r)"
proof (induction k arbitrary: r)
  case (Suc k)
  have "toHex (r mod 16) \<noteq> newline" by (rule toHex_not) simp_all
  with Suc.IH [of "r div 16"] show ?case by auto
qed simp

text \<open>What \<open>UnquoteChar\<close> reads is written back as the bytes \<open>out\<close>.\<close>

definition readsAs :: "string \<Rightarrow> string \<Rightarrow> bool" where
  "readsAs p out \<longleftrightarrow> p \<noteq> [] \<and> newline \<notin> set p \<and> (\<forall>t. \<exists>v mb. UnquoteChar (p @ t) dquote = Some (v, mb, t) \<and>
     (if v < 0x80 \<or> \<not> mb then [char_of v] else encodeRune v) = out)"

lemma readsAs_hex:
  assumes "b < 256"
  shows "readsAs (bslash # CHR ''x'' # hexDigits 2 b) [char_of b]"
  using hexVal_hexDigits [of b 2] newline_hexDigits [of 2 b] assms
  by (auto simp: readsAs_def UnquoteChar_def)

lemma readsAs_u:
  assumes "b < 16 ^ 4"
  shows "readsAs (bslash # CHR ''u'' # hexDigits 4 b) (if b < 0x80 then [char_of b] else encodeRune b)"
  using hexVal_hexDigits [of b 4] newline_hexDigits [of 4 b] assms
  by (auto simp: readsAs_def UnquoteChar_def)

lemma readsAs_U:
  assumes "0x10000 \<le> b" "b \<le> 0x10FFFF"
  shows "readsAs (bslash # CHR ''U'' # hexDigits 8 b) (encodeRune b)"
  using hexVal_hexDigits [of b 8] newline_hexDigits [of 8 b] assms
  by (auto simp: readsAs_def UnquoteChar_def)

lemma chars: "char_of (34::nat) = dquote" "char_of (92::nat) = bslash"
  by code_simp+

lemma readsAs_simple:
  "readsAs [bslash, CHR ''a''] [char_of (7::nat)]" "readsAs [bslash, CHR ''b''] [char_of (8::nat)]"
  "readsAs [bslash, CHR ''f''] [char_of (12::nat)]" "readsAs [bslash, CHR ''n''] [char_of (10::nat)]"
  "readsAs [bslash, CHR ''r''] [char_of (13::nat)]" "readsAs [bslash, CHR ''t''] [char_of (9::nat)]"
  "readsAs [bslash, CHR ''v''] [char_of (11::nat)]" "readsAs [bslash, dquote] [dquote]"
  "readsAs [bslash, bslash] [bslash]"
  by (simp_all add: readsAs_def UnquoteChar_def Let_def isOct_def between_def exI [of _ False] chars)

lemma IsPrint_ascii: "r < 0x80 \<Longrightarrow> IsPrint L r \<longleftrightarrow> 32 \<le> r \<and> r \<noteq> 127"
  by (auto simp: IsPrint_def)

lemma readsAs_plain:
  assumes "byte c < 0x80" "32 \<le> byte c" "c \<noteq> dquote" "c \<noteq> bslash"
  shows "readsAs [c] [c]"
  using assms by (auto simp: readsAs_def UnquoteChar_def)

lemma readsAs_multi:
  assumes "decodeRune s = (r, w)" "2 \<le> w" "w \<le> length s"
  shows "readsAs (take w s) (take w s)"
proof -
  obtain c s' where s: "s = c # s'" using assms by (cases s) auto
  have hi: "0x80 \<le> byte c"
    using assms decodeRune_ascii [of c s'] unfolding s by (cases "byte c < 0x80") auto
  have nl: "newline \<notin> set (take w s)"
    using encodeRune_high [OF decodeRune_multi(2) [OF assms(1,2)], of newline]
    by (auto simp: decodeRune_multi(1) [OF assms(1,2)])
  show ?thesis
    unfolding readsAs_def
  proof (intro conjI allI)
    show "take w s \<noteq> []" using assms s by auto
    show "newline \<notin> set (take w s)" by (rule nl)
    fix t
    have "take w s @ t = c # take (w - 1) s' @ t" using assms(2) s by (cases w) auto
    moreover have "c \<noteq> dquote" using hi by auto
    ultimately have "UnquoteChar (take w s @ t) dquote = Some (r, True, drop w (take w s @ t))"
      using hi decodeRune_multi(4) [OF assms(1,2), of t] by (simp add: UnquoteChar_def)
    moreover have "drop w (take w s @ t) = t" using assms(3) by simp
    ultimately show "\<exists>v mb. UnquoteChar (take w s @ t) dquote = Some (v, mb, t) \<and>
        (if v < 0x80 \<or> \<not> mb then [char_of v] else encodeRune v) = take w s"
      using decodeRune_multi(1,2) [OF assms(1,2)] by (intro exI [of _ r] exI [of _ True]) simp
  qed
qed

text \<open>The piece that \<open>Quote\<close> writes for the head of a string.\<close>

definition quotePiece :: "golib \<Rightarrow> string \<Rightarrow> string" where
  "quotePiece L s = (let (r, w) = decodeRune s in
     if w = 1 \<and> r = runeError then bslash # CHR ''x'' # hexDigits 2 (byte (s ! 0)) else appendEscapedRune L r)"

lemma readsAs_escaped_ascii:
  assumes "byte c < 0x80"
  shows "readsAs (appendEscapedRune L (byte c)) [c]"
proof -
  note e = appendEscapedRune_def IsPrint_ascii [OF assms]
  consider "c = dquote \<or> c = bslash" | "c \<noteq> dquote" "c \<noteq> bslash" "32 \<le> byte c" "byte c \<noteq> 127"
    | "byte c = 127" | "byte c < 32" by linarith
  then show ?thesis
  proof cases
    case 1
    then show ?thesis using readsAs_simple by (auto simp: e chars)
  next
    case 2
    then have "byte c \<noteq> byte dquote" "byte c \<noteq> byte bslash" using of_char_eq_iff by blast+
    with 2 show ?thesis using readsAs_plain [of c] assms by (simp add: e encodeRune_def)
  next
    case 3
    then have "c = char_of (127::nat)" by (metis char_of_char)
    with 3 readsAs_u [of 127] show ?thesis by (simp add: appendEscapedRune_def IsPrint_ascii)
  next
    case 4
    have "readsAs (appendEscapedRune L b) [char_of b]" if "b < 32" for b
      using that readsAs_hex [of b] readsAs_simple
      by (auto simp: appendEscapedRune_def IsPrint_ascii simp del: hexDigits.simps)
    from this [OF 4] show ?thesis by simp
  qed
qed

lemma quotePiece_reads:
  assumes "s \<noteq> []" "decodeRune s = (r, w)"
  shows "readsAs (quotePiece L s) (take w s)"
proof -
  obtain c s' where s: "s = c # s'" using assms by (cases s) auto
  have w: "0 < w" "w \<le> length s" using decodeRune_width [OF assms(1)] assms(2) by simp_all
  show ?thesis
  proof (cases "2 \<le> w")
    case False
    from decodeRune_single [OF assms(2) [unfolded s] False] consider
      "w = 1" "r = byte c" "byte c < 0x80" | "w = 1" "r = runeError" by auto
    then show ?thesis
    proof cases
      case 1
      then show ?thesis
        using readsAs_escaped_ascii [of c L] assms(2) by (simp add: quotePiece_def s)
    next
      case 2
      then show ?thesis
        using readsAs_hex [of "byte c"] assms(2) by (simp add: quotePiece_def s del: hexDigits.simps)
    qed
  next
    case True
    note m = decodeRune_multi [OF assms(2) True]
    from m(2) have "r \<noteq> byte dquote" "r \<noteq> byte bslash" by auto
    moreover have "readsAs (take w s) (take w s)" by (rule readsAs_multi [OF assms(2) True w(2)])
    moreover have "\<not> IsPrint L r \<Longrightarrow> r < 0x10000 \<Longrightarrow>
        readsAs (bslash # CHR ''u'' # hexDigits 4 r) (take w s)"
      using readsAs_u [of r] m(1,2) by (simp del: hexDigits.simps)
    moreover have "\<not> r < 0x10000 \<Longrightarrow> readsAs (bslash # CHR ''U'' # hexDigits 8 r) (take w s)"
      using readsAs_U [of r] m(1,3) by (simp del: hexDigits.simps)
    ultimately show ?thesis
      using True m(1,2) assms(2) by (auto simp: quotePiece_def appendEscapedRune_def simp del: hexDigits.simps)
  qed
qed

lemma quoteBody_Cons: "s \<noteq> [] \<Longrightarrow> decodeRune s = (r, w) \<Longrightarrow> quoteBody L s = quotePiece L s @ quoteBody L (drop w s)"
  by (subst quoteBody.simps) (simp add: quotePiece_def)

lemma quoteBody_reads: "unquoteBody dquote (quoteBody L s) = Some s \<and> newline \<notin> set (quoteBody L s)"
proof (induction L s rule: quoteBody.induct)
  case (1 L s)
  show ?case
  proof (cases "s = []")
    case True
    then show ?thesis by (simp add: quoteBody.simps unquoteBody.simps)
  next
    case False
    obtain r w where d: "decodeRune s = (r, w)" by fastforce
    note q = quoteBody_Cons [OF False d, of L]
    from quotePiece_reads [OF False d, of L] obtain v mb where
      u: "UnquoteChar (quoteBody L s) dquote = Some (v, mb, quoteBody L (drop w s))"
        "(if v < 0x80 \<or> \<not> mb then [char_of v] else encodeRune v) = take w s"
        "quotePiece L s \<noteq> []" "newline \<notin> set (quotePiece L s)"
      unfolding readsAs_def q by blast
    have IH: "unquoteBody dquote (quoteBody L (drop w s)) = Some (drop w s)"
      "newline \<notin> set (quoteBody L (drop w s))"
      using "1.IH" [OF False d [symmetric] refl] by simp_all
    have "quoteBody L s \<noteq> []" using u(3) q by simp
    then have "unquoteBody dquote (quoteBody L s) = Some (take w s @ drop w s)"
      using IH u(1,2) by (subst unquoteBody.simps) simp
    moreover have "newline \<notin> set (quoteBody L s)" unfolding q using u(4) IH(2) by simp
    ultimately show ?thesis by simp
  qed
qed

theorem Unquote_Quote: "Unquote (Quote L s) = Inr s"
proof -
  have "Unquote (dquote # body @ [dquote]) = (if newline \<in> set body then Inl ErrSyntax
      else case unquoteBody dquote body of None \<Rightarrow> Inl ErrSyntax | Some u \<Rightarrow> Inr u)" for body
    by (simp add: Unquote_def nth_append Let_def)
  from this [of "quoteBody L s"] show ?thesis using quoteBody_reads [of L s] by (simp add: Quote_def)
qed

end
