(* ===== verification/BinaryOpEval.thy ===== *)
theory BinaryOpEval
  imports BinaryOp Strconv
begin

text \<open>
  \<open>src/mateql/binaryop/funcs.go\<close> and \<open>binaryOpEval\<close> of \<open>src/mateql/binary_op.go\<close>: the
  arithmetic, comparison and set operators on two numbers, with the conventions on NaN.
\<close>

section \<open>The operators\<close>

definition Eq :: "float64 \<Rightarrow> float64 \<Rightarrow> bool" where
  "Eq left right = (if isNaN left then isNaN right else eqF left right)"

definition Neq :: "float64 \<Rightarrow> float64 \<Rightarrow> bool" where
  "Neq left right =
     (if isNaN left then \<not> isNaN right else if isNaN right then True else \<not> eqF left right)"

definition Gt :: "float64 \<Rightarrow> float64 \<Rightarrow> bool" where "Gt left right = ltF right left"
definition Lt :: "float64 \<Rightarrow> float64 \<Rightarrow> bool" where "Lt left right = ltF left right"
definition Gte :: "float64 \<Rightarrow> float64 \<Rightarrow> bool" where "Gte left right = leF right left"
definition Lte :: "float64 \<Rightarrow> float64 \<Rightarrow> bool" where "Lte left right = leF left right"
definition Plus_op :: "float64 \<Rightarrow> float64 \<Rightarrow> float64" where "Plus_op left right = addF left right"
definition Minus_op :: "float64 \<Rightarrow> float64 \<Rightarrow> float64" where "Minus_op left right = subF left right"
definition Mul :: "float64 \<Rightarrow> float64 \<Rightarrow> float64" where "Mul left right = mulF left right"
definition Div :: "float64 \<Rightarrow> float64 \<Rightarrow> float64" where "Div left right = divF left right"
definition Mod :: "float64 \<Rightarrow> float64 \<Rightarrow> float64" where "Mod left right = modF left right"

definition Pow_op :: "golib \<Rightarrow> float64 \<Rightarrow> float64 \<Rightarrow> float64" where
  "Pow_op L left right = mathPow L left right"

definition Default :: "float64 \<Rightarrow> float64 \<Rightarrow> float64" where
  "Default left right = (if isNaN left then right else left)"

definition If_op :: "float64 \<Rightarrow> float64 \<Rightarrow> float64" where
  "If_op left right = (if isNaN right then FNaN else left)"

definition Ifnot :: "float64 \<Rightarrow> float64 \<Rightarrow> float64" where
  "Ifnot left right = (if isNaN right then left else FNaN)"

section \<open>Evaluation by operator name\<close>

definition evalCmp :: "bool \<Rightarrow> (float64 \<Rightarrow> float64 \<Rightarrow> bool) \<Rightarrow> float64 \<Rightarrow> float64 \<Rightarrow> float64" where
  "evalCmp isBool cf left right =
     (if isBool then (if cf left right then one64 else zero64)
      else if cf left right then left else FNaN)"

definition binaryOpEval :: "golib \<Rightarrow> string \<Rightarrow> float64 \<Rightarrow> float64 \<Rightarrow> bool \<Rightarrow> float64 result" where
  "binaryOpEval L op left right isBool =
     (if IsBinaryOpCmp op then
        (if op = ''=='' then Inr (evalCmp isBool Eq left right)
         else if op = ''!='' then Inr (evalCmp isBool Neq left right)
         else if op = ''>'' then Inr (evalCmp isBool Gt left right)
         else if op = ''<'' then Inr (evalCmp isBool Lt left right)
         else if op = ''>='' then Inr (evalCmp isBool Gte left right)
         else if op = ''<='' then Inr (evalCmp isBool Lte left right)
         else Inl (Panicf ''BUG: unexpected comparison binaryOp''))
      else if op = ''+'' then Inr (Plus_op left right)
      else if op = ''-'' then Inr (Minus_op left right)
      else if op = ''*'' then Inr (Mul left right)
      else if op = ''/'' then Inr (Div left right)
      else if op = ''%'' then Inr (Mod left right)
      else if op = ''^'' then Inr (Pow_op L left right)
      else if op = ''and'' then Inr left
      else if op = ''or'' then Inr left
      else if op = ''unless'' then Inr FNaN
      else if op = ''default'' then Inr (Default left right)
      else if op = ''if'' then Inr (If_op left right)
      else if op = ''ifnot'' then Inr (Ifnot left right)
      else Inl (Panicf ''BUG: unexpected non-comparison binaryOp''))"

text \<open>The evaluation is defined on every operator the lexer knows: the \<open>BUG\<close> panics are dead.\<close>

lemma binaryOpEval_total: "op \<in> set binaryOps \<Longrightarrow> \<exists>x. binaryOpEval L op l r b = Inr x"
  unfolding binaryOps_def list.set insert_iff empty_iff
  by (elim disjE) (simp_all add: binaryOpEval_def IsBinaryOpCmp_def)

definition bool64 :: "bool \<Rightarrow> float64" where
  "bool64 b = (if b then one64 else zero64)"

lemma bool64_inj [simp]: "bool64 a = bool64 b \<longleftrightarrow> a = b"
  by (simp add: bool64_def one64_def zero64_def)

lemma binaryOpEval_bool:
  "binaryOpEval L ''=='' l r True = Inr (bool64 (Eq l r))"
  "binaryOpEval L ''!='' l r True = Inr (bool64 (Neq l r))"
  "binaryOpEval L ''>'' l r True = Inr (bool64 (Gt l r))"
  "binaryOpEval L ''<'' l r True = Inr (bool64 (Lt l r))"
  "binaryOpEval L ''>='' l r True = Inr (bool64 (Gte l r))"
  "binaryOpEval L ''<='' l r True = Inr (bool64 (Lte l r))"
  by (simp_all add: binaryOpEval_def IsBinaryOpCmp_def evalCmp_def bool64_def)

lemma Neq_iff: "Neq l r \<longleftrightarrow> \<not> Eq l r"
  by (cases l; cases r) (auto simp: Neq_def Eq_def isNaN_def)

lemma Eq_equiv: "Eq x x" "Eq x y \<Longrightarrow> Eq y x"
  using eqF_refl [of x] eqF_sym [of x y] by (auto simp: Eq_def isNaN_def split: if_splits)

lemma nan_compare: "isNaN x \<or> isNaN y \<Longrightarrow> \<not> Lt x y \<and> \<not> Gt x y \<and> \<not> Gte x y \<and> \<not> Lte x y"
  by (cases x; cases y) (auto simp: isNaN_def Lt_def Gt_def Gte_def Lte_def leF_def)

lemma order_compare:
  assumes "\<not> isNaN x" "\<not> isNaN y"
  shows "Gte x y \<longleftrightarrow> \<not> Lt x y" "Lte x y \<longleftrightarrow> \<not> Gt x y" "Eq x y \<longleftrightarrow> Gte x y \<and> Lte x y"
  using assms ltF_linear [of x y] ltF_asym [of x y] ltF_not_eqF [of x y] ltF_not_eqF [of y x] eqF_sym [of x y]
  by (auto simp: isNaN_def Gte_def Lte_def Lt_def Gt_def leF_def Eq_def)

text \<open>On constants, \<open>!=\<close> is the negation of \<open>==\<close>; \<open>>=\<close> and \<open><=\<close> are the negations of \<open><\<close> and \<open>>\<close> unless an operand is NaN;
  with NaN all four orderings are false.\<close>

lemma binaryOpEval_complement:
  "(binaryOpEval L ''!='' l r True = Inr (bool64 a) \<longleftrightarrow> binaryOpEval L ''=='' l r True = Inr (bool64 (\<not> a))) \<and>
   (\<not> isNaN l \<and> \<not> isNaN r \<longrightarrow>
     (binaryOpEval L ''>='' l r True = Inr (bool64 a) \<longleftrightarrow> binaryOpEval L ''<'' l r True = Inr (bool64 (\<not> a))) \<and>
     (binaryOpEval L ''<='' l r True = Inr (bool64 a) \<longleftrightarrow> binaryOpEval L ''>'' l r True = Inr (bool64 (\<not> a)))) \<and>
   (isNaN l \<or> isNaN r \<longrightarrow> (\<forall>op \<in> {''<'', ''>'', ''<='', ''>=''}.
     binaryOpEval L op l r True = Inr zero64 \<and> binaryOpEval L op l r False = Inr FNaN))"
proof -
  have z: "zero64 = bool64 False" by (simp add: bool64_def)
  show ?thesis
    using order_compare [of l r] nan_compare [of l r]
    by (auto simp: binaryOpEval_bool Neq_iff z)
      (simp_all add: binaryOpEval_def IsBinaryOpCmp_def evalCmp_def)
qed

end
