(* ===== verification/Ast.thy ===== *)
theory Ast
  imports BinaryOpEval
begin

text \<open>
  The expression types of \<open>src/mateql/parser.go\<close> and their \<open>AppendString\<close> methods. An
  expression is a tree; the pointer types of the source are constructors of one datatype. The
  methods only append, so \<open>exprString L e\<close> is what \<open>e.AppendString(dst)\<close> adds to \<open>dst\<close>.
\<close>

section \<open>Data\<close>

record LabelFilter =
  Label :: string
  Value :: string
  IsNegative :: bool
  IsRegexp :: bool

record ModifierExpr =
  Op :: string
  Args :: "string list"

text \<open>
  A \<open>StringExpr\<close> is its value \<open>S\<close> and its tokens; the value of a label filter before expansion is
  a \<open>*StringExpr\<close> that is \<open>nil\<close> in \<open>{foo}\<close>.
\<close>

record labelFilterExpr =
  lfeLabel :: string
  lfeValue :: "(string \<times> string list) option"
  lfeIsRegexp :: bool
  lfeIsNegative :: bool

text \<open>
  \<open>MetricExpr r lfs lfes\<close> has the expanded filters \<open>lfs\<close> (\<open>LabelFilters\<close>) and the parsed ones
  \<open>lfes\<close> (\<open>labelFilters\<close>). The number \<open>r\<close> is the identity of the node: expansion may put one
  \<open>*MetricExpr\<close> at several places of a tree, and \<open>covertExpr\<close> later writes to it.
  \<open>RollupExpr e window offset step inheritStep\<close>, \<open>BinaryOpExpr op bool group join left right\<close>,
  \<open>AggrFuncExpr name args modifier limit\<close> and \<open>WithArg name args e\<close> are the other structs.
\<close>

datatype expr =
    StringExpr string "string list"
  | NumberExpr float64
  | ParensExpr "expr list"
  | BinaryOpExpr string bool ModifierExpr ModifierExpr expr expr
  | FuncExpr string "expr list"
  | AggrFuncExpr string "expr list" ModifierExpr int
  | WithExpr "withArgExpr list" expr
  | RollupExpr expr string string string bool
  | MetricExpr nat "LabelFilter list" "labelFilterExpr list"
and withArgExpr = WithArg string "string list" expr

definition noModifier :: ModifierExpr where
  "noModifier = \<lparr>Op = [], Args = []\<rparr>"

fun waName :: "withArgExpr \<Rightarrow> string" where "waName (WithArg n _ _) = n"
fun waArgs :: "withArgExpr \<Rightarrow> string list" where "waArgs (WithArg _ as _) = as"
fun waExpr :: "withArgExpr \<Rightarrow> expr" where "waExpr (WithArg _ _ e) = e"

definition ForSubquery :: "expr \<Rightarrow> bool" where
  "ForSubquery re \<longleftrightarrow> (case re of RollupExpr _ _ _ step inheritStep \<Rightarrow> length step > 0 \<or> inheritStep | _ \<Rightarrow> False)"

section \<open>Metric names\<close>

definition isNameFilter :: "LabelFilter \<Rightarrow> bool" where
  "isNameFilter lf \<longleftrightarrow> Label lf = ''__name__'' \<and> \<not> IsNegative lf \<and> \<not> IsRegexp lf"

definition hasNonEmptyMetricGroup :: "LabelFilter list \<Rightarrow> bool" where
  "hasNonEmptyMetricGroup lfs = (if length lfs = 0 then False else isNameFilter (lfs ! 0))"

definition isOnlyMetricGroup :: "LabelFilter list \<Rightarrow> bool" where
  "isOnlyMetricGroup lfs = (if \<not> hasNonEmptyMetricGroup lfs then False else length lfs = 1)"

definition IsEmpty :: "LabelFilter list \<Rightarrow> bool" where
  "IsEmpty lfs \<longleftrightarrow> length lfs = 0"

section \<open>Printing\<close>

definition filterOp :: "LabelFilter \<Rightarrow> string" where
  "filterOp lf =
     (if IsNegative lf then (if IsRegexp lf then ''!~'' else ''!='')
      else (if IsRegexp lf then ''=~'' else ''=''))"

definition filterString :: "golib \<Rightarrow> LabelFilter \<Rightarrow> string" where
  "filterString L lf = appendEscapedIdent [] (Label lf) @ filterOp lf @ Quote L (Value lf)"

definition metricString :: "golib \<Rightarrow> LabelFilter list \<Rightarrow> string" where
  "metricString L LabelFilters =
     (let named = (length LabelFilters > 0 \<and> isNameFilter (LabelFilters ! 0));
          name = (if named then appendEscapedIdent [] (Value (LabelFilters ! 0)) else []);
          lfs = (if named then drop 1 LabelFilters else LabelFilters) in
      name @ (if length lfs > 0 then ''{'' @ joinWith '', '' (map (filterString L) lfs) @ ''}''
              else if length LabelFilters = 0 then ''{}'' else []))"

definition modifierString :: "ModifierExpr \<Rightarrow> string" where
  "modifierString me = Op me @ '' ('' @ joinWith '', '' (Args me) @ '')''"

definition argListString :: "string list \<Rightarrow> string" where
  "argListString args = ''('' @ joinWith '', '' args @ '')''"

fun isBinaryOpExpr :: "expr \<Rightarrow> bool" where
  "isBinaryOpExpr (BinaryOpExpr _ _ _ _ _ _) = True"
| "isBinaryOpExpr _ = False"

definition parenthesize :: "bool \<Rightarrow> string \<Rightarrow> string" where
  "parenthesize b s = (if b then ''('' @ s @ '')'' else s)"

definition rollupNeedParens :: "expr \<Rightarrow> bool" where
  "rollupNeedParens e = (case e of RollupExpr _ _ _ _ _ \<Rightarrow> True | BinaryOpExpr _ _ _ _ _ _ \<Rightarrow> True
     | AggrFuncExpr _ _ m _ \<Rightarrow> Op m \<noteq> [] | _ \<Rightarrow> False)"

definition rollupSuffix :: "string \<Rightarrow> string \<Rightarrow> string \<Rightarrow> bool \<Rightarrow> string" where
  "rollupSuffix window offset step inheritStep =
     (if length window > 0 \<or> inheritStep \<or> length step > 0 then
        ''['' @ window @ (if length step > 0 then '':'' @ step else if inheritStep then '':'' else []) @ '']''
      else []) @
     (if length offset > 0 then '' offset '' @ offset else [])"

fun exprString :: "golib \<Rightarrow> expr \<Rightarrow> string" and withArgString :: "golib \<Rightarrow> withArgExpr \<Rightarrow> string" where
  "exprString L (StringExpr s tokens) = Quote L s"
| "exprString L (NumberExpr n) = AppendFloat n"
| "exprString L (ParensExpr es) = argListString (map (exprString L) es)"
| "exprString L (BinaryOpExpr op isBool grp join left right) =
     parenthesize (isBinaryOpExpr left) (exprString L left) @ '' '' @ op @ (if isBool then '' bool'' else [])
     @ (if Op grp \<noteq> [] then '' '' @ modifierString grp else [])
     @ (if Op join \<noteq> [] then '' '' @ modifierString join else [])
     @ '' '' @ parenthesize (isBinaryOpExpr right) (exprString L right)"
| "exprString L (FuncExpr name args) = name @ argListString (map (exprString L) args)"
| "exprString L (AggrFuncExpr name args modifier limit) =
     name @ argListString (map (exprString L) args)
     @ (if Op modifier \<noteq> [] then '' '' @ modifierString modifier else [])
     @ (if limit > 0 then '' limit '' @ Itoa limit else [])"
| "exprString L (WithExpr was e) = ''WITH ('' @ joinWith '','' (map (withArgString L) was) @ '') '' @ exprString L e"
| "exprString L (RollupExpr e window offset step inheritStep) =
     parenthesize (rollupNeedParens e) (exprString L e) @ rollupSuffix window offset step inheritStep"
| "exprString L (MetricExpr r lfs lfes) = metricString L lfs"
| "withArgString L (WithArg name args e) =
     name @ (if length args > 0 then ''('' @ joinWith '','' args @ '')'' else []) @ '' = '' @ exprString L e"

end
