(* ===== verification/Parser.thy ===== *)
theory Parser
  imports Ast TokenStream
begin

text \<open>
  The recursive-descent parser of \<open>src/mateql/parser.go\<close>. A \<open>parse*\<close> method is a computation
  over the lexer. The methods that recurse take the recursive calls as arguments (\<open>pe\<close> for
  \<open>parseExpr\<close>, \<open>ps\<close> for \<open>parseSingleExpr\<close>) and the knot is tied in \<open>parseSingleExpr\<close>, on a
  bound \<open>n\<close> of the nesting depth that also bounds every loop; theory \<open>ParserProps\<close> shows that one
  more than the number of tokens is enough.
\<close>

section \<open>Tokens\<close>

type_synonym 'a parser = "(lexer, 'a) comp"

definition tok :: "string parser" where
  "tok lx = (Inr (Token lx), lx)"

text \<open>\<open>p.lex.Next()\<close> with its early return, then the new token.\<close>

definition nextTok :: "string parser" where
  "nextTok = andThen Next (\<lambda>_. tok)"

definition failf :: "string \<Rightarrow> string list \<Rightarrow> 'a parser" where
  "failf f args = fail (Errorf f args)"

section \<open>Identifiers, modifiers, durations\<close>

fun parseIdentList_loop :: "nat \<Rightarrow> string list \<Rightarrow> string list parser" where
  "parseIdentList_loop 0 idents = fail OutOfFuel"
| "parseIdentList_loop (Suc n) idents =
     andThen nextTok (\<lambda>t.
     if t = '')'' then andThen Next (\<lambda>_. ret idents)
     else if \<not> isIdentPrefix t then failf ''identList: unexpected token %q; want \"ident\"'' [t]
     else let idents = idents @ [t] in
     andThen nextTok (\<lambda>t.
     if t = '','' then parseIdentList_loop n idents
     else if t = '')'' then andThen Next (\<lambda>_. ret idents)
     else failf ''identList: unexpected token %q; want \",\", \")\"'' [t]))"

definition parseIdentList :: "nat \<Rightarrow> string list parser" where
  "parseIdentList n =
     andThen tok (\<lambda>t.
     if t \<noteq> ''('' then failf ''identList: unexpected token %q; want \"(\"'' [t]
     else parseIdentList_loop n [])"

definition parseModifierExpr :: "nat \<Rightarrow> ModifierExpr parser" where
  "parseModifierExpr n =
     andThen tok (\<lambda>t.
     if \<not> isIdentPrefix t then failf ''ModifierExpr: unexpected token %q; want \"ident\"'' [t]
     else let op = ToLower t in
     andThen nextTok (\<lambda>t.
     if isBinaryOpJoinModifier op \<and> t \<noteq> ''('' then ret \<lparr>Op = op, Args = []\<rparr>
     else andThen (parseIdentList n) (\<lambda>args. ret \<lparr>Op = op, Args = args\<rparr>)))"

definition parseDuration :: "string parser" where
  "parseDuration =
     andThen tok (\<lambda>t. let isNegative = (t = ''-'') in
     andThen (if isNegative then Next else ret ()) (\<lambda>_.
     andThen tok (\<lambda>t.
     if \<not> isPositiveDuration t then failf ''duration: unexpected token %q; want \"duration\"'' [t]
     else andThen Next (\<lambda>_. ret (if isNegative then ''-'' @ t else t)))))"

definition parsePositiveDuration :: "string parser" where
  "parsePositiveDuration =
     andThen parseDuration (\<lambda>d.
     if HasPrefix d ''-'' then failf ''positiveDuration: expecting positive duration; got %q'' [d]
     else ret d)"

definition parseOffset :: "string parser" where
  "parseOffset =
     andThen tok (\<lambda>t.
     if \<not> isOffset t then failf ''offset: unexpected token %q; want \"offset\"'' [t]
     else andThen Next (\<lambda>_. parseDuration))"

text \<open>The window, the step and whether the step is inherited.\<close>

definition parseWindowAndStep :: "(string \<times> string \<times> bool) parser" where
  "parseWindowAndStep =
     andThen tok (\<lambda>t.
     if t \<noteq> ''['' then failf ''windowAndStep: unexpected token %q; want \"[\"'' [t]
     else
     andThen nextTok (\<lambda>t.
     andThen (if \<not> HasPrefix t '':'' then parsePositiveDuration else ret []) (\<lambda>window.
     andThen tok (\<lambda>t.
     andThen
       (if HasPrefix t '':'' then
          andThen (modifyS (\<lambda>lx. lx\<lparr>Token := drop 1 (Token lx)\<rparr>)) (\<lambda>_.
          andThen tok (\<lambda>t.
          andThen (if t = [] then andThen nextTok (\<lambda>t. ret (t = '']'')) else ret False) (\<lambda>inheritStep.
          andThen tok (\<lambda>t.
          andThen (if t \<noteq> '']'' then parsePositiveDuration else ret []) (\<lambda>step.
          ret (step, inheritStep))))))
        else ret ([], False)) (\<lambda>(step, inheritStep).
     andThen tok (\<lambda>t.
     if t \<noteq> '']'' then failf ''windowAndStep: unexpected token %q; want \"]\"'' [t]
     else andThen Next (\<lambda>_. ret (window, step, inheritStep))))))))"

definition parseRollupExpr :: "expr \<Rightarrow> expr parser" where
  "parseRollupExpr arg =
     andThen tok (\<lambda>t.
     andThen (if t = ''['' then parseWindowAndStep else ret ([], [], False)) (\<lambda>(window, step, inheritStep).
     andThen tok (\<lambda>t'.
     if t = ''['' \<and> \<not> isOffset t' then ret (RollupExpr arg window [] step inheritStep)
     else andThen parseOffset (\<lambda>offset. ret (RollupExpr arg window offset step inheritStep)))))"

section \<open>Numbers, strings, label filters, metrics\<close>

definition parsePositiveNumberExpr :: "expr parser" where
  "parsePositiveNumberExpr =
     andThen tok (\<lambda>t.
     if \<not> isPositiveNumberPrefix t \<and> \<not> isInfOrNaN t then
       failf ''positiveNumberExpr: unexpected token %q; want \"number\"'' [t]
     else case ParseFloat t of
       Inl e \<Rightarrow> fail (Wrapf ''positiveNumberExpr: cannot parse %q: %s'' [t] e)
     | Inr n \<Rightarrow> andThen Next (\<lambda>_. ret (NumberExpr n)))"

fun parseStringExpr_loop :: "nat \<Rightarrow> string list \<Rightarrow> string list parser" where
  "parseStringExpr_loop 0 tokens = fail OutOfFuel"
| "parseStringExpr_loop (Suc n) tokens =
     andThen tok (\<lambda>t.
     if \<not> (isStringPrefix t \<or> isIdentPrefix t) then
       failf ''StringExpr: unexpected token %q; want \"string\"'' [t]
     else let tokens = tokens @ [t] in
     andThen nextTok (\<lambda>t.
     if t \<noteq> ''+'' then ret tokens
     else
     andThen nextTok (\<lambda>t.
     if isStringPrefix t then parseStringExpr_loop n tokens
     else if \<not> isIdentPrefix t then andThen Prev (\<lambda>_. ret tokens)
     else
     andThen nextTok (\<lambda>t.
     if t = ''('' \<or> t = ''{'' then andThen Prev (\<lambda>_. andThen Prev (\<lambda>_. ret tokens))
     else andThen Prev (\<lambda>_. parseStringExpr_loop n tokens)))))"

definition parseStringExpr :: "nat \<Rightarrow> (string \<times> string list) parser" where
  "parseStringExpr n = andThen (parseStringExpr_loop n []) (\<lambda>tokens. ret ([], tokens))"

definition parseLabelFilterExpr :: "nat \<Rightarrow> labelFilterExpr parser" where
  "parseLabelFilterExpr n =
     andThen tok (\<lambda>t.
     if \<not> isIdentPrefix t then failf ''labelFilterExpr: unexpected token %q; want \"ident\"'' [t]
     else let label = t in
     andThen nextTok (\<lambda>t.
     if t \<in> {'','', ''}''} then
       ret \<lparr>lfeLabel = label, lfeValue = None, lfeIsRegexp = False, lfeIsNegative = False\<rparr>
     else if t \<notin> {''='', ''!='', ''=~'', ''!~''} then
       failf ''labelFilterExpr: unexpected token %q; want \"=\", \"!=\", \"=~\", \"!~\", \",\", \"}\"'' [t]
     else
     andThen Next (\<lambda>_.
     andThen (parseStringExpr n) (\<lambda>se.
     ret \<lparr>lfeLabel = label, lfeValue = Some se,
          lfeIsRegexp = (t = ''=~'' \<or> t = ''!~''), lfeIsNegative = (t = ''!='' \<or> t = ''!~'')\<rparr>))))"

fun parseLabelFilters_loop :: "nat \<Rightarrow> labelFilterExpr list \<Rightarrow> labelFilterExpr list parser" where
  "parseLabelFilters_loop 0 lfes = fail OutOfFuel"
| "parseLabelFilters_loop (Suc n) lfes =
     andThen nextTok (\<lambda>t.
     if t = ''}'' then andThen Next (\<lambda>_. ret lfes)
     else
     andThen (parseLabelFilterExpr n) (\<lambda>lfe. let lfes = lfes @ [lfe] in
     andThen tok (\<lambda>t.
     if t = '','' then parseLabelFilters_loop n lfes
     else if t = ''}'' then andThen Next (\<lambda>_. ret lfes)
     else failf ''labelFilters: unexpected token %q; want \",\", \"}\"'' [t])))"

definition parseLabelFilters :: "nat \<Rightarrow> labelFilterExpr list parser" where
  "parseLabelFilters n =
     andThen tok (\<lambda>t.
     if t \<noteq> ''{'' then failf ''labelFilters: unexpected token %q; want \"{\"'' [t]
     else parseLabelFilters_loop n [])"

definition parseMetricExpr :: "golib \<Rightarrow> nat \<Rightarrow> expr parser" where
  "parseMetricExpr L n =
     andThen tok (\<lambda>t.
     if isIdentPrefix t then
       let lfe = \<lparr>lfeLabel = ''__name__'', lfeValue = Some ([], [Quote L t]),
                  lfeIsRegexp = False, lfeIsNegative = False\<rparr> in
       andThen nextTok (\<lambda>t.
       if t \<noteq> ''{'' then ret (MetricExpr 0 [] [lfe])
       else andThen (parseLabelFilters n) (\<lambda>lfes. ret (MetricExpr 0 [] (lfe # lfes))))
     else andThen (parseLabelFilters n) (\<lambda>lfes. ret (MetricExpr 0 [] lfes)))"

section \<open>Argument lists and functions\<close>

fun parseArgListExpr_loop :: "nat \<Rightarrow> expr parser \<Rightarrow> expr list \<Rightarrow> expr list parser" where
  "parseArgListExpr_loop 0 pe args = fail OutOfFuel"
| "parseArgListExpr_loop (Suc n) pe args =
     andThen nextTok (\<lambda>t.
     if t = '')'' then andThen Next (\<lambda>_. ret args)
     else
     andThen pe (\<lambda>e. let args = args @ [e] in
     andThen tok (\<lambda>t.
     if t = '','' then parseArgListExpr_loop n pe args
     else if t = '')'' then andThen Next (\<lambda>_. ret args)
     else failf ''argList: unexpected token %q; want \",\", \")\"'' [t])))"

definition parseArgListExpr :: "nat \<Rightarrow> expr parser \<Rightarrow> expr list parser" where
  "parseArgListExpr n pe =
     andThen tok (\<lambda>t.
     if t \<noteq> ''('' then failf ''argList: unexpected token %q; want \"(\"'' [t]
     else parseArgListExpr_loop n pe [])"

fun parseParensExpr_loop :: "nat \<Rightarrow> expr parser \<Rightarrow> expr list \<Rightarrow> expr parser" where
  "parseParensExpr_loop 0 pe exprs = fail OutOfFuel"
| "parseParensExpr_loop (Suc n) pe exprs =
     andThen nextTok (\<lambda>t.
     if t = '')'' then andThen Next (\<lambda>_. ret (ParensExpr exprs))
     else
     andThen pe (\<lambda>e. let exprs = exprs @ [e] in
     andThen tok (\<lambda>t.
     if t = '','' then parseParensExpr_loop n pe exprs
     else if t = '')'' then andThen Next (\<lambda>_. ret (ParensExpr exprs))
     else failf ''parensExpr: unexpected token %q; want \",\" or \")\"'' [t])))"

definition parseParensExpr :: "nat \<Rightarrow> expr parser \<Rightarrow> expr parser" where
  "parseParensExpr n pe =
     andThen tok (\<lambda>t.
     if t \<noteq> ''('' then failf ''parensExpr: unexpected token %q; want \"(\"'' [t]
     else parseParensExpr_loop n pe [])"

definition parseFuncExpr :: "nat \<Rightarrow> expr parser \<Rightarrow> expr parser" where
  "parseFuncExpr n pe =
     andThen tok (\<lambda>t.
     if \<not> isIdentPrefix t then failf ''FuncExpr: unexpected token %q; want \"ident\"'' [t]
     else let name = t in
     andThen nextTok (\<lambda>t.
     if t \<noteq> ''('' then failf ''FuncExpr; unexpected token %q; want \"(\"'' [t]
     else andThen (parseArgListExpr n pe) (\<lambda>args. ret (FuncExpr name args))))"

text \<open>The \<open>funcArgsLabel\<close> block of \<open>parseAggrFuncExpr\<close>.\<close>

definition parseAggrArgs :: "nat \<Rightarrow> expr parser \<Rightarrow> string \<Rightarrow> ModifierExpr \<Rightarrow> expr parser" where
  "parseAggrArgs n pe name modifier =
     andThen (parseArgListExpr n pe) (\<lambda>args.
     andThen tok (\<lambda>t.
     andThen (if Op modifier = [] \<and> isAggrFuncModifier t then parseModifierExpr n else ret modifier) (\<lambda>modifier.
     andThen tok (\<lambda>t.
     if ToLower t = ''limit'' then
       andThen nextTok (\<lambda>t.
       case Atoi t of
         Inl e \<Rightarrow> fail (Wrapf ''cannot parse limit %q: %s'' [t] e)
       | Inr limit \<Rightarrow> andThen Next (\<lambda>_. ret (AggrFuncExpr name args modifier limit)))
     else ret (AggrFuncExpr name args modifier 0)))))"

definition parseAggrFuncExpr :: "nat \<Rightarrow> expr parser \<Rightarrow> expr parser" where
  "parseAggrFuncExpr n pe =
     andThen tok (\<lambda>t.
     if \<not> isAggrFunc t then failf ''AggrFuncExpr: unexpected token %q; want aggregate func'' [t]
     else let name = ToLower t in
     andThen nextTok (\<lambda>t.
     if isIdentPrefix t then
       if \<not> isAggrFuncModifier t then
         failf ''AggrFuncExpr: unexpected token %q; want aggregate func modifier'' [t]
       else andThen (parseModifierExpr n) (parseAggrArgs n pe name)
     else if t = ''('' then parseAggrArgs n pe name noModifier
     else failf ''AggrFuncExpr: unexpected token %q; want \"(\"'' [t]))"

definition parseIdentExpr :: "golib \<Rightarrow> nat \<Rightarrow> expr parser \<Rightarrow> expr parser" where
  "parseIdentExpr L n pe =
     andThen nextTok (\<lambda>t.
     if isEOF t \<or> isOffset t then andThen Prev (\<lambda>_. parseMetricExpr L n)
     else if isIdentPrefix t then
       andThen Prev (\<lambda>_. andThen tok (\<lambda>t0.
       if isAggrFunc t0 then parseAggrFuncExpr n pe else parseMetricExpr L n))
     else if isBinaryOp t then andThen Prev (\<lambda>_. parseMetricExpr L n)
     else if t = ''('' then
       andThen Prev (\<lambda>_. andThen tok (\<lambda>t0.
       if isAggrFunc t0 then parseAggrFuncExpr n pe else parseFuncExpr n pe))
     else if t \<in> {''{'', ''['', '')'', '',''} then andThen Prev (\<lambda>_. parseMetricExpr L n)
     else failf ''identExpr: unexpected token %q; want \"(\", \"{\", \"[\", \")\", \",\"'' [t])"

section \<open>WITH templates\<close>

fun checkDuplicateWithArgNames :: "golib \<Rightarrow> withArgExpr list \<Rightarrow> withArgExpr list \<Rightarrow> failure option" where
  "checkDuplicateWithArgNames L m [] = None"
| "checkDuplicateWithArgNames L m (wa # was) =
     (case find (\<lambda>wb. waName wb = waName wa) m of
        Some waOld \<Rightarrow> Some (Errorf ''duplicate `with` arg name for: %s; previous one: %s''
                          [waName wa, withArgString L waOld])
      | None \<Rightarrow> checkDuplicateWithArgNames L (m @ [wa]) was)"

fun firstDuplicate :: "string list \<Rightarrow> string list \<Rightarrow> string option" where
  "firstDuplicate m [] = None"
| "firstDuplicate m (a # as) = (if a \<in> set m then Some a else firstDuplicate (a # m) as)"

definition parseWithArgExpr :: "nat \<Rightarrow> expr parser \<Rightarrow> withArgExpr parser" where
  "parseWithArgExpr n pe =
     andThen tok (\<lambda>t.
     if \<not> isIdentPrefix t then failf ''withArgExpr: unexpected token %q; want \"ident\"'' [t]
     else let name = t in
     if isAggrFunc name \<or> IsRollupFunc name \<or> IsTransformFunc name \<or> isWith name then
       failf ''withArgExpr: cannot use reserved name %q'' [name]
     else
     andThen nextTok (\<lambda>t.
     andThen
       (if t = ''('' then
          andThen (wrapErr (Wrapf ''withArgExpr: cannot parse args for %q: %s'' [name]) (parseIdentList n)) (\<lambda>args.
          case firstDuplicate [] args of
            Some arg \<Rightarrow> failf ''withArgExpr: duplicate func arg found in %q: %q'' [name, arg]
          | None \<Rightarrow> ret args)
        else ret []) (\<lambda>args.
     andThen tok (\<lambda>t.
     if t \<noteq> ''='' then failf ''withArgExpr: unexpected token %q; want \"=\"'' [t]
     else
     andThen Next (\<lambda>_.
     andThen (wrapErr (Wrapf ''withArgExpr: cannot parse %q: %s'' [name]) pe) (\<lambda>e.
     ret (WithArg name args e)))))))"

fun parseWithExpr_loop :: "nat \<Rightarrow> expr parser \<Rightarrow> withArgExpr list \<Rightarrow> withArgExpr list parser" where
  "parseWithExpr_loop 0 pe was = fail OutOfFuel"
| "parseWithExpr_loop (Suc n) pe was =
     andThen nextTok (\<lambda>t.
     if t = '')'' then ret was
     else
     andThen (parseWithArgExpr n pe) (\<lambda>wa. let was = was @ [wa] in
     andThen tok (\<lambda>t.
     if t = '','' then parseWithExpr_loop n pe was
     else if t = '')'' then ret was
     else failf ''withExpr: unexpected token %q; want \",\", \")\"'' [t])))"

definition parseWithExpr :: "golib \<Rightarrow> nat \<Rightarrow> expr parser \<Rightarrow> expr parser" where
  "parseWithExpr L n pe =
     andThen tok (\<lambda>t.
     if \<not> isWith t then failf ''withExpr: unexpected token %q; want `WITH`'' [t]
     else
     andThen nextTok (\<lambda>t.
     if t \<noteq> ''('' then failf ''withExpr: unexpected token %q; want \"(\"'' [t]
     else
     andThen (parseWithExpr_loop n pe []) (\<lambda>was.
     case checkDuplicateWithArgNames L [] was of
       Some e \<Rightarrow> fail e
     | None \<Rightarrow> andThen Next (\<lambda>_. andThen pe (\<lambda>e. ret (WithExpr was e))))))"

section \<open>Expressions\<close>

definition parseSingleExprWithoutRollupSuffix ::
    "golib \<Rightarrow> nat \<Rightarrow> expr parser \<Rightarrow> expr parser \<Rightarrow> expr parser" where
  "parseSingleExprWithoutRollupSuffix L n ps pe =
     andThen tok (\<lambda>t.
     if isPositiveNumberPrefix t \<or> isInfOrNaN t then parsePositiveNumberExpr
     else if isStringPrefix t then andThen (parseStringExpr n) (\<lambda>(s, tokens). ret (StringExpr s tokens))
     else if isIdentPrefix t then parseIdentExpr L n pe
     else if t = ''('' then parseParensExpr n pe
     else if t = ''{'' then parseMetricExpr L n
     else if t = ''-'' then
       andThen Next (\<lambda>_. andThen ps (\<lambda>e.
       ret (ParensExpr [BinaryOpExpr ''-'' False noModifier noModifier (NumberExpr zero64) e])))
     else if t = ''+'' then andThen Next (\<lambda>_. ps)
     else failf ''singleExpr: unexpected token %q; want \"(\", \"{\", \"-\", \"+\"'' [t])"

text \<open>The look-ahead of \<open>parseSingleExpr\<close> for \<open>with (\<close>: \<open>Prev\<close> is called even if \<open>Next\<close> failed.\<close>

definition peekParen :: "bool parser" where
  "peekParen lx =
     (case Next lx of (r, lx1) \<Rightarrow>
        let nextToken = Token lx1 in
        case Prev lx1 of
          (Inl e, lx2) \<Rightarrow> (Inl e, lx2)
        | (Inr _, lx2) \<Rightarrow> (Inr (r = Inr () \<and> nextToken = ''(''), lx2))"

definition parseSingleExpr_body :: "golib \<Rightarrow> nat \<Rightarrow> expr parser \<Rightarrow> expr parser \<Rightarrow> expr parser" where
  "parseSingleExpr_body L n ps pe =
     andThen tok (\<lambda>t.
     andThen (if isWith t then peekParen else ret False) (\<lambda>w.
     if w then parseWithExpr L n pe
     else
     andThen (parseSingleExprWithoutRollupSuffix L n ps pe) (\<lambda>e.
     andThen tok (\<lambda>t.
     if t \<noteq> ''['' \<and> \<not> isOffset t then ret e else parseRollupExpr e))))"

fun balanceBinaryOp :: "expr \<Rightarrow> expr" where
  "balanceBinaryOp (BinaryOpExpr op b g j (BinaryOpExpr opl bl gl jl ll lr) right) =
     (let bel = BinaryOpExpr opl bl gl jl ll lr; be = BinaryOpExpr op b g j bel right;
          lp = binaryOpPriority opl; rp = binaryOpPriority op in
      if rp < lp then be
      else if rp = lp \<and> \<not> isRightAssociativeBinaryOp op then be
      else BinaryOpExpr opl bl gl jl ll (balanceBinaryOp (BinaryOpExpr op b g j lr right)))"
| "balanceBinaryOp be = be"

text \<open>The operator at the position: its name, the \<open>bool\<close> mark and the modifiers.\<close>

definition parseBinaryOpHead :: "nat \<Rightarrow> (string \<times> bool \<times> ModifierExpr \<times> ModifierExpr) parser" where
  "parseBinaryOpHead n =
     andThen tok (\<lambda>t. let op = ToLower t in
     andThen nextTok (\<lambda>t.
     andThen
       (if isBinaryOpBoolModifier t then
          if \<not> IsBinaryOpCmp op then failf ''bool modifier cannot be applied to %q'' [op]
          else andThen Next (\<lambda>_. ret True)
        else ret False) (\<lambda>isBool.
     andThen tok (\<lambda>t.
     if isBinaryOpGroupModifier t then
       andThen (parseModifierExpr n) (\<lambda>g.
       andThen tok (\<lambda>t.
       if isBinaryOpJoinModifier t then
         if isBinaryOpLogicalSet op then failf ''modifier %q cannot be applied to %q'' [t, op]
         else andThen (parseModifierExpr n) (\<lambda>j. ret (op, isBool, g, j))
       else ret (op, isBool, g, noModifier)))
     else ret (op, isBool, noModifier, noModifier)))))"

fun parseExpr_loop :: "nat \<Rightarrow> nat \<Rightarrow> expr parser \<Rightarrow> expr \<Rightarrow> expr parser" where
  "parseExpr_loop n 0 ps e = fail OutOfFuel"
| "parseExpr_loop n (Suc k) ps e =
     andThen tok (\<lambda>t.
     if \<not> isBinaryOp t then ret e
     else
     andThen (parseBinaryOpHead n) (\<lambda>(op, isBool, g, j).
     andThen ps (\<lambda>e2.
     parseExpr_loop n k ps (balanceBinaryOp (BinaryOpExpr op isBool g j e e2)))))"

definition parseExpr_with :: "nat \<Rightarrow> expr parser \<Rightarrow> expr parser" where
  "parseExpr_with n ps = andThen ps (parseExpr_loop n n ps)"

fun parseSingleExpr :: "golib \<Rightarrow> nat \<Rightarrow> expr parser" where
  "parseSingleExpr L 0 lx = fail OutOfFuel lx"
| "parseSingleExpr L (Suc n) lx =
     parseSingleExpr_body L n (parseSingleExpr L n) (parseExpr_with n (parseSingleExpr L n)) lx"

definition parseExpr :: "golib \<Rightarrow> nat \<Rightarrow> expr parser" where
  "parseExpr L n = parseExpr_with n (parseSingleExpr L n)"

end
