(* ===== verification/PrecTree.thy ===== *)
theory PrecTree
  imports Parser
begin

text \<open>
  Operator precedence. The parser reads operators from left to right and rotates the tree after
  each one (\<open>balanceBinaryOp\<close>). The specification of the result: reading it in order gives back the
  operands and operators that were read, and every node binds looser than its children (ties
  go to the left, for \<open>^\<close> to the right). There is only one such tree, so the loop computes it.
\<close>

section \<open>In-order reading and precedence\<close>

type_synonym opMark = "string \<times> bool \<times> ModifierExpr \<times> ModifierExpr"

fun inorder :: "expr \<Rightarrow> (expr + opMark) list" where
  "inorder (BinaryOpExpr op b g j l r) = inorder l @ Inr (op, b, g, j) # inorder r"
| "inorder e = [Inl e]"

text \<open>May a tree stand to the left or to the right of an operator?\<close>

fun leftOk :: "string \<Rightarrow> expr \<Rightarrow> bool" where
  "leftOk op (BinaryOpExpr opl _ _ _ _ _) \<longleftrightarrow>
     binaryOpPriority op < binaryOpPriority opl
     \<or> binaryOpPriority op = binaryOpPriority opl \<and> \<not> isRightAssociativeBinaryOp op"
| "leftOk op e \<longleftrightarrow> True"

fun rightOk :: "string \<Rightarrow> expr \<Rightarrow> bool" where
  "rightOk op (BinaryOpExpr opr _ _ _ _ _) \<longleftrightarrow>
     binaryOpPriority op < binaryOpPriority opr
     \<or> binaryOpPriority op = binaryOpPriority opr \<and> isRightAssociativeBinaryOp op"
| "rightOk op e \<longleftrightarrow> True"

fun precTree :: "expr \<Rightarrow> bool" where
  "precTree (BinaryOpExpr op b g j l r) \<longleftrightarrow>
     op \<in> set binaryOps \<and> leftOk op l \<and> rightOk op r \<and> precTree l \<and> precTree r"
| "precTree e \<longleftrightarrow> True"

lemma not_BinaryOpExpr:
  assumes "\<not> isBinaryOpExpr e"
  shows "inorder e = [Inl e]" "leftOk op e" "rightOk op e" "precTree e"
  using assms by (cases e; simp)+

text \<open>Operators of one priority associate alike.\<close>

lemma rightAssociative_iff: "op \<in> set binaryOps \<Longrightarrow> isRightAssociativeBinaryOp op \<longleftrightarrow> binaryOpPriority op = 6"
  unfolding binaryOps_def list.set insert_iff empty_iff
  by (elim disjE) (simp_all add: isRightAssociativeBinaryOp_def binaryOpPriority_def binaryOpPriorities_def toLowerByte_def
      between_def)

lemma same_associativity:
  assumes "op \<in> set binaryOps" "op' \<in> set binaryOps" "binaryOpPriority op = binaryOpPriority op'"
  shows "isRightAssociativeBinaryOp op = isRightAssociativeBinaryOp op'"
  using assms by (simp add: rightAssociative_iff)

section \<open>Balancing\<close>

lemma inorder_balance: "inorder (balanceBinaryOp e) = inorder e"
  by (induction e rule: balanceBinaryOp.induct) (simp_all add: Let_def)

lemma balance_root:
  "\<exists>op' b' g' j' l' r'. balanceBinaryOp (BinaryOpExpr op b g j l r) = BinaryOpExpr op' b' g' j' l' r' \<and>
    (op' = op \<or> (\<exists>b'' g'' j'' l'' r''. l = BinaryOpExpr op' b'' g'' j'' l'' r''))"
  by (cases l) (auto simp: Let_def)

lemma precTree_balance:
  assumes "op \<in> set binaryOps" "precTree l" "\<not> isBinaryOpExpr r"
  shows "precTree (balanceBinaryOp (BinaryOpExpr op b g j l r))"
  using assms(2)
proof (induction l)
  case (BinaryOpExpr opl bl gl jl ll lr)
  show ?case
  proof (cases "leftOk op (BinaryOpExpr opl bl gl jl ll lr)")
    case True
    with assms BinaryOpExpr.prems show ?thesis by (auto simp: Let_def not_BinaryOpExpr)
  next
    case False
    then have low: "binaryOpPriority opl < binaryOpPriority op
      \<or> binaryOpPriority opl = binaryOpPriority op \<and> isRightAssociativeBinaryOp opl"
      using same_associativity [of op opl] assms(1) BinaryOpExpr.prems by auto
    let ?new = "balanceBinaryOp (BinaryOpExpr op b g j lr r)"
    have "precTree ?new" using BinaryOpExpr.IH(2) BinaryOpExpr.prems by simp
    moreover have "rightOk opl ?new"
      using balance_root [of op b g j lr r] low BinaryOpExpr.prems by auto
    moreover have "balanceBinaryOp (BinaryOpExpr op b g j (BinaryOpExpr opl bl gl jl ll lr) r) = BinaryOpExpr opl bl gl jl ll ?new"
      using False by (auto simp: Let_def)
    ultimately show ?thesis using BinaryOpExpr.prems by simp
  qed
qed (use assms in \<open>simp_all add: not_BinaryOpExpr\<close>)

section \<open>Uniqueness\<close>

lemma inorder_Nil [simp]: "inorder e \<noteq> []"
  by (cases e) auto

lemma inorder_singleton: "[Inl e] = inorder t \<longleftrightarrow> t = e \<and> \<not> isBinaryOpExpr t"
  by (cases t) (auto simp: Cons_eq_append_conv)

lemma root_lowest_all:
  "precTree e \<Longrightarrow> Inr (q, m) \<in> set (inorder e) \<Longrightarrow>
    \<forall>op b g j l r. e = BinaryOpExpr op b g j l r \<longrightarrow> binaryOpPriority op \<le> binaryOpPriority q"
proof (induction e)
  case (BinaryOpExpr op b g j l r)
  have "binaryOpPriority op \<le> binaryOpPriority q" if "Inr (q, m) \<in> set (inorder l)"
    using BinaryOpExpr.IH(1) BinaryOpExpr.prems(1) that by (cases l) auto
  moreover have "binaryOpPriority op \<le> binaryOpPriority q" if "Inr (q, m) \<in> set (inorder r)"
    using BinaryOpExpr.IH(2) BinaryOpExpr.prems(1) that by (cases r) auto
  ultimately show ?case using BinaryOpExpr.prems(2) by auto
qed simp_all

lemmas root_lowest = root_lowest_all [rule_format, OF _ _ refl]

lemma left_ops:
  assumes "precTree l" "leftOk op l" "Inr (q, m) \<in> set (inorder l)"
  shows "binaryOpPriority op < binaryOpPriority q
    \<or> binaryOpPriority op = binaryOpPriority q \<and> \<not> isRightAssociativeBinaryOp op"
proof (cases "isBinaryOpExpr l")
  case True
  then obtain op1 b1 g1 j1 l1 r1 where l: "l = BinaryOpExpr op1 b1 g1 j1 l1 r1" by (cases l) auto
  from root_lowest [of op1 b1 g1 j1 l1 r1 q m] assms show ?thesis by (auto simp: l)
qed (use assms in \<open>simp add: not_BinaryOpExpr\<close>)

lemma right_ops:
  assumes "precTree r" "rightOk op r" "Inr (q, m) \<in> set (inorder r)"
  shows "binaryOpPriority op < binaryOpPriority q
    \<or> binaryOpPriority op = binaryOpPriority q \<and> isRightAssociativeBinaryOp op"
proof (cases "isBinaryOpExpr r")
  case True
  then obtain op1 b1 g1 j1 l1 r1 where r: "r = BinaryOpExpr op1 b1 g1 j1 l1 r1" by (cases r) auto
  from root_lowest [of op1 b1 g1 j1 l1 r1 q m] assms show ?thesis by (auto simp: r)
qed (use assms in \<open>simp add: not_BinaryOpExpr\<close>)

lemma split_positions:
  assumes "xs @ x # ys = xs' @ x' # ys'" "length xs < length xs'"
  shows "x \<in> set xs' \<and> x' \<in> set ys"
  using assms by (auto simp: append_eq_append_conv2 Cons_eq_append_conv)

text \<open>The roots of two trees with the same reading are at the same place.\<close>

lemma root_position:
  assumes t: "precTree (BinaryOpExpr op b g j l r)" "precTree (BinaryOpExpr op' b' g' j' l' r')"
    and eq: "inorder (BinaryOpExpr op b g j l r) = inorder (BinaryOpExpr op' b' g' j' l' r')"
  shows "\<not> length (inorder l) < length (inorder l')"
proof
  assume "length (inorder l) < length (inorder l')"
  with eq have "Inr (op, b, g, j) \<in> set (inorder l')" "Inr (op', b', g', j') \<in> set (inorder r)"
    using split_positions [of "inorder l" "Inr (op, b, g, j)" "inorder r" "inorder l'" "Inr (op', b', g', j')" "inorder r'"]
    by auto
  with left_ops [of l' op' op "(b, g, j)"] right_ops [of r op op' "(b', g', j')"] t same_associativity [of op op']
  show False by auto
qed

lemma precTree_unique: "precTree t \<Longrightarrow> precTree t' \<Longrightarrow> inorder t = inorder t' \<Longrightarrow> t = t'"
proof (induction t arbitrary: t')
  case (BinaryOpExpr op b g j l r)
  show ?case
  proof (cases "isBinaryOpExpr t'")
    case True
    then obtain op' b' g' j' l' r' where t': "t' = BinaryOpExpr op' b' g' j' l' r'" by (cases t') auto
    have "length (inorder l) = length (inorder l')"
      using root_position [of op b g j l r op' b' g' j' l' r'] root_position [of op' b' g' j' l' r' op b g j l r] BinaryOpExpr.prems
      by (simp add: t' not_less le_antisym)
    with BinaryOpExpr.prems(3) have "inorder l = inorder l'" "inorder r = inorder r'" "(op, b, g, j) = (op', b', g', j')"
      by (auto simp: t')
    with BinaryOpExpr.IH [of l'] BinaryOpExpr.IH(2) [of r'] BinaryOpExpr.prems show ?thesis by (simp add: t')
  next
    case False
    with BinaryOpExpr.prems(3) have "length (inorder l @ Inr (op, b, g, j) # inorder r) = Suc 0"
      by (simp add: not_BinaryOpExpr)
    then show ?thesis by (cases "inorder l"; cases "inorder r") auto
  qed
qed (simp_all add: inorder_singleton)

text \<open>C15: when \<open>parseExpr\<close> has read one more operator and operand, \<open>balanceBinaryOp\<close> turns a tree that
  respects precedence into one that does, with the new operator and operand at the end of the
  reading; it is the only such tree.\<close>

theorem balanceBinaryOp_precedence:
  assumes "op \<in> set binaryOps" "precTree left" "\<not> isBinaryOpExpr right"
  shows "precTree (balanceBinaryOp (BinaryOpExpr op b g j left right)) \<and>
    inorder (balanceBinaryOp (BinaryOpExpr op b g j left right)) = inorder left @ [Inr (op, b, g, j), Inl right] \<and>
    (\<forall>t. precTree t \<and> inorder t = inorder left @ [Inr (op, b, g, j), Inl right] \<longrightarrow>
       t = balanceBinaryOp (BinaryOpExpr op b g j left right))"
  using precTree_balance [OF assms, of b g j] precTree_unique
  by (auto simp: inorder_balance not_BinaryOpExpr [OF assms(3)])

definition plus12 :: expr where
  "plus12 = BinaryOpExpr ''+'' False noModifier noModifier (FuncExpr ''a'' []) (FuncExpr ''b'' [])"

theorem balanceBinaryOp_precedence_witness:
  "balanceBinaryOp (BinaryOpExpr ''*'' False noModifier noModifier plus12 (FuncExpr ''c'' [])) =
     BinaryOpExpr ''+'' False noModifier noModifier (FuncExpr ''a'' [])
       (BinaryOpExpr ''*'' False noModifier noModifier (FuncExpr ''b'' []) (FuncExpr ''c'' []))"
proof -
  let ?t = "BinaryOpExpr ''+'' False noModifier noModifier (FuncExpr ''a'' [])
       (BinaryOpExpr ''*'' False noModifier noModifier (FuncExpr ''b'' []) (FuncExpr ''c'' []))"
  have "''*'' \<in> set binaryOps" "precTree plus12" by code_simp+
  moreover have "\<not> isBinaryOpExpr (FuncExpr ''c'' [])" by simp
  ultimately have u: "precTree t \<and> inorder t = inorder plus12 @ [Inr (''*'', False, noModifier, noModifier), Inl (FuncExpr ''c'' [])] \<longrightarrow>
    t = balanceBinaryOp (BinaryOpExpr ''*'' False noModifier noModifier plus12 (FuncExpr ''c'' []))" for t
    using balanceBinaryOp_precedence [THEN conjunct2, THEN conjunct2] by blast
  have "precTree ?t" by code_simp
  moreover have "inorder ?t = inorder plus12 @ [Inr (''*'', False, noModifier, noModifier), Inl (FuncExpr ''c'' [])]"
    by (simp add: plus12_def)
  ultimately show ?thesis by (intro u [rule_format, THEN sym] conjI)
qed

end
