(* ===== verification/Expand.thy ===== *)
theory Expand
  imports Parser
begin

text \<open>
  The expansion of \<open>WITH\<close> templates in \<open>src/mateql/parser.go\<close>. The state of the computations is
  the next identity for a \<open>*MetricExpr\<close>. A scope is the list of its entries; the pointer
  \<open>*withArgExpr\<close> that \<open>getWithArgExpr\<close> returns is the entry's position in the scope (the entries
  of a scope are distinct pointers: the parser allocates each once, and a scope extends a prefix
  of another by entries of one \<open>WITH\<close> or by fresh argument entries). \<open>expandWithExpr\<close> recurses on a
  bound of its depth; theory \<open>ExpandProps\<close> shows when the bound is enough.
\<close>

section \<open>Helpers\<close>

type_synonym 'a expander = "(nat, 'a) comp"

text \<open>The last entry of that name.\<close>

fun getWithArgExpr_from :: "withArgExpr list \<Rightarrow> string \<Rightarrow> nat \<Rightarrow> nat option" where
  "getWithArgExpr_from was name 0 = None"
| "getWithArgExpr_from was name (Suc i) =
     (if waName (was ! i) = name then Some i else getWithArgExpr_from was name i)"

definition getWithArgExpr :: "withArgExpr list \<Rightarrow> string \<Rightarrow> nat option" where
  "getWithArgExpr was name = getWithArgExpr_from was name (length was)"

definition newMetricExpr :: "string \<Rightarrow> expr expander" where
  "newMetricExpr name r =
     (Inr (MetricExpr r [\<lparr>Label = ''__name__'', Value = name, IsNegative = False, IsRegexp = False\<rparr>] []), Suc r)"

definition allocMetric :: "LabelFilter list \<Rightarrow> expr expander" where
  "allocMetric lfs r = (Inr (MetricExpr r lfs []), Suc r)"

definition extractStringValue :: "string \<Rightarrow> string result" where
  "extractStringValue token =
     (if \<not> isStringPrefix token then
        Inl (Errorf ''StringExpr must contain only string literals; got %q'' [token])
      else if token ! 0 = squote \<and> (length token < 2 \<or> token ! (length token - 1) \<noteq> squote) then
        Inl (Errorf ''string literal contains unexpected trailing char; got %q'' [token])
      else
        let token =
          (if token ! 0 = squote then
             let t = take (length token - 2) (drop 1 token);
                 t = ReplaceStr t [bslash, squote] [squote];
                 t = ReplaceStr t [dquote] [bslash, dquote] in
             [dquote] @ t @ [dquote]
           else token) in
        case Unquote token of
          Inl e \<Rightarrow> Inl (Wrapf ''cannot parse string literal %q: %s'' [token] e)
        | Inr s \<Rightarrow> Inr s)"

fun removeDuplicate_loop :: "golib \<Rightarrow> string list \<Rightarrow> LabelFilter list \<Rightarrow> LabelFilter list" where
  "removeDuplicate_loop L m [] = []"
| "removeDuplicate_loop L m (lf # lfs) =
     (let buf = filterString L lf in
      if buf \<in> set m then removeDuplicate_loop L m lfs
      else lf # removeDuplicate_loop L (buf # m) lfs)"

definition removeDuplicateLabelFilters :: "golib \<Rightarrow> LabelFilter list \<Rightarrow> LabelFilter list" where
  "removeDuplicateLabelFilters L lfs = removeDuplicate_loop L [] lfs"

definition CompileRegexpAnchored :: "golib \<Rightarrow> string \<Rightarrow> failure option" where
  "CompileRegexpAnchored L re = regexpCompile L (''^(?:'' @ re @ '')$'')"

definition toLabelFilter :: "golib \<Rightarrow> labelFilterExpr \<Rightarrow> LabelFilter result" where
  "toLabelFilter L lfe =
     (case lfeValue lfe of
        None \<Rightarrow> Inl (Panicf ''BUG: lfe.Value must be already expanded'')
      | Some (s, tokens) \<Rightarrow>
          if length tokens > 0 then Inl (Panicf ''BUG: lfe.Value must be already expanded'')
          else
            let label = unescapeIdent (lfeLabel lfe);
                lf = \<lparr>Label = label, Value = (if label = ''__name__'' then unescapeIdent s else s),
                      IsNegative = lfeIsNegative lfe, IsRegexp = lfeIsRegexp lfe\<rparr> in
            if \<not> IsRegexp lf then Inr lf
            else case CompileRegexpAnchored L s of
              Some e \<Rightarrow> Inl (Wrapf ''invalid regexp in %s=%q: %s'' [Label lf, Value lf] e)
            | None \<Rightarrow> Inr lf)"

section \<open>Modifier arguments\<close>

fun metricGroupArgs :: "expr list \<Rightarrow> string list option" where
  "metricGroupArgs [] = Some []"
| "metricGroupArgs (MetricExpr r lfs lfes # es) =
     (if \<not> isOnlyMetricGroup lfs then None
      else map_option (\<lambda>as. Value (lfs ! 0) # as) (metricGroupArgs es))"
| "metricGroupArgs (e # es) = None"

definition expandModifierArg :: "golib \<Rightarrow> withArgExpr list \<Rightarrow> string list \<Rightarrow> string \<Rightarrow> string list result" where
  "expandModifierArg L was args arg =
     (let bad = (\<lambda>e. Inl (Errorf ''cannot use %q instead of %q in %s'' ([exprString L e, arg] @ args))) in
      case getWithArgExpr was arg of
        None \<Rightarrow> Inr [arg]
      | Some i \<Rightarrow>
          let wa = was ! i in
          if length (waArgs wa) > 0 then Inr [arg]
          else case waExpr wa of
            MetricExpr r lfs lfes \<Rightarrow>
              if \<not> isOnlyMetricGroup lfs then bad (waExpr wa) else Inr [Value (lfs ! 0)]
          | ParensExpr es \<Rightarrow> (case metricGroupArgs es of None \<Rightarrow> bad (waExpr wa) | Some as \<Rightarrow> Inr as)
          | e \<Rightarrow> bad e)"

fun expandModifierArgs_loop ::
    "golib \<Rightarrow> withArgExpr list \<Rightarrow> string list \<Rightarrow> string list \<Rightarrow> string list result" where
  "expandModifierArgs_loop L was args0 [] = Inr []"
| "expandModifierArgs_loop L was args0 (arg # args) =
     (case expandModifierArg L was args0 arg of
        Inl e \<Rightarrow> Inl e
      | Inr as \<Rightarrow> (case expandModifierArgs_loop L was args0 args of Inl e \<Rightarrow> Inl e | Inr bs \<Rightarrow> Inr (as @ bs)))"

fun filterNew :: "string list \<Rightarrow> string list \<Rightarrow> string list" where
  "filterNew m [] = []"
| "filterNew m (a # as) = (if a \<in> set m then filterNew m as else a # filterNew (a # m) as)"

definition expandModifierArgs :: "golib \<Rightarrow> withArgExpr list \<Rightarrow> string list \<Rightarrow> string list result" where
  "expandModifierArgs L was args =
     (case expandModifierArgs_loop L was args args of Inl e \<Rightarrow> Inl e | Inr as \<Rightarrow> Inr (filterNew [] as))"

section \<open>Expressions\<close>

type_synonym expand_fun = "withArgExpr list \<Rightarrow> expr \<Rightarrow> expr expander"

definition liftResult :: "'a result \<Rightarrow> ('s, 'a) comp" where
  "liftResult r = (case r of Inl e \<Rightarrow> fail e | Inr x \<Rightarrow> ret x)"

text \<open>
  \<open>expandWithExprExt\<close> on the entry at position \<open>i\<close>; \<open>None\<close> are the \<open>nil\<close> arguments of a plain
  reference. The body sees the entries before \<open>i\<close> and its own arguments.
\<close>

definition expandWithExprExt ::
    "expand_fun \<Rightarrow> withArgExpr list \<Rightarrow> nat \<Rightarrow> expr list option \<Rightarrow> expr expander" where
  "expandWithExprExt ew was i args =
     (let wa = was ! i; as = (case args of None \<Rightarrow> [] | Some as \<Rightarrow> as) in
      if length (waArgs wa) \<noteq> length as then
        (if args = None then newMetricExpr (waName wa)
         else fail (Errorf ''invalid number of args for %q; got %d; want %d''
                [waName wa, natDec (length as), natDec (length (waArgs wa))]))
      else ew (take i was @ map (\<lambda>(n, a). WithArg n [] a) (zip (waArgs wa) as)) (waExpr wa))"

fun expandTokens :: "expand_fun \<Rightarrow> golib \<Rightarrow> withArgExpr list \<Rightarrow> string list \<Rightarrow> string \<Rightarrow> expr expander" where
  "expandTokens ew L was [] b = ret (StringExpr b [])"
| "expandTokens ew L was (token # tokens) b =
     (if isStringPrefix token then
        andThen (liftResult (extractStringValue token)) (\<lambda>s. expandTokens ew L was tokens (b @ s))
      else case getWithArgExpr was token of
        None \<Rightarrow> fail (Errorf ''missing %q value inside StringExpr'' [token])
      | Some i \<Rightarrow>
          andThen (expandWithExprExt ew was i None) (\<lambda>eNew.
          case eNew of
            StringExpr s tks \<Rightarrow>
              if length tks > 0 then fail (Panicf ''BUG: seSrc.tokens must be empty'')
              else expandTokens ew L was tokens (b @ s)
          | _ \<Rightarrow> fail (Errorf ''%q must be string expression; got %q'' [token, exprString L eNew])))"

fun expandFilters :: "expand_fun \<Rightarrow> golib \<Rightarrow> withArgExpr list \<Rightarrow> labelFilterExpr list \<Rightarrow> LabelFilter list
    \<Rightarrow> LabelFilter list expander" where
  "expandFilters ew L was [] acc = ret acc"
| "expandFilters ew L was (lfe # lfes) acc =
     (case lfeValue lfe of
        None \<Rightarrow>
          (case getWithArgExpr was (lfeLabel lfe) of
             None \<Rightarrow> fail (Errorf ''missing %q value inside %q'' [lfeLabel lfe, metricString L []])
           | Some i \<Rightarrow>
               andThen (expandWithExprExt ew was i None) (\<lambda>eNew.
               case eNew of
                 MetricExpr r lfs ls \<Rightarrow>
                   if hasNonEmptyMetricGroup lfs then
                     fail (Errorf ''%q must be filters expression inside %q; got %q''
                            [lfeLabel lfe, metricString L [], exprString L eNew])
                   else if length ls > 0 then fail (Panicf ''BUG: wme.labelFilters must be empty'')
                   else expandFilters ew L was lfes (acc @ lfs)
               | _ \<Rightarrow> fail (Errorf ''%q must be filters expression inside %q; got %q''
                            [lfeLabel lfe, metricString L [], exprString L eNew])))
      | Some (s, tokens) \<Rightarrow>
          andThen (ew was (StringExpr s tokens)) (\<lambda>se.
          case se of
            StringExpr s' tokens' \<Rightarrow>
              andThen (liftResult (toLabelFilter L (lfe\<lparr>lfeValue := Some (s', tokens')\<rparr>))) (\<lambda>lf.
              expandFilters ew L was lfes (acc @ [lf]))
          | _ \<Rightarrow> fail (Panicf ''interface conversion'')))"

text \<open>The second half of the \<open>*MetricExpr\<close> case: a metric name that is itself a template.\<close>

definition expandMetricName ::
    "expand_fun \<Rightarrow> golib \<Rightarrow> withArgExpr list \<Rightarrow> expr \<Rightarrow> LabelFilter list \<Rightarrow> expr expander" where
  "expandMetricName ew L was t lfs =
     (if \<not> hasNonEmptyMetricGroup lfs then ret t
      else case getWithArgExpr was (appendEscapedIdent [] (Value (lfs ! 0))) of
        None \<Rightarrow> ret t
      | Some i \<Rightarrow>
          andThen (expandWithExprExt ew was i None) (\<lambda>eNew.
          let noMetric =
                (if \<not> isOnlyMetricGroup lfs then
                   fail (Errorf ''cannot expand %q to non-metric expression %q''
                          [exprString L t, exprString L eNew])
                 else ret eNew);
              merge = (\<lambda>wlfs. removeDuplicateLabelFilters L (wlfs @ drop 1 lfs)) in
          case eNew of
            RollupExpr e' w off st ih \<Rightarrow>
              (case e' of
                 MetricExpr r' wlfs ls \<Rightarrow>
                   if length ls > 0 then fail (Panicf ''BUG: wme.labelFilters must be empty'')
                   else andThen (allocMetric (merge wlfs)) (\<lambda>me. ret (RollupExpr me w off st ih))
               | _ \<Rightarrow> noMetric)
          | MetricExpr r' wlfs ls \<Rightarrow>
              if length ls > 0 then fail (Panicf ''BUG: wme.labelFilters must be empty'')
              else allocMetric (merge wlfs)
          | _ \<Rightarrow> noMetric))"

fun expandWithExpr :: "golib \<Rightarrow> nat \<Rightarrow> withArgExpr list \<Rightarrow> expr \<Rightarrow> expr expander" where
  "expandWithExpr L 0 was e = fail OutOfFuel"
| "expandWithExpr L (Suc n) was e =
     (case e of
        BinaryOpExpr op isBool g j l r \<Rightarrow>
          andThen (expandWithExpr L n was l) (\<lambda>left.
          andThen (expandWithExpr L n was r) (\<lambda>right.
          andThen (liftResult (expandModifierArgs L was (Args g))) (\<lambda>groupArgs.
          andThen (liftResult (expandModifierArgs L was (Args j))) (\<lambda>joinArgs.
          let be = ret (ParensExpr [BinaryOpExpr op isBool (g\<lparr>Args := groupArgs\<rparr>) (j\<lparr>Args := joinArgs\<rparr>) left right]) in
          if op = ''+'' then
            (case (left, right) of
               (StringExpr ls _, StringExpr rs _) \<Rightarrow> ret (StringExpr (ls @ rs) [])
             | _ \<Rightarrow> be)
          else be))))
      | FuncExpr name args0 \<Rightarrow>
          andThen (mapM (expandWithExpr L n was) args0) (\<lambda>args.
          case getWithArgExpr was name of
            None \<Rightarrow> ret (FuncExpr name args)
          | Some i \<Rightarrow> expandWithExprExt (expandWithExpr L n) was i (Some args))
      | AggrFuncExpr name args0 modifier limit \<Rightarrow>
          andThen (mapM (expandWithExpr L n was) args0) (\<lambda>args.
          andThen (liftResult (expandModifierArgs L was (Args modifier))) (\<lambda>margs.
          ret (AggrFuncExpr name args (modifier\<lparr>Args := margs\<rparr>) limit)))
      | ParensExpr es0 \<Rightarrow>
          andThen (mapM (expandWithExpr L n was) es0) (\<lambda>es. ret (ParensExpr es))
      | StringExpr s tokens \<Rightarrow>
          if length s > 0 then ret e else expandTokens (expandWithExpr L n) L was tokens []
      | RollupExpr e0 window offset step inheritStep \<Rightarrow>
          andThen (expandWithExpr L n was e0) (\<lambda>eNew. ret (RollupExpr eNew window offset step inheritStep))
      | WithExpr ws e0 \<Rightarrow> expandWithExpr L n (was @ ws) e0
      | MetricExpr r lfs lfes \<Rightarrow>
          if length lfs > 0 then ret e
          else
            andThen (expandFilters (expandWithExpr L n) L was lfes []) (\<lambda>lfs.
            let lfs = removeDuplicateLabelFilters L lfs in
            andThen (allocMetric lfs) (\<lambda>t.
            expandMetricName (expandWithExpr L n) L was t lfs))
      | NumberExpr x \<Rightarrow> ret e)"

end
