(* ===== verification/Simplify.thy ===== *)
theory Simplify
  imports Expand
begin

text \<open>
  The passes after expansion (\<open>removeParensExpr\<close>, \<open>simplifyConstants\<close>), the default templates, and
  the entry points \<open>Parse\<close> (\<open>src/mateql/parser.go\<close>) and \<open>ExpandWithExprs\<close>
  (\<open>src/mateql/utils.go\<close>).
\<close>

section \<open>Parentheses and constants\<close>

text \<open>The passes write to the nodes in place; no other node shares them (metrics are left alone).\<close>

fun removeParensExpr :: "expr \<Rightarrow> expr" where
  "removeParensExpr (RollupExpr e w off st ih) = RollupExpr (removeParensExpr e) w off st ih"
| "removeParensExpr (BinaryOpExpr op b g j l r) = BinaryOpExpr op b g j (removeParensExpr l) (removeParensExpr r)"
| "removeParensExpr (AggrFuncExpr name args m lim) = AggrFuncExpr name (map removeParensExpr args) m lim"
| "removeParensExpr (FuncExpr name args) = FuncExpr name (map removeParensExpr args)"
| "removeParensExpr (ParensExpr es) =
     (let args = map removeParensExpr es in
      if length es = 1 then args ! 0 else FuncExpr [] args)"
| "removeParensExpr e = e"

fun simplifyConstants :: "golib \<Rightarrow> expr \<Rightarrow> ('s, expr) comp" where
  "simplifyConstants L (RollupExpr e w off st ih) =
     andThen (simplifyConstants L e) (\<lambda>e. ret (RollupExpr e w off st ih))"
| "simplifyConstants L (AggrFuncExpr name args m lim) =
     andThen (mapM (simplifyConstants L) args) (\<lambda>args. ret (AggrFuncExpr name args m lim))"
| "simplifyConstants L (FuncExpr name args) =
     andThen (mapM (simplifyConstants L) args) (\<lambda>args. ret (FuncExpr name args))"
| "simplifyConstants L (ParensExpr es) =
     andThen (mapM (simplifyConstants L) es) (\<lambda>args.
     ret (if length es = 1 then args ! 0 else ParensExpr args))"
| "simplifyConstants L (BinaryOpExpr op isBool g j l r) =
     andThen (simplifyConstants L l) (\<lambda>left.
     andThen (simplifyConstants L r) (\<lambda>right.
     case (left, right) of
       (NumberExpr x, NumberExpr y) \<Rightarrow>
         andThen (liftResult (binaryOpEval L op x y isBool)) (\<lambda>n. ret (NumberExpr n))
     | _ \<Rightarrow> ret (BinaryOpExpr op isBool g j left right)))"
| "simplifyConstants L e = ret e"

section \<open>Parsing\<close>

text \<open>Enough depth for an input: one level per token, see theory \<open>ParserProps\<close>.\<close>

definition parseFuel :: "string \<Rightarrow> nat" where
  "parseFuel s = length s + 2"

definition emptyLexer :: lexer where
  "emptyLexer = \<lparr>Token = [], prevTokens = [], nextTokens = [], sOrig = [], sTail = [], lexErr = None\<rparr>"

definition mustParseWithArgExpr :: "golib \<Rightarrow> string \<Rightarrow> withArgExpr result" where
  "mustParseWithArgExpr L s =
     (case andThen Next (\<lambda>_. parseWithArgExpr (parseFuel s) (parseExpr L (parseFuel s))) (Init s emptyLexer) of
        (Inl e, lx) \<Rightarrow> Inl (Panicf ''BUG: cannot parse'')
      | (Inr wa, lx) \<Rightarrow> Inr wa)"

fun mustParseAll :: "golib \<Rightarrow> string list \<Rightarrow> withArgExpr list result" where
  "mustParseAll L [] = Inr []"
| "mustParseAll L (s # ss) =
     (case mustParseWithArgExpr L s of
        Inl e \<Rightarrow> Inl e
      | Inr wa \<Rightarrow> (case mustParseAll L ss of Inl e \<Rightarrow> Inl e | Inr was \<Rightarrow> Inr (wa # was)))"

definition prepareWithArgExprs :: "golib \<Rightarrow> string list \<Rightarrow> withArgExpr list result" where
  "prepareWithArgExprs L ss =
     (case mustParseAll L ss of
        Inl e \<Rightarrow> Inl e
      | Inr was \<Rightarrow>
          (case checkDuplicateWithArgNames L [] was of
             Some e \<Rightarrow> Inl (Panicf ''BUG: duplicate arg name'')
           | None \<Rightarrow> Inr was))"

definition defaultTemplates :: "string list" where
  "defaultTemplates =
     [''ru(freev, maxv) = clamp_min(maxv - clamp_min(freev, 0), 0) / clamp_min(maxv, 0) * 100'',
      ''ttf(freev) = smooth_exponential('' @ newline # replicate 4 CHR 0x09
        @ ''clamp_max(clamp_max(-freev, 0) / clamp_max(deriv_fast(freev), 0), 365*24*3600),'' @ newline # replicate 4 CHR 0x09
        @ ''clamp_max(step()/300, 1)'' @ newline # replicate 3 CHR 0x09
        @ '')'',
      ''median_over_time(m) = quantile_over_time(0.5, m)'',
      ''range_median(q) = range_quantile(0.5, q)'',
      ''alias(q, name) = label_set(q, \"__name__\", name)'']"

definition getDefaultWithArgExprs :: "golib \<Rightarrow> withArgExpr list result" where
  "getDefaultWithArgExprs L = prepareWithArgExprs L defaultTemplates"

text \<open>\<open>n\<close> bounds the depth of the expansion; the result does not depend on it once it is enough.\<close>

definition parseString :: "golib \<Rightarrow> string \<Rightarrow> expr result" where
  "parseString L s =
     (case Next (Init s emptyLexer) of
        (Inl e, lx) \<Rightarrow> Inl (Wrapf ''cannot find the first token: %s'' [] e)
      | (Inr _, lx) \<Rightarrow>
          (case parseExpr L (parseFuel s) lx of
             (Inl e, lx) \<Rightarrow> Inl (if e = OutOfFuel \<or> isPanic e then e
                                else Wrapf ''%s; unparsed data: %q'' [Context lx] e)
           | (Inr e, lx) \<Rightarrow>
               if \<not> isEOF (Token lx) then Inl (Errorf ''unparsed data left: %q'' [Context lx])
               else Inr e))"

definition Parse :: "golib \<Rightarrow> nat \<Rightarrow> string \<Rightarrow> expr result" where
  "Parse L n s =
     (case parseString L s of
        Inl e \<Rightarrow> Inl e
      | Inr e \<Rightarrow>
          (case getDefaultWithArgExprs L of
             Inl err \<Rightarrow> Inl err
           | Inr was \<Rightarrow>
               fst (andThen
                 (wrapErr (Wrapf ''cannot expand WITH expressions: %s'' []) (expandWithExpr L n was e))
                 (\<lambda>e. simplifyConstants L (removeParensExpr e)) 0)))"

definition ExpandWithExprs :: "golib \<Rightarrow> nat \<Rightarrow> string \<Rightarrow> string result" where
  "ExpandWithExprs L n q =
     (case Parse L n q of Inl e \<Rightarrow> Inl e | Inr e \<Rightarrow> Inr (exprString L e))"

end
