(* ===== verification/Fuel.thy ===== *)
theory Fuel
  imports Prelude
begin

text \<open>
  The order of computations by fuel: \<open>m\<close> is below \<open>m'\<close> when \<open>m'\<close> does what \<open>m\<close> does wherever
  \<open>m\<close> does not run out of fuel. The combinators are monotone, so a recursion on a bound is: more
  of it changes no result that a smaller bound had reached.
\<close>

definition below :: "('s, 'a) comp \<Rightarrow> ('s, 'a) comp \<Rightarrow> bool" where
  "below m m' \<longleftrightarrow> (\<forall>s. fst (m s) = Inl OutOfFuel \<or> m s = m' s)"

lemma belowD: "below m m' \<Longrightarrow> m s = (r, t) \<Longrightarrow> r \<noteq> Inl OutOfFuel \<Longrightarrow> m' s = (r, t)"
  by (metis below_def fst_conv)

lemma below_refl [simp]: "below m m"
  by (simp add: below_def)

lemma below_trans: "below l m \<Longrightarrow> below m n \<Longrightarrow> below l n"
  unfolding below_def by metis

named_theorems below_intros "monotonicity of the combinators"

lemma below_bottom [simp, below_intros]: "below (fail OutOfFuel) m"
  by (simp add: below_def fail_def)

lemma below_andThen [below_intros]:
  assumes "below m m'" "\<And>x. below (f x) (f' x)"
  shows "below (andThen m f) (andThen m' f')"
  unfolding below_def
proof
  fix s
  show "fst (andThen m f s) = Inl OutOfFuel \<or> andThen m f s = andThen m' f' s"
  proof (cases "m s")
    case (Pair r t)
    show ?thesis
    proof (cases "r = Inl OutOfFuel")
      case True
      with Pair show ?thesis by (simp add: andThen_def)
    next
      case False
      with Pair have "m' s = (r, t)" using belowD [OF assms(1)] by blast
      moreover have "fst (f x t) = Inl OutOfFuel \<or> f x t = f' x t" for x
        using assms(2) [of x] by (simp add: below_def)
      ultimately show ?thesis using Pair by (cases r) (simp_all add: andThen_def)
    qed
  qed
qed

lemma below_wrapErr [below_intros]:
  assumes "below m m'"
  shows "below (wrapErr w m) (wrapErr w m')"
  unfolding below_def
proof
  fix s
  show "fst (wrapErr w m s) = Inl OutOfFuel \<or> wrapErr w m s = wrapErr w m' s"
    using assms [unfolded below_def, rule_format, of s]
  proof (elim disjE)
    assume "fst (m s) = Inl OutOfFuel"
    then show ?thesis by (cases "m s") (simp add: wrapErr_def)
  qed (simp add: wrapErr_def)
qed

lemma below_if [below_intros]:
  "(b \<Longrightarrow> below m m') \<Longrightarrow> (\<not> b \<Longrightarrow> below n n') \<Longrightarrow> below (if b then m else n) (if b then m' else n')"
  by simp

lemma below_mapM [below_intros]:
  "(\<And>x. x \<in> set xs \<Longrightarrow> below (f x) (f' x)) \<Longrightarrow> below (mapM f xs) (mapM f' xs)"
  by (induction xs) (auto intro!: below_andThen)

lemma below_chain:
  assumes step: "\<And>n. below (f n) (f (Suc n))" and le: "n \<le> n'"
  shows "below (f n) (f n')"
  using le by (induction rule: dec_induct) (auto intro: step below_trans)

end
