(* ===== verification/ParserProps.thy ===== *)
theory ParserProps
  imports Simplify Fuel LexerProps
begin

text \<open>
  The parser terminates and never panics: with one more unit of fuel than the input has tokens,
  every parse method ends in a result or in an ordinary error. The measure is the number of tokens
  from the current one on; each method that succeeds has consumed at least one.
\<close>

section \<open>The measure\<close>

named_theorems nonempty "tokens of a kind are not empty"
named_theorems ends "rules that carry \<open>ends\<close> through a computation"

definition weight :: "lexer \<Rightarrow> nat" where
  "weight lx = length (filter (\<lambda>t. t \<noteq> []) (Token lx # lexRest lx))"

definition plainError :: "failure \<Rightarrow> bool" where
  "plainError e \<longleftrightarrow> \<not> isPanic e \<and> e \<noteq> OutOfFuel"

lemma plainError_simps [simp]:
  "plainError (Errorf f as)" "plainError (Wrapf f as e)" "\<not> plainError (Panicf m)" "\<not> plainError OutOfFuel"
  by (simp_all add: plainError_def)

lemma weight_pos: "Token lx \<noteq> [] \<Longrightarrow> 0 < weight lx"
  by (simp add: weight_def)

lemma Next_ok:
  assumes "lexErr lx = None" "Next lx = (Inr u, lx')"
  shows "lexErr lx' = None" "prevTokens lx' = prevTokens lx @ [Token lx]"
    "weight lx' + (if Token lx = [] then 0 else 1) = weight lx"
proof -
  have ok: "lexOk lx" using assms(1) by (simp add: lexOk_def)
  consider t ts where "lexRest lx = t # ts" | "lexRest lx = []" "lexEnding lx = None"
    | e where "lexRest lx = []" "lexEnding lx = Some e" by (cases "lexRest lx"; cases "lexEnding lx") auto
  then have "lexErr lx' = None \<and> prevTokens lx' = prevTokens lx @ [Token lx] \<and>
    weight lx' + (if Token lx = [] then 0 else 1) = weight lx"
  proof cases
    case 1
    from lz.adv_Cons [OF ok 1] assms(2) 1 show ?thesis by (auto simp: weight_def lexOk_def)
  next
    case 2
    from lz.adv_eof [OF ok 2] assms(2) 2 show ?thesis by (auto simp: weight_def lexOk_def)
  next
    case 3
    from lz.adv_err [OF ok 3] assms(2) show ?thesis by auto
  qed
  then show "lexErr lx' = None" "prevTokens lx' = prevTokens lx @ [Token lx]"
    "weight lx' + (if Token lx = [] then 0 else 1) = weight lx" by blast+
qed

lemma Next_error:
  assumes "lexErr lx = None" "Next lx = (Inl e, lx')"
  shows "plainError e" "prevTokens lx' = prevTokens lx @ [Token lx]" "lexErr lx' = Some e"
  using assms next_token_no_panic [of "sTail lx"]
  by (auto simp: Next_def Let_def plainError_def split: if_splits prod.splits sum.splits)

lemma Prev_ok:
  assumes "lexErr lx = None" "prevTokens lx = p @ [t]"
  obtains lx' where "Prev lx = (Inr (), lx')" "lexErr lx' = None" "prevTokens lx' = p" "Token lx' = t"
    "weight lx' = weight lx + (if t = [] then 0 else 1)"
proof -
  have "lexOk lx" using assms(1) by (simp add: lexOk_def)
  from lz.back_snoc [OF this assms(2)] that show ?thesis by (auto simp: weight_def lexOk_def)
qed

section \<open>Computations that end\<close>

text \<open>
  \<open>ends W m lx\<close>: run from \<open>lx\<close>, \<open>m\<close> fails with an ordinary error, or succeeds in a state with
  fewer than \<open>W\<close> tokens left.
\<close>

definition ends :: "nat \<Rightarrow> 'a parser \<Rightarrow> lexer \<Rightarrow> bool" where
  "ends W m lx \<longleftrightarrow> (case m lx of (Inl e, lx') \<Rightarrow> plainError e | (Inr x, lx') \<Rightarrow> lexErr lx' = None \<and> weight lx' < W)"

lemma ends_ret [ends]: "lexErr lx = None \<Longrightarrow> weight lx < W \<Longrightarrow> ends W (ret x) lx"
  by (simp add: ends_def ret_def)

lemma ends_fail [ends]: "plainError e \<Longrightarrow> ends W (fail e) lx"
  by (simp add: ends_def fail_def)

lemma ends_failf [ends]: "ends W (failf f as) lx"
  by (simp add: failf_def ends_fail)

lemma ends_mono: "ends W m lx \<Longrightarrow> W \<le> W' \<Longrightarrow> ends W' m lx"
  by (auto simp: ends_def split: prod.splits sum.splits)

lemma ends_andThen:
  assumes "ends W1 m lx" "\<And>x lx'. lexErr lx' = None \<Longrightarrow> weight lx' < W1 \<Longrightarrow> ends W (f x) lx'"
  shows "ends W (andThen m f) lx"
proof (cases "m lx")
  case (Pair r lx')
  with assms show ?thesis by (cases r) (auto simp: ends_def andThen_def)
qed

lemma ends_wrap: "ends W m lx \<Longrightarrow> (\<And>e. plainError (w e)) \<Longrightarrow> ends W (wrapErr w m) lx"
  by (auto simp: ends_def wrapErr_def plainError_def split: prod.splits sum.splits failure.splits)

lemma ends_tok [ends]: "ends W (f (Token lx)) lx \<Longrightarrow> ends W (andThen tok f) lx"
  by (simp add: ends_def andThen_def tok_def)

lemma ends_Next [ends]:
  assumes "lexErr lx = None"
    and "\<And>u lx'. lexErr lx' = None \<Longrightarrow> prevTokens lx' = prevTokens lx @ [Token lx] \<Longrightarrow>
      weight lx' + (if Token lx = [] then 0 else 1) = weight lx \<Longrightarrow> ends W (f u) lx'"
  shows "ends W (andThen Next f) lx"
proof (cases "Next lx")
  case (Pair r lx')
  show ?thesis
  proof (cases r)
    case (Inl e)
    with Pair Next_error(1) [OF assms(1)] show ?thesis by (simp add: ends_def andThen_def)
  next
    case (Inr u)
    with Pair have n: "Next lx = (Inr u, lx')" by simp
    from assms(2) [OF Next_ok [OF assms(1) n], of u] n show ?thesis by (simp add: ends_def andThen_def)
  qed
qed

lemma ends_nextTok [ends]:
  assumes "lexErr lx = None"
    and "\<And>lx'. lexErr lx' = None \<Longrightarrow> prevTokens lx' = prevTokens lx @ [Token lx] \<Longrightarrow>
      weight lx' + (if Token lx = [] then 0 else 1) = weight lx \<Longrightarrow> ends W (f (Token lx')) lx'"
  shows "ends W (andThen nextTok f) lx"
  unfolding nextTok_def andThen_assoc
  by (rule ends_Next [OF assms(1)]) (rule ends_tok, rule assms(2))

lemma ends_Prev:
  assumes "lexErr lx = None" "prevTokens lx = p @ [t]"
    and "\<And>u lx'. lexErr lx' = None \<Longrightarrow> prevTokens lx' = p \<Longrightarrow> Token lx' = t \<Longrightarrow>
      weight lx' = weight lx + (if t = [] then 0 else 1) \<Longrightarrow> ends W (f u) lx'"
  shows "ends W (andThen Prev f) lx"
proof -
  obtain lx' where lx': "Prev lx = (Inr (), lx')" "lexErr lx' = None" "prevTokens lx' = p" "Token lx' = t"
    "weight lx' = weight lx + (if t = [] then 0 else 1)" using Prev_ok [OF assms(1,2)] by blast
  from assms(3) [OF lx'(2-5)] lx'(1) show ?thesis by (simp add: ends_def andThen_def)
qed

lemma isIdentPrefix_Nil [nonempty]: "\<not> isIdentPrefix []" by auto
lemma isStringPrefix_Nil [nonempty]: "\<not> isStringPrefix []" by auto
lemma isOffset_Nil [nonempty]: "\<not> isOffset []" by (auto simp: isOffset_def)
lemma isPositiveDuration_Nil [nonempty]: "\<not> isPositiveDuration []"
  by (auto simp: isPositiveDuration_def scanDuration_def)
lemma isPositiveNumberPrefix_Nil [nonempty]: "\<not> isPositiveNumberPrefix []" by auto
lemma isInfOrNaN_Nil [nonempty]: "\<not> isInfOrNaN []" by (auto simp: isInfOrNaN_def)
lemma isBinaryOp_Nil [nonempty]: "\<not> isBinaryOp []"
  by (auto simp: isBinaryOp_def binaryOps_def)
lemma isAggrFunc_Nil [nonempty]: "\<not> isAggrFunc []"
  by (auto simp: isAggrFunc_def aggrFuncs_def)
lemma isWith_Nil [nonempty]: "\<not> isWith []" by (auto simp: isWith_def)

lemma isBinaryOpBoolModifier_Nil [nonempty]: "\<not> isBinaryOpBoolModifier []" by (simp add: isBinaryOpBoolModifier_def)
lemma Atoi_Nil [nonempty]: "Atoi [] \<noteq> Inr n" by (simp add: Atoi_def Let_def)

lemma andThen_failf [simp]: "andThen (failf f as) g = failf f as"
  by (simp add: failf_def)

lemma ends_if [ends]:
  "(b \<Longrightarrow> ends W m lx) \<Longrightarrow> (\<not> b \<Longrightarrow> ends W m' lx) \<Longrightarrow> ends W (if b then m else m') lx"
  by simp

lemma ends_if_ret [ends]:
  assumes "b \<Longrightarrow> ends W (andThen m f) lx" "\<not> b \<Longrightarrow> ends W (f x) lx"
  shows "ends W (andThen (if b then m else ret x) f) lx"
  using assms by simp

lemma ends_if_ret' [ends]:
  assumes "b \<Longrightarrow> ends W (f x) lx" "\<not> b \<Longrightarrow> ends W (andThen m f) lx"
  shows "ends W (andThen (if b then ret x else m) f) lx"
  using assms by simp

lemma ends_bind:
  assumes "ends (weight lx) m lx"
    and "\<And>x lx'. lexErr lx' = None \<Longrightarrow> weight lx' < weight lx \<Longrightarrow> ends W (f x) lx'"
  shows "ends W (andThen m f) lx"
  using assms by (rule ends_andThen)

lemma ends_le:
  assumes "ends (weight lx) m lx" "weight lx \<le> W"
  shows "ends W m lx"
  using assms by (rule ends_mono)

text \<open>One step on a token that is not empty.\<close>

lemma ends_step:
  assumes "lexErr lx = None" "Token lx \<noteq> []"
    and "\<And>lx'. lexErr lx' = None \<Longrightarrow> prevTokens lx' = prevTokens lx @ [Token lx] \<Longrightarrow>
      weight lx = Suc (weight lx') \<Longrightarrow> ends W (f (Token lx')) lx'"
  shows "ends W (andThen nextTok f) lx"
  using assms by (intro ends_nextTok) auto

lemma ends_skip:
  assumes "lexErr lx = None" "Token lx \<noteq> []"
    and "\<And>u lx'. lexErr lx' = None \<Longrightarrow> prevTokens lx' = prevTokens lx @ [Token lx] \<Longrightarrow>
      weight lx = Suc (weight lx') \<Longrightarrow> ends W (f u) lx'"
  shows "ends W (andThen Next f) lx"
  using assms by (intro ends_Next) auto

section \<open>The methods without recursion\<close>

lemmas parse_intros = ends_ret ends_failf ends_if ends_if_ret ends_if_ret' ends_tok ends_step ends_skip

lemma ends_identList_loop:
  "lexErr lx = None \<Longrightarrow> Token lx \<noteq> [] \<Longrightarrow> weight lx \<le> n \<Longrightarrow> ends (weight lx) (parseIdentList_loop n idents) lx"
proof (induction n arbitrary: idents lx)
  case (Suc n)
  have "ends (weight lx) (parseIdentList_loop n is) lx'"
    if "lexErr lx' = None" "Token lx' \<noteq> []" "weight lx' < weight lx" for "is" lx'
    using Suc.IH [OF that(1,2), of "is"] that(3) Suc.prems(3) by (auto intro: ends_le)
  with Suc.prems(1,2) show ?case
    by (auto simp: Let_def nonempty intro!: parse_intros)
qed (use weight_pos in force)

lemma ends_identList:
  assumes "lexErr lx = None" "weight lx \<le> n"
  shows "ends (weight lx) (parseIdentList n) lx"
  unfolding parseIdentList_def using assms
  by (auto intro!: parse_intros ends_identList_loop)

lemma ends_modifier:
  assumes "lexErr lx = None" "weight lx \<le> n"
  shows "ends (weight lx) (parseModifierExpr n) lx"
  unfolding parseModifierExpr_def using assms
  by (auto simp: Let_def nonempty intro!: parse_intros ends_bind [OF ends_identList])

lemma ends_duration:
  assumes "lexErr lx = None"
  shows "ends (weight lx) parseDuration lx"
  unfolding parseDuration_def using assms
  by (auto simp: Let_def nonempty intro!: parse_intros)

lemma ends_positiveDuration:
  assumes "lexErr lx = None"
  shows "ends (weight lx) parsePositiveDuration lx"
  unfolding parsePositiveDuration_def using assms
  by (auto intro!: parse_intros ends_bind [OF ends_duration])

lemma ends_offset:
  assumes "lexErr lx = None"
  shows "ends (weight lx) parseOffset lx"
  unfolding parseOffset_def using assms
  by (auto simp: nonempty intro!: parse_intros ends_le [OF ends_duration])

lemma lexRest_Token [simp]: "lexRest (lx\<lparr>Token := t\<rparr>) = lexRest lx"
  by (simp add: lexRest_def)

lemma ends_step_suffix:
  assumes "lexErr lx = None"
    and "\<And>si lx'. lexErr lx' = None \<Longrightarrow> weight lx' \<le> weight lx \<Longrightarrow> ends W (f si) lx'"
  shows "ends W (andThen
       (andThen (modifyS (\<lambda>lx. lx\<lparr>Token := drop (Suc 0) (Token lx)\<rparr>)) (\<lambda>_.
        andThen tok (\<lambda>t.
        andThen (if t = [] then andThen nextTok (\<lambda>t. ret (t = '']'')) else ret False) (\<lambda>inheritStep.
        andThen tok (\<lambda>t.
        andThen (if t \<noteq> '']'' then parsePositiveDuration else ret []) (\<lambda>step.
        ret (step, inheritStep))))))) f) lx"
proof -
  let ?lx = "lx\<lparr>Token := drop (Suc 0) (Token lx)\<rparr>"
  have m: "ends W (andThen (modifyS (\<lambda>lx. lx\<lparr>Token := drop (Suc 0) (Token lx)\<rparr>)) g) lx" if "ends W (g ()) ?lx" for g
    using that by (simp add: ends_def andThen_def modifyS_def)
  have w: "weight ?lx \<le> weight lx" by (cases "Token lx") (auto simp: weight_def)
  have n: "ends W (andThen nextTok g) lx1"
    if "lexErr lx1 = None" "\<And>lx'. lexErr lx' = None \<Longrightarrow> weight lx' \<le> weight lx1 \<Longrightarrow> ends W (g (Token lx')) lx'" for g lx1
    using that by (intro ends_nextTok) auto
  have d: "ends W (andThen (if b then parsePositiveDuration else ret []) g) lx1"
    if "lexErr lx1 = None" "\<And>x lx'. lexErr lx' = None \<Longrightarrow> weight lx' \<le> weight lx1 \<Longrightarrow> ends W (g x) lx'" for b g lx1
    using that by (auto intro!: ends_bind [OF ends_positiveDuration])
  show ?thesis
    unfolding andThen_assoc
  proof (rule m, rule ends_tok, rule ends_if_ret)
    show "ends W (andThen (andThen nextTok (\<lambda>t. ret (t = '']''))) (\<lambda>ih. andThen tok (\<lambda>t.
        andThen (if t \<noteq> '']'' then parsePositiveDuration else ret []) (\<lambda>step. andThen (ret (step, ih)) f)))) ?lx"
      using assms w by (auto simp: andThen_assoc intro!: n ends_tok d)
    show "ends W (andThen tok (\<lambda>t.
        andThen (if t \<noteq> '']'' then parsePositiveDuration else ret []) (\<lambda>step. andThen (ret (step, False)) f))) ?lx"
      using assms w by (auto simp: andThen_assoc intro!: ends_tok d)
  qed
qed

lemma ends_windowAndStep:
  assumes "lexErr lx = None"
  shows "ends (weight lx) parseWindowAndStep lx"
  unfolding parseWindowAndStep_def using assms
  by (auto simp: nonempty intro!: ends_step_suffix ends_step ends_skip ends_ret ends_failf ends_if
      ends_if_ret ends_if_ret' ends_tok ends_bind [OF ends_positiveDuration])

lemma ends_rollup:
  assumes "lexErr lx = None"
  shows "ends (weight lx) (parseRollupExpr arg) lx"
  unfolding parseRollupExpr_def using assms
  by (auto intro!: parse_intros ends_bind [OF ends_windowAndStep] ends_bind [OF ends_offset])

lemma ends_number:
  assumes "lexErr lx = None"
  shows "ends (weight lx) parsePositiveNumberExpr lx"
  unfolding parsePositiveNumberExpr_def using assms
  by (auto simp: nonempty split: sum.splits intro!: parse_intros ends_fail)

lemma ends_undo:
  assumes "lexErr lx1 = None" "prevTokens lx1 = prevTokens lx @ [Token lx]" "weight lx = Suc (weight lx1)" "Token lx \<noteq> []"
    and "\<And>lx'. lexErr lx' = None \<Longrightarrow> prevTokens lx' = prevTokens lx \<Longrightarrow> Token lx' = Token lx \<Longrightarrow> weight lx' = weight lx \<Longrightarrow>
      ends W (f ()) lx'"
  shows "ends W (andThen Prev f) lx1"
  using assms by (intro ends_Prev [OF assms(1,2)]) auto

lemma ends_stringExpr_loop:
  "lexErr lx = None \<Longrightarrow> weight lx \<le> n \<Longrightarrow> 0 < n \<or> Token lx \<noteq> [] \<Longrightarrow> ends (weight lx) (parseStringExpr_loop n tokens) lx"
proof (induction n arbitrary: tokens lx)
  case 0
  then show ?case using weight_pos by force
next
  case (Suc n)
  have IH: "ends (weight lx) (parseStringExpr_loop n ts) lx'"
    if "lexErr lx' = None" "Token lx' \<noteq> []" "weight lx' < weight lx" for ts lx'
    using Suc.IH [OF that(1), of ts] that Suc.prems(2) by (auto intro: ends_le)
  have plus: "ends (weight lx) (andThen nextTok (\<lambda>t.
       if isStringPrefix t then parseStringExpr_loop n ts
       else if \<not> isIdentPrefix t then andThen Prev (\<lambda>_. ret ts)
       else andThen nextTok (\<lambda>t.
         if t = ''('' \<or> t = ''{'' then andThen Prev (\<lambda>_. andThen Prev (\<lambda>_. ret ts))
         else andThen Prev (\<lambda>_. parseStringExpr_loop n ts)))) lx1"
    if lx1: "lexErr lx1 = None" "Token lx1 = ''+''" "weight lx = Suc (weight lx1)" for ts lx1
  proof (rule ends_step)
    fix lx2
    assume lx2: "lexErr lx2 = None" "prevTokens lx2 = prevTokens lx1 @ [Token lx1]" "weight lx1 = Suc (weight lx2)"
    have undo: "ends (weight lx) (andThen Prev (\<lambda>_. ret ts)) lx'"
      if "lexErr lx' = None" "prevTokens lx' = prevTokens lx1 @ [Token lx1]" "weight lx1 = Suc (weight lx')" for lx'
      by (rule ends_undo [OF that]) (use lx1 in \<open>auto intro: ends_ret\<close>)
    have more: "ends (weight lx) (andThen nextTok (\<lambda>t.
         if t = ''('' \<or> t = ''{'' then andThen Prev (\<lambda>_. andThen Prev (\<lambda>_. ret ts))
         else andThen Prev (\<lambda>_. parseStringExpr_loop n ts))) lx2" if "isIdentPrefix (Token lx2)"
    proof (rule ends_step)
      fix lx3
      assume lx3: "lexErr lx3 = None" "prevTokens lx3 = prevTokens lx2 @ [Token lx2]" "weight lx2 = Suc (weight lx3)"
      have ne: "Token lx2 \<noteq> []" using that by auto
      have "ends (weight lx) (andThen Prev (\<lambda>_. andThen Prev (\<lambda>_. ret ts))) lx3"
        by (rule ends_undo [OF lx3 ne], rule undo) (use lx2 in auto)
      moreover have "ends (weight lx) (andThen Prev (\<lambda>_. parseStringExpr_loop n ts)) lx3"
        by (rule ends_undo [OF lx3 ne], rule IH) (use lx1 lx2 ne in auto)
      ultimately show "ends (weight lx) (if Token lx3 = ''('' \<or> Token lx3 = ''{'' then andThen Prev (\<lambda>_. andThen Prev (\<lambda>_. ret ts))
         else andThen Prev (\<lambda>_. parseStringExpr_loop n ts)) lx3" by simp
    qed (use lx2 that in auto)
    show "ends (weight lx) (if isStringPrefix (Token lx2) then parseStringExpr_loop n ts
       else if \<not> isIdentPrefix (Token lx2) then andThen Prev (\<lambda>_. ret ts)
       else andThen nextTok (\<lambda>t.
         if t = ''('' \<or> t = ''{'' then andThen Prev (\<lambda>_. andThen Prev (\<lambda>_. ret ts))
         else andThen Prev (\<lambda>_. parseStringExpr_loop n ts))) lx2"
      by (intro ends_if IH undo more) (use lx1 lx2 in auto)
  qed (use lx1 in auto)
  show ?case using Suc.prems(1)
    by (auto simp: Let_def nonempty intro!: parse_intros plus)
qed

lemma ends_stringExpr:
  assumes "lexErr lx = None" "weight lx \<le> n" "0 < n"
  shows "ends (weight lx) (parseStringExpr n) lx"
  unfolding parseStringExpr_def using assms
  by (auto intro!: ends_bind ends_stringExpr_loop ends_ret)

section \<open>Label filters and metrics\<close>

lemma ends_labelFilter:
  assumes "lexErr lx = None" "weight lx \<le> n"
  shows "ends (weight lx) (parseLabelFilterExpr n) lx"
  unfolding parseLabelFilterExpr_def using assms
  by (auto simp: Let_def nonempty intro!: parse_intros ends_bind [OF ends_stringExpr])

lemma ends_labelFilters_loop:
  "lexErr lx = None \<Longrightarrow> Token lx \<noteq> [] \<Longrightarrow> weight lx \<le> n \<Longrightarrow> ends (weight lx) (parseLabelFilters_loop n lfes) lx"
proof (induction n arbitrary: lfes lx)
  case (Suc n)
  have "ends (weight lx) (parseLabelFilters_loop n ls) lx'"
    if "lexErr lx' = None" "Token lx' \<noteq> []" "weight lx' < weight lx" for ls lx'
    using Suc.IH [OF that(1,2), of ls] that(3) Suc.prems(3) by (auto intro: ends_le)
  with Suc.prems show ?case
    by (auto simp: Let_def nonempty intro!: parse_intros ends_bind [OF ends_labelFilter])
qed (use weight_pos in force)

lemma ends_labelFilters:
  assumes "lexErr lx = None" "weight lx \<le> n"
  shows "ends (weight lx) (parseLabelFilters n) lx"
  unfolding parseLabelFilters_def using assms
  by (auto intro!: parse_intros ends_labelFilters_loop)

lemma ends_metricExpr:
  assumes "lexErr lx = None" "weight lx \<le> n"
  shows "ends (weight lx) (parseMetricExpr L n) lx"
  unfolding parseMetricExpr_def using assms
  by (auto simp: Let_def nonempty intro!: parse_intros ends_bind [OF ends_labelFilters])

section \<open>The methods that recurse\<close>

text \<open>\<open>pe\<close> is only called after a token has been consumed.\<close>

definition endsBelow :: "nat \<Rightarrow> 'a parser \<Rightarrow> bool" where
  "endsBelow n pe \<longleftrightarrow> (\<forall>lx. lexErr lx = None \<longrightarrow> weight lx < n \<longrightarrow> ends (weight lx) pe lx)"

lemma endsBelowD: "endsBelow n pe \<Longrightarrow> lexErr lx = None \<Longrightarrow> weight lx < n \<Longrightarrow> ends (weight lx) pe lx"
  by (simp add: endsBelow_def)

lemma ends_argList_loop:
  assumes pe: "endsBelow N pe"
  shows "lexErr lx = None \<Longrightarrow> Token lx \<noteq> [] \<Longrightarrow> weight lx \<le> n \<Longrightarrow> weight lx \<le> N \<Longrightarrow>
    ends (weight lx) (parseArgListExpr_loop n pe args) lx"
proof (induction n arbitrary: args lx)
  case (Suc n)
  have "ends (weight lx) (parseArgListExpr_loop n pe as) lx'"
    if "lexErr lx' = None" "Token lx' \<noteq> []" "weight lx' < weight lx" for as lx'
    using Suc.IH [OF that(1,2), of as] that(3) Suc.prems(3,4) by (auto intro: ends_le)
  with Suc.prems show ?case
    by (auto simp: Let_def nonempty intro!: parse_intros ends_bind [OF endsBelowD [OF pe]])
qed (use weight_pos in force)

lemma ends_argList:
  assumes "endsBelow n pe" "lexErr lx = None" "weight lx \<le> n"
  shows "ends (weight lx) (parseArgListExpr n pe) lx"
  unfolding parseArgListExpr_def using assms
  by (auto intro!: parse_intros ends_argList_loop)

lemma ends_parens_loop:
  assumes pe: "endsBelow N pe"
  shows "lexErr lx = None \<Longrightarrow> Token lx \<noteq> [] \<Longrightarrow> weight lx \<le> n \<Longrightarrow> weight lx \<le> N \<Longrightarrow>
    ends (weight lx) (parseParensExpr_loop n pe es) lx"
proof (induction n arbitrary: es lx)
  case (Suc n)
  have "ends (weight lx) (parseParensExpr_loop n pe xs) lx'"
    if "lexErr lx' = None" "Token lx' \<noteq> []" "weight lx' < weight lx" for xs lx'
    using Suc.IH [OF that(1,2), of xs] that(3) Suc.prems(3,4) by (auto intro: ends_le)
  with Suc.prems show ?case
    by (auto simp: Let_def nonempty intro!: parse_intros ends_bind [OF endsBelowD [OF pe]])
qed (use weight_pos in force)

lemma ends_parens:
  assumes "endsBelow n pe" "lexErr lx = None" "weight lx \<le> n"
  shows "ends (weight lx) (parseParensExpr n pe) lx"
  unfolding parseParensExpr_def using assms
  by (auto intro!: parse_intros ends_parens_loop)

lemma ends_func:
  assumes "endsBelow n pe" "lexErr lx = None" "weight lx \<le> n"
  shows "ends (weight lx) (parseFuncExpr n pe) lx"
  unfolding parseFuncExpr_def using assms
  by (auto simp: Let_def nonempty intro!: parse_intros ends_bind [OF ends_argList])

lemma ends_aggrArgs:
  assumes "endsBelow n pe" "lexErr lx = None" "weight lx \<le> n"
  shows "ends (weight lx) (parseAggrArgs n pe name m) lx"
  unfolding parseAggrArgs_def using assms
  by (auto simp: nonempty split: sum.splits
      intro!: ends_bind [OF ends_argList] ends_bind [OF ends_modifier] ends_fail parse_intros)

lemma ends_aggr:
  assumes "endsBelow n pe" "lexErr lx = None" "weight lx \<le> n"
  shows "ends (weight lx) (parseAggrFuncExpr n pe) lx"
  unfolding parseAggrFuncExpr_def using assms
  by (auto simp: nonempty Let_def 
      intro!: ends_bind [OF ends_modifier] ends_le [OF ends_aggrArgs] parse_intros)

lemma ends_identExpr:
  assumes pe: "endsBelow n pe" and ok: "lexErr lx = None" and le: "weight lx \<le> n" and ne: "Token lx \<noteq> []"
  shows "ends (weight lx) (parseIdentExpr L n pe) lx"
  unfolding parseIdentExpr_def
proof (rule ends_step [OF ok ne])
  fix lx1
  assume lx1: "lexErr lx1 = None" "prevTokens lx1 = prevTokens lx @ [Token lx]" "weight lx = Suc (weight lx1)"
  have peek: "ends (weight lx) (andThen Prev (\<lambda>_. m)) lx1"
    if "\<And>lx'. lexErr lx' = None \<Longrightarrow> weight lx' \<le> n \<Longrightarrow> ends (weight lx') m lx'" for m :: "expr parser"
  proof (rule ends_undo [OF lx1 ne])
    fix lx'
    assume lx': "lexErr lx' = None" "weight lx' = weight lx"
    then show "ends (weight lx) m lx'" using that [of lx'] le by simp
  qed
  show "ends (weight lx) (if isEOF (Token lx1) \<or> isOffset (Token lx1) then andThen Prev (\<lambda>_. parseMetricExpr L n)
     else if isIdentPrefix (Token lx1) then
       andThen Prev (\<lambda>_. andThen tok (\<lambda>t0. if isAggrFunc t0 then parseAggrFuncExpr n pe else parseMetricExpr L n))
     else if isBinaryOp (Token lx1) then andThen Prev (\<lambda>_. parseMetricExpr L n)
     else if Token lx1 = ''('' then
       andThen Prev (\<lambda>_. andThen tok (\<lambda>t0. if isAggrFunc t0 then parseAggrFuncExpr n pe else parseFuncExpr n pe))
     else if Token lx1 \<in> {''{'', ''['', '')'', '',''} then andThen Prev (\<lambda>_. parseMetricExpr L n)
     else failf ''identExpr: unexpected token %q; want \"(\", \"{\", \"[\", \")\", \",\"'' [Token lx1]) lx1"
    using pe by (intro ends_if peek ends_failf ends_tok) (auto intro: ends_metricExpr ends_aggr ends_func)
qed

lemma checkDuplicateWithArgNames_plain: "checkDuplicateWithArgNames L m was = Some e \<Longrightarrow> plainError e"
  by (induction L m was rule: checkDuplicateWithArgNames.induct) (auto split: option.splits)

lemma ends_withArg:
  assumes pe: "endsBelow N pe" and "lexErr lx = None" "weight lx \<le> n" "weight lx \<le> N"
  shows "ends (weight lx) (parseWithArgExpr n pe) lx"
  unfolding parseWithArgExpr_def using assms(2-4)
  by (auto simp: nonempty Let_def andThen_assoc split: option.splits
      intro!: ends_bind [OF ends_wrap [OF ends_identList]] ends_bind [OF ends_wrap [OF endsBelowD [OF pe]]] parse_intros)

lemma ends_with_loop:
  assumes pe: "endsBelow N pe"
  shows "lexErr lx = None \<Longrightarrow> Token lx \<noteq> [] \<Longrightarrow> weight lx \<le> n \<Longrightarrow> weight lx \<le> N \<Longrightarrow>
    ends (weight lx) (parseWithExpr_loop n pe was) lx"
proof (induction n arbitrary: was lx)
  case (Suc n)
  have "ends (weight lx) (parseWithExpr_loop n pe xs) lx'"
    if "lexErr lx' = None" "Token lx' \<noteq> []" "weight lx' < weight lx" for xs lx'
    using Suc.IH [OF that(1,2), of xs] that(3) Suc.prems(3,4) by (auto intro: ends_le)
  moreover have "weight lx' \<le> N" if "weight lx = Suc (weight lx')" for lx' using that Suc.prems(4) by simp
  ultimately show ?case using Suc.prems pe
    by (auto simp: Let_def nonempty intro!: parse_intros ends_bind [OF ends_withArg [OF pe]])
qed (use weight_pos in force)

lemma ends_withExpr:
  assumes pe: "endsBelow n pe" and "lexErr lx = None" "weight lx \<le> n"
  shows "ends (weight lx) (parseWithExpr L n pe) lx"
  unfolding parseWithExpr_def using assms(2,3)
  by (auto simp: nonempty split: option.splits dest: checkDuplicateWithArgNames_plain
      intro!: ends_bind [OF ends_with_loop [OF pe]] ends_bind [OF endsBelowD [OF pe]] ends_fail
        ends_ret ends_failf ends_if ends_tok ends_step ends_Next)

lemma ends_withoutRollupSuffix:
  assumes pe: "endsBelow n pe" and ps: "endsBelow n ps" and "lexErr lx = None" "weight lx \<le> n"
  shows "ends (weight lx) (parseSingleExprWithoutRollupSuffix L n ps pe) lx"
proof -
  have p: "isStringPrefix (Token lx) \<Longrightarrow> 0 < n" using weight_pos [of lx] assms(4) by (cases "Token lx") (auto simp: nonempty)
  with assms show ?thesis
    unfolding parseSingleExprWithoutRollupSuffix_def
    by (auto simp: nonempty intro!: ends_tok ends_if ends_skip ends_ret ends_failf ends_number ends_identExpr ends_parens
        ends_metricExpr ends_bind [OF ends_stringExpr] ends_bind [OF endsBelowD [OF ps]] ends_le [OF endsBelowD [OF ps]])
qed

text \<open>When the look-ahead after \<open>with\<close> fails, the error is kept in the lexer and reported by the next \<open>Next\<close>.\<close>

lemma ends_identExpr_err: "lexErr lx = Some e \<Longrightarrow> plainError e \<Longrightarrow> ends W (parseIdentExpr L n pe) lx"
  by (simp add: parseIdentExpr_def ends_def andThen_def nextTok_def Next_def)

lemma ends_peekParen:
  assumes ok: "lexErr lx = None" and ne: "Token lx \<noteq> []"
    and good: "\<And>b lx'. lexErr lx' = None \<Longrightarrow> Token lx' = Token lx \<Longrightarrow> weight lx' = weight lx \<Longrightarrow> ends W (f b) lx'"
    and bad: "\<And>e lx'. lexErr lx' = Some e \<Longrightarrow> plainError e \<Longrightarrow> Token lx' = Token lx \<Longrightarrow> ends W (f False) lx'"
  shows "ends W (andThen peekParen f) lx"
proof (cases "Next lx")
  case (Pair r lx1)
  show ?thesis
  proof (cases r)
    case (Inr u)
    with Pair have n: "Next lx = (Inr u, lx1)" by simp
    note lx1 = Next_ok [OF ok n]
    obtain lx2 where lx2: "Prev lx1 = (Inr (), lx2)" "lexErr lx2 = None" "Token lx2 = Token lx"
      "weight lx2 = weight lx1 + (if Token lx = [] then 0 else 1)"
      using Prev_ok [OF lx1(1,2)] by blast
    with lx1(3) ne n good [of lx2] show ?thesis by (simp add: ends_def andThen_def peekParen_def)
  next
    case (Inl e)
    with Pair have n: "Next lx = (Inl e, lx1)" by simp
    note lx1 = Next_error [OF ok n]
    let ?lx2 = "lx1\<lparr>nextTokens := nextTokens lx1 @ [Token lx1], Token := Token lx, prevTokens := prevTokens lx\<rparr>"
    have "Prev lx1 = (Inr (), ?lx2)" using lx1(2) by (simp add: Prev_def Let_def)
    with n lx1 bad [of ?lx2 e] show ?thesis by (simp add: ends_def andThen_def peekParen_def)
  qed
qed

lemma toLowerByte_w: "toLowerByte c = CHR ''w'' \<Longrightarrow> c = CHR ''w'' \<or> c = CHR ''W''"
proof (cases "between CHR ''A'' c CHR ''Z''")
  case True
  assume "toLowerByte c = CHR ''w''"
  with True have "char_of (byte c + 32) = CHR ''w''" by (simp add: toLowerByte_def)
  then have "byte (char_of (byte c + 32) :: char) = byte (CHR ''w'')" by simp
  moreover have "byte c + 32 < 256" using True by (simp add: between_def)
  ultimately have "byte c = byte (CHR ''W'')" by simp
  then show ?thesis by (metis of_char_eq_iff)
qed (simp add: toLowerByte_def)

lemma with_not_number:
  assumes "isWith t"
  shows "isIdentPrefix t \<and> \<not> isPositiveNumberPrefix t \<and> \<not> isInfOrNaN t \<and> \<not> isStringPrefix t"
proof (cases t)
  case (Cons c cs)
  have w: "ToLower t = ''with''" using assms by (simp add: isWith_def Let_def)
  then have n: "\<not> isInfOrNaN t" by (simp add: isInfOrNaN_def)
  from w have "toLowerByte c = CHR ''w''" by (simp add: Cons split: if_splits)
  then have "c = CHR ''w'' \<or> c = CHR ''W''" by (rule toLowerByte_w)
  with n show ?thesis
    by (elim disjE) (simp_all add: Cons isFirstIdentChar_def between_def isDecimalChar_def)
qed (use assms in \<open>simp add: isWith_def\<close>)

lemma ends_singleExpr_body:
  assumes pe: "endsBelow n pe" and ps: "endsBelow n ps" and ok: "lexErr lx = None" and le: "weight lx \<le> n"
  shows "ends (weight lx) (parseSingleExpr_body L n ps pe) lx"
proof -
  let ?rest = "\<lambda>e. andThen tok (\<lambda>t. if t \<noteq> ''['' \<and> \<not> isOffset t then ret e else parseRollupExpr e)"
  let ?main = "andThen (parseSingleExprWithoutRollupSuffix L n ps pe) ?rest"
  have rest: "ends (weight lx) (?rest e) lx'" if "lexErr lx' = None" "weight lx' < weight lx" for e lx'
    using that by (auto intro!: ends_le [OF ends_rollup] parse_intros)
  have main: "ends (weight lx) ?main lx'" if "lexErr lx' = None" "weight lx' \<le> weight lx" for lx'
    by (rule ends_bind [OF ends_withoutRollupSuffix [OF pe ps]], use that le in simp_all, rule rest) simp_all
  have err: "ends (weight lx) ?main lx'"
    if "lexErr lx' = Some e" "plainError e" "isWith (Token lx')" for e lx'
  proof (rule ends_andThen [OF _ rest])
    show "ends (weight lx) (parseSingleExprWithoutRollupSuffix L n ps pe) lx'"
      unfolding parseSingleExprWithoutRollupSuffix_def
      by (rule ends_tok) (use with_not_number [OF that(3)] ends_identExpr_err [OF that(1,2)] in simp)
  qed
  have w: "ends (weight lx) (if b then parseWithExpr L n pe else ?main) lx'"
    if "lexErr lx' = None" "weight lx' = weight lx" for b lx'
    using that ends_withExpr [OF pe that(1)] main [OF that(1)] le by auto
  show ?thesis
    unfolding parseSingleExpr_body_def
    by (intro ends_tok ends_if_ret ends_peekParen) (use ok w main err in \<open>auto simp: nonempty\<close>)
qed

lemma ends_binaryOpHead:
  assumes "lexErr lx = None" "weight lx \<le> n" "isBinaryOp (Token lx)"
  shows "ends (weight lx) (parseBinaryOpHead n) lx"
  unfolding parseBinaryOpHead_def using assms
  by (auto simp: nonempty Let_def andThen_assoc intro!: ends_bind [OF ends_modifier] parse_intros)

lemma ends_expr_loop:
  assumes ps: "endsBelow n ps"
  shows "lexErr lx = None \<Longrightarrow> weight lx < k \<Longrightarrow> weight lx < n \<Longrightarrow> weight lx < W \<Longrightarrow> ends W (parseExpr_loop n k ps e) lx"
proof (induction k arbitrary: e lx)
  case (Suc k)
  then show ?case
    by (auto intro!: parse_intros ends_bind [OF ends_binaryOpHead] ends_bind [OF endsBelowD [OF ps]] Suc.IH)
qed simp

lemma endsBelow_expr:
  assumes ps: "endsBelow n ps"
  shows "endsBelow n (parseExpr_with n ps)"
  unfolding endsBelow_def parseExpr_with_def
  by (auto intro!: ends_bind [OF endsBelowD [OF ps]] ends_expr_loop [OF ps])

lemma endsBelow_singleExpr: "endsBelow n (parseSingleExpr L n)"
proof (induction n)
  case (Suc n)
  have "parseSingleExpr L (Suc n) = parseSingleExpr_body L n (parseSingleExpr L n) (parseExpr_with n (parseSingleExpr L n))"
    by (simp add: fun_eq_iff)
  then show ?case
    using ends_singleExpr_body [OF endsBelow_expr [OF Suc] Suc, where L = L] by (auto simp: endsBelow_def)
qed (simp add: endsBelow_def)

lemma endsBelow_parseExpr: "endsBelow n (parseExpr L n)"
  unfolding parseExpr_def by (rule endsBelow_expr [OF endsBelow_singleExpr])

section \<open>The result does not depend on the bound\<close>

lemma below_identList_loop:
  "n \<le> m \<Longrightarrow> below (parseIdentList_loop n is) (parseIdentList_loop m is)"
proof (induction n arbitrary: "is" m)
  case (Suc n)
  then obtain m' where "m = Suc m'" by (cases m) auto
  with Suc show ?case by (auto simp: Let_def intro!: below_intros)
qed simp

lemma below_identList: "n \<le> m \<Longrightarrow> below (parseIdentList n) (parseIdentList m)"
  unfolding parseIdentList_def by (auto simp: Let_def split: option.splits sum.splits intro!: below_intros below_identList_loop)

lemma below_modifier: "n \<le> m \<Longrightarrow> below (parseModifierExpr n) (parseModifierExpr m)"
  unfolding parseModifierExpr_def by (auto simp: Let_def split: option.splits sum.splits intro!: below_intros below_identList)

lemma below_string_loop:
  "n \<le> m \<Longrightarrow> below (parseStringExpr_loop n ts) (parseStringExpr_loop m ts)"
proof (induction n arbitrary: ts m)
  case (Suc n)
  then obtain m' where "m = Suc m'" by (cases m) auto
  with Suc show ?case by (auto simp: Let_def intro!: below_intros)
qed simp

lemma below_string: "n \<le> m \<Longrightarrow> below (parseStringExpr n) (parseStringExpr m)"
  unfolding parseStringExpr_def by (auto simp: Let_def split: option.splits sum.splits intro!: below_intros below_string_loop)

lemma below_labelFilter: "n \<le> m \<Longrightarrow> below (parseLabelFilterExpr n) (parseLabelFilterExpr m)"
  unfolding parseLabelFilterExpr_def by (auto simp: Let_def split: option.splits sum.splits intro!: below_intros below_string)

lemma below_labelFilters_loop:
  "n \<le> m \<Longrightarrow> below (parseLabelFilters_loop n ls) (parseLabelFilters_loop m ls)"
proof (induction n arbitrary: ls m)
  case (Suc n)
  then obtain m' where "m = Suc m'" by (cases m) auto
  with Suc show ?case by (auto simp: Let_def intro!: below_intros below_labelFilter)
qed simp

lemma below_labelFilters: "n \<le> m \<Longrightarrow> below (parseLabelFilters n) (parseLabelFilters m)"
  unfolding parseLabelFilters_def by (auto simp: Let_def split: option.splits sum.splits intro!: below_intros below_labelFilters_loop)

lemma below_metricExpr: "n \<le> m \<Longrightarrow> below (parseMetricExpr L n) (parseMetricExpr L m)"
  unfolding parseMetricExpr_def by (auto simp: Let_def split: option.splits sum.splits intro!: below_intros below_labelFilters)

lemma below_argList_loop:
  "below pe pe' \<Longrightarrow> n \<le> m \<Longrightarrow> below (parseArgListExpr_loop n pe as) (parseArgListExpr_loop m pe' as)"
proof (induction n arbitrary: as m)
  case (Suc n)
  then obtain m' where "m = Suc m'" by (cases m) auto
  with Suc show ?case by (auto simp: Let_def intro!: below_intros)
qed simp

lemma below_parens_loop:
  "below pe pe' \<Longrightarrow> n \<le> m \<Longrightarrow> below (parseParensExpr_loop n pe as) (parseParensExpr_loop m pe' as)"
proof (induction n arbitrary: as m)
  case (Suc n)
  then obtain m' where "m = Suc m'" by (cases m) auto
  with Suc show ?case by (auto simp: Let_def intro!: below_intros)
qed simp

lemma below_argList: "below pe pe' \<Longrightarrow> n \<le> m \<Longrightarrow> below (parseArgListExpr n pe) (parseArgListExpr m pe')"
  unfolding parseArgListExpr_def by (auto simp: Let_def split: option.splits sum.splits intro!: below_intros below_argList_loop)

lemma below_parens: "below pe pe' \<Longrightarrow> n \<le> m \<Longrightarrow> below (parseParensExpr n pe) (parseParensExpr m pe')"
  unfolding parseParensExpr_def by (auto simp: Let_def split: option.splits sum.splits intro!: below_intros below_parens_loop)

lemma below_func: "below pe pe' \<Longrightarrow> n \<le> m \<Longrightarrow> below (parseFuncExpr n pe) (parseFuncExpr m pe')"
  unfolding parseFuncExpr_def by (auto simp: Let_def split: option.splits sum.splits intro!: below_intros below_argList)

lemma below_aggrArgs: "below pe pe' \<Longrightarrow> n \<le> m \<Longrightarrow> below (parseAggrArgs n pe name md) (parseAggrArgs m pe' name md)"
  unfolding parseAggrArgs_def by (auto simp: Let_def split: option.splits sum.splits intro!: below_intros below_argList below_modifier)

lemma below_aggr: "below pe pe' \<Longrightarrow> n \<le> m \<Longrightarrow> below (parseAggrFuncExpr n pe) (parseAggrFuncExpr m pe')"
  unfolding parseAggrFuncExpr_def by (auto simp: Let_def split: option.splits sum.splits intro!: below_intros below_aggrArgs below_modifier)

lemma below_identExpr: "below pe pe' \<Longrightarrow> n \<le> m \<Longrightarrow> below (parseIdentExpr L n pe) (parseIdentExpr L m pe')"
  unfolding parseIdentExpr_def by (auto simp: Let_def split: option.splits sum.splits intro!: below_intros below_metricExpr below_aggr below_func)

lemma below_withArg: "below pe pe' \<Longrightarrow> n \<le> m \<Longrightarrow> below (parseWithArgExpr n pe) (parseWithArgExpr m pe')"
  unfolding parseWithArgExpr_def by (auto simp: Let_def split: option.splits sum.splits intro!: below_intros below_identList)

lemma below_with_loop:
  "below pe pe' \<Longrightarrow> n \<le> m \<Longrightarrow> below (parseWithExpr_loop n pe as) (parseWithExpr_loop m pe' as)"
proof (induction n arbitrary: as m)
  case (Suc n)
  then obtain m' where "m = Suc m'" by (cases m) auto
  with Suc show ?case by (auto simp: Let_def intro!: below_intros below_withArg)
qed simp

lemma below_withExpr: "below pe pe' \<Longrightarrow> n \<le> m \<Longrightarrow> below (parseWithExpr L n pe) (parseWithExpr L m pe')"
  unfolding parseWithExpr_def by (auto simp: Let_def split: option.splits sum.splits intro!: below_intros below_with_loop)

lemma below_singleExpr_body:
  "below ps ps' \<Longrightarrow> below pe pe' \<Longrightarrow> n \<le> m \<Longrightarrow> below (parseSingleExpr_body L n ps pe) (parseSingleExpr_body L m ps' pe')"
  unfolding parseSingleExpr_body_def parseSingleExprWithoutRollupSuffix_def
  by (auto intro!: below_intros below_withExpr below_string below_identExpr below_parens below_metricExpr)

lemma below_binaryOpHead: "n \<le> m \<Longrightarrow> below (parseBinaryOpHead n) (parseBinaryOpHead m)"
  unfolding parseBinaryOpHead_def by (auto simp: Let_def split: option.splits sum.splits intro!: below_intros below_modifier)

lemma below_expr_loop:
  "below ps ps' \<Longrightarrow> n \<le> m \<Longrightarrow> k \<le> l \<Longrightarrow> below (parseExpr_loop n k ps e) (parseExpr_loop m l ps' e)"
proof (induction k arbitrary: e l)
  case (Suc k)
  then obtain l' where "l = Suc l'" by (cases l) auto
  with Suc show ?case by (auto intro!: below_intros below_binaryOpHead)
qed simp

lemma below_expr_with: "below ps ps' \<Longrightarrow> n \<le> m \<Longrightarrow> below (parseExpr_with n ps) (parseExpr_with m ps')"
  unfolding parseExpr_with_def by (auto intro!: below_intros below_expr_loop)

lemma below_singleExpr: "n \<le> m \<Longrightarrow> below (parseSingleExpr L n) (parseSingleExpr L m)"
proof (induction n arbitrary: m)
  case 0
  have "parseSingleExpr L 0 = fail OutOfFuel" by (simp add: fun_eq_iff)
  then show ?case by simp
next
  case (Suc n)
  then obtain m' where m: "m = Suc m'" "n \<le> m'" by (cases m) auto
  have "parseSingleExpr L (Suc k) = parseSingleExpr_body L k (parseSingleExpr L k) (parseExpr_with k (parseSingleExpr L k))" for k
    by (simp add: fun_eq_iff)
  then show ?case using Suc.IH [OF m(2)] m by (auto intro!: below_singleExpr_body below_expr_with)
qed

lemma below_parseExpr: "n \<le> m \<Longrightarrow> below (parseExpr L n) (parseExpr L m)"
  unfolding parseExpr_def by (intro below_expr_with below_singleExpr)

section \<open>Parsing a string\<close>

lemma lexer_start:
  assumes "Next (Init s emptyLexer) = (Inr u, lx)"
  shows "lexErr lx = None \<and> weight lx \<le> length s"
proof -
  have i: "lexErr (Init s emptyLexer) = None" "Token (Init s emptyLexer) = []" by (simp_all add: Init_def)
  have "lexRest (Init s emptyLexer) = fst (lexAll s)" by (simp add: lexRest_def Init_def)
  then have "weight (Init s emptyLexer) \<le> length (fst (lexAll s))" using i(2) by (simp add: weight_def)
  with Next_ok [OF i(1) assms] i(2) lexAll_length [of s] show ?thesis by simp
qed

lemma parseExpr_ends:
  assumes "lexErr lx = None" "weight lx < n"
  shows "ends (weight lx) (parseExpr L n) lx"
  by (rule endsBelowD [OF endsBelow_parseExpr assms])

lemma parseExpr_bound:
  assumes "lexErr lx = None" "weight lx < n" "n \<le> m"
  shows "parseExpr L m lx = parseExpr L n lx"
proof -
  have "fst (parseExpr L n lx) \<noteq> Inl OutOfFuel"
    using parseExpr_ends [OF assms(1,2), of L] by (auto simp: ends_def split: prod.splits sum.splits)
  then show ?thesis using below_parseExpr [OF assms(3), of L] unfolding below_def by metis
qed

text \<open>C19: parsing a string always returns, with an expression or with an ordinary error: it never panics (no
  \<open>Prev\<close> runs off the tokens, no token is empty where a byte is read), and the bound \<open>parseFuel\<close> on
  the nesting, two more than the length of the input, is never reached.\<close>

theorem parseString_total: "case parseString L s of Inl e \<Rightarrow> \<not> isPanic e \<and> e \<noteq> OutOfFuel | Inr x \<Rightarrow> True"
proof (cases "Next (Init s emptyLexer)")
  case (Pair r lx)
  show ?thesis
  proof (cases r)
    case (Inr u)
    with Pair lexer_start [of s u lx] have "ends (weight lx) (parseExpr L (parseFuel s)) lx"
      by (intro parseExpr_ends) (auto simp: parseFuel_def)
    with Pair Inr show ?thesis
      by (auto simp: parseString_def ends_def plainError_def split: prod.splits sum.splits)
  qed (simp add: parseString_def Pair)
qed

text \<open>C25: the parser's answer is not an artefact of the bound: with the lexer at a position from which fewer
  than \<open>n\<close> tokens follow, every larger bound gives the same expression or error and leaves
  the lexer at the same place, and an expression is found only by consuming tokens.\<close>

theorem parseExpr_fuel_irrelevant:
  assumes "lexErr lx = None" "weight lx < n" "n \<le> m"
  shows "parseExpr L m lx = parseExpr L n lx \<and>
    (case parseExpr L n lx of
       (Inl e, lx') \<Rightarrow> \<not> isPanic e \<and> e \<noteq> OutOfFuel
     | (Inr e, lx') \<Rightarrow> weight lx' < weight lx \<and> lexErr lx' = None)"
  using parseExpr_bound [OF assms, of L] parseExpr_ends [OF assms(1,2), of L]
  by (auto simp: ends_def plainError_def split: prod.splits sum.splits)

theorem parseExpr_fuel_irrelevant_witness:
  "\<forall>L. parseExpr L 9 sampleLexer = parseExpr L 4 sampleLexer"
proof
  fix L
  have "lexRest sampleLexer = [''+'', ''{'']"
    by (simp add: sampleLexer_def lexRest_def lexAll.simps [of "[]"] next_token.simps [of "[]"]
        skipWhile.simps [of _ "[]"] isEOF_def)
  then have "weight sampleLexer < 4" "lexErr sampleLexer = None" by (simp_all add: weight_def sampleLexer_def)
  then show "parseExpr L 9 sampleLexer = parseExpr L 4 sampleLexer"
    using parseExpr_fuel_irrelevant [of sampleLexer 4 9 L] by simp
qed

end
