(* ===== verification/ParsedExpr.thy ===== *)
theory ParsedExpr
  imports PrecTree ParserProps
begin

text \<open>
  What the parser produces: the invariant \<open>parsedExpr\<close> of every expression that a \<open>parse*\<close>
  method returns, with operator trees that respect precedence.
\<close>

section \<open>The results of a computation\<close>

text \<open>\<open>yields P m\<close>: whatever \<open>m\<close> returns satisfies \<open>P\<close>.\<close>

definition yields :: "('a \<Rightarrow> bool) \<Rightarrow> ('s, 'a) comp \<Rightarrow> bool" where
  "yields P m \<longleftrightarrow> (\<forall>s x t. m s = (Inr x, t) \<longrightarrow> P x)"

lemma yieldsD: "yields P m \<Longrightarrow> m s = (Inr x, t) \<Longrightarrow> P x"
  by (auto simp: yields_def)

named_theorems yields_intros "rules for the results of the combinators"

lemma yields_ret [yields_intros]: "P x \<Longrightarrow> yields P (ret x)"
  by (simp add: yields_def result_simps)

lemma yields_fail [yields_intros]: "yields P (fail e)"
  by (simp add: yields_def result_simps)

lemma yields_failf [yields_intros]: "yields P (failf f as)"
  by (simp add: failf_def yields_fail)

lemma yields_bind: "yields Q m \<Longrightarrow> (\<And>x. Q x \<Longrightarrow> yields P (f x)) \<Longrightarrow> yields P (andThen m f)"
  unfolding yields_def by (metis andThen_Inr)

lemma yields_then: "(\<And>x. yields P (f x)) \<Longrightarrow> yields P (andThen m f)"
  unfolding yields_def by (metis andThen_Inr)

lemma yields_wrap [yields_intros]: "yields P m \<Longrightarrow> yields P (wrapErr w m)"
  by (simp add: yields_def result_simps)

lemma yields_if [yields_intros]:
  "(b \<Longrightarrow> yields P m) \<Longrightarrow> (\<not> b \<Longrightarrow> yields P n) \<Longrightarrow> yields P (if b then m else n)"
  by simp

lemma yields_mono: "yields Q m \<Longrightarrow> (\<And>x. Q x \<Longrightarrow> P x) \<Longrightarrow> yields P m"
  by (auto simp: yields_def)

section \<open>Parsed expressions\<close>

text \<open>An operator as written: \<open>bool\<close> only on comparisons, a join modifier only after a group
  modifier and not on a set operator.\<close>

fun opOk :: "opMark \<Rightarrow> bool" where
  "opOk (op, b, g, j) \<longleftrightarrow> op \<in> set binaryOps \<and> (b \<longrightarrow> IsBinaryOpCmp op) \<and>
     (Op g \<noteq> [] \<longrightarrow> isBinaryOpGroupModifier (Op g)) \<and>
     (Op j \<noteq> [] \<longrightarrow> Op g \<noteq> [] \<and> isBinaryOpJoinModifier (Op j) \<and> \<not> isBinaryOpLogicalSet op)"

definition lfeOk :: "labelFilterExpr \<Rightarrow> bool" where
  "lfeOk lfe \<longleftrightarrow> (case lfeValue lfe of None \<Rightarrow> \<not> lfeIsRegexp lfe \<and> \<not> lfeIsNegative lfe | Some (s, ts) \<Rightarrow> s = [] \<and> ts \<noteq> [])"

definition nameOk :: "string \<Rightarrow> bool" where
  "nameOk n \<longleftrightarrow> isIdentPrefix n \<and> \<not> isAggrFunc n \<and> \<not> IsRollupFunc n \<and> \<not> IsTransformFunc n \<and> \<not> isWith n"

fun parsedExpr :: "expr \<Rightarrow> bool" and parsedArg :: "withArgExpr \<Rightarrow> bool" where
  "parsedExpr (StringExpr s ts) \<longleftrightarrow> s = [] \<and> ts \<noteq> []"
| "parsedExpr (NumberExpr n) \<longleftrightarrow> True"
| "parsedExpr (ParensExpr es) \<longleftrightarrow> (\<forall>e \<in> set es. parsedExpr e)"
| "parsedExpr (BinaryOpExpr op b g j l r) \<longleftrightarrow>
     opOk (op, b, g, j) \<and> leftOk op l \<and> rightOk op r \<and> parsedExpr l \<and> parsedExpr r"
| "parsedExpr (FuncExpr name args) \<longleftrightarrow> isIdentPrefix name \<and> (\<forall>e \<in> set args. parsedExpr e)"
| "parsedExpr (AggrFuncExpr name args m limit) \<longleftrightarrow>
     name \<in> set aggrFuncs \<and> (Op m \<noteq> [] \<longrightarrow> Op m \<in> {''by'', ''without''}) \<and> (\<forall>e \<in> set args. parsedExpr e)"
| "parsedExpr (WithExpr was e) \<longleftrightarrow>
     distinct (map waName was) \<and> (\<forall>wa \<in> set was. parsedArg wa) \<and> parsedExpr e"
| "parsedExpr (RollupExpr e w off st ih) \<longleftrightarrow> parsedExpr e"
| "parsedExpr (MetricExpr r lfs lfes) \<longleftrightarrow> r = 0 \<and> lfs = [] \<and> (\<forall>lfe \<in> set lfes. lfeOk lfe)"
| "parsedArg (WithArg n as e) \<longleftrightarrow> nameOk n \<and> distinct as \<and> parsedExpr e"

text \<open>Operands are never bare operators: they are parenthesised.\<close>

definition parsedOperand :: "expr \<Rightarrow> bool" where
  "parsedOperand e \<longleftrightarrow> parsedExpr e \<and> \<not> isBinaryOpExpr e"

lemma parsedExpr_tree:
  "parsedExpr e \<longleftrightarrow> precTree e \<and> (\<forall>x \<in> set (inorder e). case x of Inl e \<Rightarrow> parsedOperand e | Inr m \<Rightarrow> opOk m)"
  by (induction e) (auto simp: parsedOperand_def)

lemma parsedExpr_balance:
  assumes "parsedExpr l" "parsedOperand r" "opOk (op, b, g, j)"
  shows "parsedExpr (balanceBinaryOp (BinaryOpExpr op b g j l r))"
proof -
  have l: "precTree l" "\<forall>x \<in> set (inorder l). case x of Inl e \<Rightarrow> parsedOperand e | Inr m \<Rightarrow> opOk m"
    using assms(1) parsedExpr_tree by blast+
  have "precTree (balanceBinaryOp (BinaryOpExpr op b g j l r))"
    by (rule precTree_balance) (use assms l in \<open>simp_all add: parsedOperand_def\<close>)
  then show ?thesis
    using assms l by (subst parsedExpr_tree) (auto simp: inorder_balance not_BinaryOpExpr parsedOperand_def)
qed

section \<open>The methods\<close>

lemmas yields_steps = yields_then [where m = tok] yields_then [where m = nextTok] yields_then [where m = Next]
  yields_then [where m = Prev] yields_then [where m = "parseIdentList n" for n] yields_then [where m = parseOffset]
  yields_then [where m = parsePositiveDuration] yields_then [where m = parseWindowAndStep] yields_then [where m = peekParen]

lemmas yi = yields_ret yields_fail yields_failf yields_if yields_wrap yields_steps

lemma yields_stringExpr_loop: "yields (\<lambda>ts'. ts' \<noteq> []) (parseStringExpr_loop n ts)"
  by (induction n arbitrary: ts) (auto simp: Let_def intro!: yi)

lemma yields_stringExpr: "yields (\<lambda>(s, ts). s = [] \<and> ts \<noteq> []) (parseStringExpr n)"
  unfolding parseStringExpr_def by (auto intro!: yi yields_bind [OF yields_stringExpr_loop])

lemma yields_labelFilter: "yields lfeOk (parseLabelFilterExpr n)"
  unfolding parseLabelFilterExpr_def
  by (auto simp: Let_def lfeOk_def intro!: yi yields_bind [OF yields_stringExpr])

lemma yields_labelFilters_loop: "\<forall>lfe \<in> set ls. lfeOk lfe \<Longrightarrow> yields (\<lambda>ls. \<forall>lfe \<in> set ls. lfeOk lfe) (parseLabelFilters_loop n ls)"
  by (induction n arbitrary: ls) (auto simp: Let_def intro!: yi yields_bind [OF yields_labelFilter])

lemma yields_labelFilters: "yields (\<lambda>ls. \<forall>lfe \<in> set ls. lfeOk lfe) (parseLabelFilters n)"
  unfolding parseLabelFilters_def by (auto intro!: yi yields_labelFilters_loop)

lemma yields_metricExpr: "yields parsedOperand (parseMetricExpr L n)"
  unfolding parseMetricExpr_def
  by (auto simp: Let_def parsedOperand_def lfeOk_def intro!: yi yields_bind [OF yields_labelFilters])

lemma yields_number: "yields parsedOperand parsePositiveNumberExpr"
  unfolding parsePositiveNumberExpr_def by (auto simp: parsedOperand_def split: sum.splits intro!: yi)

lemma yields_rollup: "parsedExpr e \<Longrightarrow> yields parsedOperand (parseRollupExpr e)"
  unfolding parseRollupExpr_def by (auto simp: parsedOperand_def intro!: yi)

lemma yields_argList_loop:
  assumes pe: "yields parsedExpr pe"
  shows "\<forall>e \<in> set as. parsedExpr e \<Longrightarrow> yields (\<lambda>as. \<forall>e \<in> set as. parsedExpr e) (parseArgListExpr_loop n pe as)"
  by (induction n arbitrary: as) (auto simp: Let_def intro!: yi yields_bind [OF pe])

lemma yields_argList: "yields parsedExpr pe \<Longrightarrow> yields (\<lambda>as. \<forall>e \<in> set as. parsedExpr e) (parseArgListExpr n pe)"
  unfolding parseArgListExpr_def by (auto intro!: yi yields_argList_loop)

lemma yields_parens_loop:
  assumes pe: "yields parsedExpr pe"
  shows "\<forall>e \<in> set as. parsedExpr e \<Longrightarrow> yields parsedOperand (parseParensExpr_loop n pe as)"
  by (induction n arbitrary: as) (auto simp: Let_def parsedOperand_def intro!: yi yields_bind [OF pe])

lemma yields_parens: "yields parsedExpr pe \<Longrightarrow> yields parsedOperand (parseParensExpr n pe)"
  unfolding parseParensExpr_def by (auto intro!: yi yields_parens_loop)

lemma yields_func:
  assumes pe: "yields parsedExpr pe"
  shows "yields parsedOperand (parseFuncExpr n pe)"
  unfolding parseFuncExpr_def
  by (auto simp: Let_def parsedOperand_def intro!: yi yields_bind [OF yields_argList [OF pe]])

text \<open>The same at a known token: a modifier's name is the lower-cased token it starts with.\<close>

definition yieldsAt :: "string \<Rightarrow> ('a \<Rightarrow> bool) \<Rightarrow> 'a parser \<Rightarrow> bool" where
  "yieldsAt t P m \<longleftrightarrow> (\<forall>lx x lx'. Token lx = t \<longrightarrow> m lx = (Inr x, lx') \<longrightarrow> P x)"

lemma yields_At: "yields P m \<Longrightarrow> yieldsAt t P m"
  by (auto simp: yields_def yieldsAt_def)

lemma yields_tokAt: "(\<And>t. yieldsAt t P (f t)) \<Longrightarrow> yields P (andThen tok f)"
  unfolding yields_def yieldsAt_def by (auto simp: andThen_def tok_def)

lemma yields_nextTokAt: "(\<And>t. yieldsAt t P (f t)) \<Longrightarrow> yields P (andThen nextTok f)"
  unfolding nextTok_def andThen_assoc by (intro yields_steps yields_tokAt)

lemma yieldsAt_tok: "yieldsAt t P (f t) \<Longrightarrow> yieldsAt t P (andThen tok f)"
  unfolding yieldsAt_def by (auto simp: andThen_def tok_def)

lemma yieldsAt_if:
  "(b \<Longrightarrow> yieldsAt t P m) \<Longrightarrow> (\<not> b \<Longrightarrow> yieldsAt t P n) \<Longrightarrow> yieldsAt t P (if b then m else n)"
  by simp

lemma yieldsAt_bind: "yieldsAt t Q m \<Longrightarrow> (\<And>x. Q x \<Longrightarrow> yields P (f x)) \<Longrightarrow> yieldsAt t P (andThen m f)"
  unfolding yields_def yieldsAt_def by (metis andThen_Inr)

lemma yieldsAt_modifier: "yieldsAt t (\<lambda>md. Op md = ToLower t) (parseModifierExpr n)"
  unfolding parseModifierExpr_def
  by (rule yieldsAt_tok) (auto simp: Let_def intro!: yieldsAt_if yields_At yi)

lemma ToLower_idem_lists:
  "isAggrFuncModifier t \<Longrightarrow> ToLower t \<in> {''by'', ''without''}"
  "isBinaryOpGroupModifier t \<Longrightarrow> isBinaryOpGroupModifier (ToLower t)"
  "isBinaryOpJoinModifier t \<Longrightarrow> isBinaryOpJoinModifier (ToLower t)"
  by (auto simp: isAggrFuncModifier_def isBinaryOpGroupModifier_def isBinaryOpJoinModifier_def Let_def toLowerByte_def between_def)

definition aggrModifier :: "ModifierExpr \<Rightarrow> bool" where
  "aggrModifier m \<longleftrightarrow> (Op m \<noteq> [] \<longrightarrow> Op m \<in> {''by'', ''without''})"

lemma yields_aggrArgs:
  assumes pe: "yields parsedExpr pe" and name: "name \<in> set aggrFuncs" and m: "aggrModifier m"
  shows "yields parsedOperand (parseAggrArgs n pe name m)"
proof -
  have md: "yieldsAt t aggrModifier (if Op m = [] \<and> isAggrFuncModifier t then parseModifierExpr n else ret m)" for t
    using m ToLower_idem_lists(1) [of t] yieldsAt_modifier [of t n]
    by (auto simp: yieldsAt_def aggrModifier_def result_simps)
  show ?thesis
    unfolding parseAggrArgs_def
  proof (rule yields_bind [OF yields_argList [OF pe]], rule yields_tokAt, rule yieldsAt_bind [OF md])
    fix args md
    assume "\<forall>e \<in> set args. parsedExpr e" "aggrModifier md"
    with name have "parsedOperand (AggrFuncExpr name args md limit)" for limit
      by (auto simp: parsedOperand_def aggrModifier_def)
    then show "yields parsedOperand (andThen tok (\<lambda>t.
       if ToLower t = ''limit'' then
         andThen nextTok (\<lambda>t.
         case Atoi t of
           Inl e \<Rightarrow> fail (Wrapf ''cannot parse limit %q: %s'' [t] e)
         | Inr limit \<Rightarrow> andThen Next (\<lambda>_. ret (AggrFuncExpr name args md limit)))
       else ret (AggrFuncExpr name args md 0)))"
      by (auto split: sum.splits intro!: yi)
  qed
qed

lemma yields_aggr:
  assumes pe: "yields parsedExpr pe"
  shows "yields parsedOperand (parseAggrFuncExpr n pe)"
proof -
  have *: "yieldsAt t parsedOperand (andThen (parseModifierExpr n) (parseAggrArgs n pe name))"
    if "isAggrFuncModifier t" "name \<in> set aggrFuncs" for t name
    using that ToLower_idem_lists(1) [of t]
    by (intro yieldsAt_bind [OF yieldsAt_modifier] yields_aggrArgs [OF pe]) (auto simp: aggrModifier_def)
  have "yieldsAt t parsedOperand (failf f as)" for t f as by (intro yields_At yi)
  moreover have "yieldsAt t parsedOperand (parseAggrArgs n pe name noModifier)" if "name \<in> set aggrFuncs" for t name
    using that by (intro yields_At yields_aggrArgs [OF pe]) (simp_all add: aggrModifier_def noModifier_def)
  ultimately show ?thesis
    unfolding parseAggrFuncExpr_def Let_def
    by (intro yields_steps yields_if yields_failf yields_nextTokAt yieldsAt_if *) (simp_all add: isAggrFunc_def Let_def)
qed

lemma yields_identExpr:
  assumes pe: "yields parsedExpr pe"
  shows "yields parsedOperand (parseIdentExpr L n pe)"
  unfolding parseIdentExpr_def
  by (intro yi yields_metricExpr yields_aggr [OF pe] yields_func [OF pe])

lemma yields_join:
  assumes "op \<in> set binaryOps" "b \<longrightarrow> IsBinaryOpCmp op" "isBinaryOpGroupModifier (Op g)"
  shows "yields opOk (andThen tok (\<lambda>t.
       if isBinaryOpJoinModifier t then
         if isBinaryOpLogicalSet op then failf ''modifier %q cannot be applied to %q'' [t, op]
         else andThen (parseModifierExpr n) (\<lambda>j. ret (op, b, g, j))
       else ret (op, b, g, noModifier)))"
proof (rule yields_tokAt, intro yieldsAt_if)
  fix t
  assume "isBinaryOpJoinModifier t" "\<not> isBinaryOpLogicalSet op"
  moreover have "Op g \<noteq> []" using assms(3) by (auto simp: isBinaryOpGroupModifier_def)
  ultimately show "yieldsAt t opOk (andThen (parseModifierExpr n) (\<lambda>j. ret (op, b, g, j)))"
    using assms ToLower_idem_lists(3) [of t] by (intro yieldsAt_bind [OF yieldsAt_modifier] yi) auto
qed (use assms in \<open>auto simp: noModifier_def intro!: yields_At yi\<close>)

lemma yields_opHead: "yieldsAt t opOk (parseBinaryOpHead n)" if t: "isBinaryOp t"
  unfolding parseBinaryOpHead_def Let_def
proof (rule yieldsAt_tok, rule yields_At, rule yields_steps)
  fix t1
  let ?op = "ToLower t"
  have op: "?op \<in> set binaryOps" using t by (simp add: isBinaryOp_def Let_def)
  have bool: "yields (\<lambda>b. b \<longrightarrow> IsBinaryOpCmp ?op) (if isBinaryOpBoolModifier t1 then
          if \<not> IsBinaryOpCmp ?op then failf ''bool modifier cannot be applied to %q'' [?op]
          else andThen Next (\<lambda>_. ret True)
        else ret False)" by (auto intro!: yi)
  have grp: "yieldsAt t2 opOk (if isBinaryOpGroupModifier t2 then
       andThen (parseModifierExpr n) (\<lambda>g.
       andThen tok (\<lambda>t.
       if isBinaryOpJoinModifier t then
         if isBinaryOpLogicalSet ?op then failf ''modifier %q cannot be applied to %q'' [t, ?op]
         else andThen (parseModifierExpr n) (\<lambda>j. ret (?op, b, g, j))
       else ret (?op, b, g, noModifier)))
     else ret (?op, b, noModifier, noModifier))" if "b \<longrightarrow> IsBinaryOpCmp ?op" for b t2
  proof (rule yieldsAt_if)
    assume "isBinaryOpGroupModifier t2"
    with that op ToLower_idem_lists(2) [of t2] show "yieldsAt t2 opOk (andThen (parseModifierExpr n) (\<lambda>g.
       andThen tok (\<lambda>t.
       if isBinaryOpJoinModifier t then
         if isBinaryOpLogicalSet ?op then failf ''modifier %q cannot be applied to %q'' [t, ?op]
         else andThen (parseModifierExpr n) (\<lambda>j. ret (?op, b, g, j))
       else ret (?op, b, g, noModifier))))"
      by (intro yieldsAt_bind [OF yieldsAt_modifier] yields_join) auto
  qed (use that op in \<open>auto simp: noModifier_def intro!: yields_At yi\<close>)
  show "yields opOk (andThen
       (if isBinaryOpBoolModifier t1 then
          if \<not> IsBinaryOpCmp ?op then failf ''bool modifier cannot be applied to %q'' [?op]
          else andThen Next (\<lambda>_. ret True)
        else ret False) (\<lambda>isBool.
     andThen tok (\<lambda>t.
     if isBinaryOpGroupModifier t then
       andThen (parseModifierExpr n) (\<lambda>g.
       andThen tok (\<lambda>t.
       if isBinaryOpJoinModifier t then
         if isBinaryOpLogicalSet ?op then failf ''modifier %q cannot be applied to %q'' [t, ?op]
         else andThen (parseModifierExpr n) (\<lambda>j. ret (?op, isBool, g, j))
       else ret (?op, isBool, g, noModifier)))
     else ret (?op, isBool, noModifier, noModifier))))"
    by (rule yields_bind [OF bool], rule yields_tokAt, rule grp)
qed


lemma firstDuplicate_None: "firstDuplicate m as = None \<longleftrightarrow> distinct as \<and> set as \<inter> set m = {}"
  by (induction m as rule: firstDuplicate.induct) auto

lemma checkDuplicate_None:
  "checkDuplicateWithArgNames L m was = None \<Longrightarrow> distinct (map waName was) \<and> waName ` set was \<inter> waName ` set m = {}"
proof (induction L m was rule: checkDuplicateWithArgNames.induct)
  case (2 L m wa was)
  from 2(2) have f: "find (\<lambda>wb. waName wb = waName wa) m = None" and r: "checkDuplicateWithArgNames L (m @ [wa]) was = None"
    by (auto split: option.splits)
  from 2(1) [OF f r] f show ?case by (auto simp: find_None_iff)
qed simp

lemma yields_withArg:
  assumes pe: "yields parsedExpr pe"
  shows "yields parsedArg (parseWithArgExpr n pe)"
proof -
  have args: "yields distinct (if t = ''('' then
          andThen (wrapErr w (parseIdentList n)) (\<lambda>args.
          case firstDuplicate [] args of Some arg \<Rightarrow> failf f [name, arg] | None \<Rightarrow> ret args)
        else ret [])" for t w f name
    by (auto simp: firstDuplicate_None split: option.splits intro!: yi yields_then [where m = "wrapErr w (parseIdentList n)"])
  show ?thesis
    unfolding parseWithArgExpr_def Let_def
    by (intro yi yields_bind [OF args] yields_bind [OF yields_wrap [OF pe]]) (auto simp: nameOk_def)
qed

lemma yields_with_loop:
  assumes pe: "yields parsedExpr pe"
  shows "\<forall>wa \<in> set was. parsedArg wa \<Longrightarrow> yields (\<lambda>was. \<forall>wa \<in> set was. parsedArg wa) (parseWithExpr_loop n pe was)"
  by (induction n arbitrary: was) (auto simp: Let_def intro!: yi yields_bind [OF yields_withArg [OF pe]])

lemma yields_withExpr:
  assumes pe: "yields parsedExpr pe"
  shows "yields parsedOperand (parseWithExpr L n pe)"
  unfolding parseWithExpr_def
  by (auto simp: parsedOperand_def split: option.splits dest!: checkDuplicate_None
      intro!: yi yields_bind [OF yields_with_loop [OF pe]] yields_bind [OF pe])

lemma yields_singleExpr_body:
  assumes pe: "yields parsedExpr pe" and ps: "yields parsedOperand ps"
  shows "yields parsedOperand (parseSingleExpr_body L n ps pe)"
proof -
  have leaf: "yields parsedOperand (parseSingleExprWithoutRollupSuffix L n ps pe)"
    unfolding parseSingleExprWithoutRollupSuffix_def
    by (auto simp: noModifier_def binaryOps_def parsedOperand_def not_BinaryOpExpr
        intro!: yi yields_number yields_bind [OF yields_stringExpr] yields_identExpr [OF pe] yields_parens [OF pe]
          yields_metricExpr yields_bind [OF ps] ps)
  show ?thesis
    unfolding parseSingleExpr_body_def
    by (intro yields_steps yields_if)
     (auto intro!: yi yields_withExpr [OF pe] yields_bind [OF leaf] yields_rollup simp: parsedOperand_def)
qed

lemma yields_expr_loop:
  assumes ps: "yields parsedOperand ps"
  shows "parsedExpr e \<Longrightarrow> yields parsedExpr (parseExpr_loop n k ps e)"
proof (induction k arbitrary: e)
  case (Suc k)
  have step: "yieldsAt t parsedExpr (andThen (parseBinaryOpHead n) (\<lambda>(op, b, g, j).
     andThen ps (\<lambda>e2. parseExpr_loop n k ps (balanceBinaryOp (BinaryOpExpr op b g j e e2)))))" if "isBinaryOp t" for t
    by (rule yieldsAt_bind [OF yields_opHead [OF that]])
      (auto intro!: yields_bind [OF ps] Suc.IH parsedExpr_balance [OF Suc.prems] simp del: balanceBinaryOp.simps)
  show ?case
    unfolding parseExpr_loop.simps
    by (intro yields_tokAt yieldsAt_if step yields_At yi) (use Suc.prems in simp_all)
qed (simp add: yi)

lemma yields_singleExpr: "yields parsedOperand (parseSingleExpr L n)"
proof (induction n)
  case 0
  then show ?case by (simp add: yields_def result_simps)
next
  case (Suc n)
  have "yields parsedExpr (parseExpr_with n (parseSingleExpr L n))"
    unfolding parseExpr_with_def
    by (rule yields_bind [OF Suc], rule yields_expr_loop [OF Suc]) (simp add: parsedOperand_def)
  from yields_singleExpr_body [OF this Suc] show ?case by (auto simp: yields_def)
qed

lemma yields_parseExpr: "yields parsedExpr (parseExpr L n)"
  unfolding parseExpr_def parseExpr_with_def
  by (rule yields_bind [OF yields_singleExpr], rule yields_expr_loop [OF yields_singleExpr]) (simp add: parsedOperand_def)

lemma parseString_parsed: "parseString L s = Inr e \<Longrightarrow> parsedExpr e"
  using yieldsD [OF yields_parseExpr, of L] by (auto simp: parseString_def split: prod.splits sum.splits if_splits)

text \<open>C16: what the parser accepts is well formed: operator trees respect precedence and their operators and
  modifiers are legal, names in a \<open>WITH\<close> and its parameters are distinct and not reserved, strings and filters still
  hold their tokens.\<close>

theorem parseString_parsedExpr:
  assumes "parseString L s = Inr e"
  shows "parsedExpr e"
  using assms by (rule parseString_parsed)

theorem parseString_parsedExpr_witness:
  "\<forall>L. \<exists>x. parseString L ''1'' = Inr (NumberExpr x) \<and> parsedExpr (NumberExpr x)"
proof
  fix L
  have "case parseString L ''1'' of Inr (NumberExpr x) \<Rightarrow> True | _ \<Rightarrow> False" by code_simp
  then obtain x where "parseString L ''1'' = Inr (NumberExpr x)" by (auto split: sum.splits expr.splits)
  with parseString_parsedExpr [OF this] show "\<exists>x. parseString L ''1'' = Inr (NumberExpr x) \<and> parsedExpr (NumberExpr x)" by blast
qed

end
