(* ===== verification/ParserTokens.thy ===== *)
theory ParserTokens
  imports ParsedExpr
begin

text \<open>
  The parser sees the token sequence only: from two lexers at the same position of the same
  tokens, whatever white space, comments or read-ahead lie behind it, every method gives the same result.
  Evaluation on tokens then shows that the built-in templates parse.
\<close>

section \<open>Lexers at the same tokens\<close>

definition sameTokens :: "lexer \<Rightarrow> lexer \<Rightarrow> bool" where
  "sameTokens lx ly \<longleftrightarrow> Token lx = Token ly \<and> prevTokens lx = prevTokens ly \<and> lexErr lx = lexErr ly \<and>
     (lexErr lx = None \<longrightarrow> lexRest lx = lexRest ly \<and> lexEnding lx = lexEnding ly)"

lemma sameTokens_refl [simp]: "sameTokens lx lx"
  by (simp add: sameTokens_def)

definition sameResult :: "'a result \<times> lexer \<Rightarrow> 'a result \<times> lexer \<Rightarrow> bool" where
  "sameResult r r' \<longleftrightarrow> fst r = fst r' \<and> sameTokens (snd r) (snd r')"

definition tokenwise :: "'a parser \<Rightarrow> bool" where
  "tokenwise m \<longleftrightarrow> (\<forall>lx ly. sameTokens lx ly \<longrightarrow> sameResult (m lx) (m ly))"

lemma tokenwiseD: "tokenwise m \<Longrightarrow> sameTokens lx ly \<Longrightarrow> sameResult (m lx) (m ly)"
  by (simp add: tokenwise_def)

named_theorems tokenwise "methods that see the tokens only"

lemma tokenwise_ret [tokenwise]: "tokenwise (ret x)"
  by (simp add: tokenwise_def sameResult_def ret_def)

lemma tokenwise_fail [tokenwise]: "tokenwise (fail e)"
  by (simp add: tokenwise_def sameResult_def fail_def)

lemma tokenwise_failf [tokenwise]: "tokenwise (failf f as)"
  by (simp add: failf_def tokenwise_fail)

lemma tokenwise_tok [tokenwise]: "tokenwise tok"
  by (simp add: tokenwise_def sameResult_def tok_def sameTokens_def)

lemma tokenwise_andThen [tokenwise]:
  assumes "tokenwise m" "\<And>x. tokenwise (f x)"
  shows "tokenwise (andThen m f)"
  unfolding tokenwise_def
proof (intro allI impI)
  fix lx ly
  assume "sameTokens lx ly"
  with assms(1) have "sameResult (m lx) (m ly)" by (rule tokenwiseD)
  moreover obtain r s r' s' where "m lx = (r, s)" "m ly = (r', s')" by (metis surj_pair)
  ultimately show "sameResult (andThen m f lx) (andThen m f ly)"
    using assms(2) by (cases r) (auto simp: andThen_def sameResult_def tokenwise_def)
qed

lemma tokenwise_wrapErr [tokenwise]:
  assumes "tokenwise m"
  shows "tokenwise (wrapErr w m)"
  unfolding tokenwise_def
proof (intro allI impI)
  fix lx ly
  assume "sameTokens lx ly"
  with assms(1) have "sameResult (m lx) (m ly)" by (rule tokenwiseD)
  moreover obtain r s r' s' where "m lx = (r, s)" "m ly = (r', s')" by (metis surj_pair)
  ultimately show "sameResult (wrapErr w m lx) (wrapErr w m ly)"
    by (auto simp: wrapErr_def sameResult_def split: sum.splits failure.splits)
qed

lemma tokenwise_if [tokenwise]: "tokenwise m \<Longrightarrow> tokenwise n \<Longrightarrow> tokenwise (if b then m else n)"
  by simp

lemma tokenwise_case_prod [tokenwise]: "(\<And>x y. tokenwise (f x y)) \<Longrightarrow> tokenwise (case p of (x, y) \<Rightarrow> f x y)"
  by (simp add: split: prod.splits)

lemma Next_error_Token: "lexErr lx = None \<Longrightarrow> Next lx = (Inl e, lx') \<Longrightarrow> Token lx' = Token lx"
  by (auto simp: Next_def Let_def split: if_splits prod.splits sum.splits)

lemma tokenwise_Next [tokenwise]: "tokenwise Next"
  unfolding tokenwise_def
proof (intro allI impI)
  fix lx ly
  assume s: "sameTokens lx ly"
  show "sameResult (Next lx) (Next ly)"
  proof (cases "lexErr lx")
    case (Some e)
    with s have "lexErr ly = Some e" by (simp add: sameTokens_def)
    with Some have "Next lx = (Inl e, lx)" "Next ly = (Inl e, ly)" by (simp_all add: Next_def)
    with s show ?thesis by (simp add: sameResult_def)
  next
    case None
    with s have ok: "lexOk lx" "lexOk ly" by (auto simp: sameTokens_def lexOk_def)
    consider t ts where "lexRest lx = t # ts" | "lexRest lx = []" "lexEnding lx = None"
      | e where "lexRest lx = []" "lexEnding lx = Some e" by (cases "lexRest lx"; cases "lexEnding lx") auto
    then show ?thesis
    proof cases
      case 1
      with s None have "lexRest ly = t # ts" by (simp add: sameTokens_def)
      from lz.adv_Cons [OF ok(1) 1] lz.adv_Cons [OF ok(2) this] s None show ?thesis
        by (auto simp: sameResult_def sameTokens_def lexOk_def)
    next
      case 2
      with s None have "lexRest ly = []" "lexEnding ly = None" by (simp_all add: sameTokens_def)
      from lz.adv_eof [OF ok(1) 2] lz.adv_eof [OF ok(2) this] s None show ?thesis
        by (auto simp: sameResult_def sameTokens_def lexOk_def)
    next
      case 3
      with s None have y: "lexRest ly = []" "lexEnding ly = Some e" by (simp_all add: sameTokens_def)
      obtain lx' ly' where n: "Next lx = (Inl e, lx')" "Next ly = (Inl e, ly')"
        using lz.adv_err [OF ok(1) 3] lz.adv_err [OF ok(2) y] by blast
      have oky: "lexErr ly = None" using ok(2) by (simp add: lexOk_def)
      from Next_error [OF None n(1)] Next_error_Token [OF None n(1)] Next_error [OF oky n(2)] Next_error_Token [OF oky n(2)] s n
      show ?thesis by (simp add: sameResult_def sameTokens_def)
    qed
  qed
qed

lemma tokenwise_Prev [tokenwise]: "tokenwise Prev"
  by (auto simp: tokenwise_def sameResult_def sameTokens_def Prev_def Let_def lexRest_def lexEnding_def)

lemma tokenwise_nextTok [tokenwise]: "tokenwise nextTok"
  unfolding nextTok_def by (intro tokenwise)

lemma tokenwise_dropColon [tokenwise]: "tokenwise (modifyS (\<lambda>lx. lx\<lparr>Token := drop (Suc 0) (Token lx)\<rparr>))"
  by (auto simp: tokenwise_def sameResult_def sameTokens_def modifyS_def lexEnding_def)

lemma tokenwise_peekParen [tokenwise]: "tokenwise peekParen"
  unfolding tokenwise_def
proof (intro allI impI)
  fix lx ly
  assume "sameTokens lx ly"
  with tokenwise_Next have n: "sameResult (Next lx) (Next ly)" by (rule tokenwiseD)
  obtain r s r' s' where rs: "Next lx = (r, s)" "Next ly = (r', s')" by (metis surj_pair)
  with n have s: "r' = r" "sameTokens s s'" by (simp_all add: sameResult_def)
  with tokenwise_Prev have "sameResult (Prev s) (Prev s')" by (intro tokenwiseD)
  with rs s show "sameResult (peekParen lx) (peekParen ly)"
    by (auto simp: peekParen_def sameResult_def sameTokens_def split: prod.splits sum.splits)
qed

section \<open>The methods\<close>

lemma tokenwise_identList_loop [tokenwise]: "tokenwise (parseIdentList_loop n is)"
  by (induction n arbitrary: "is") (auto simp: Let_def intro!: tokenwise)

lemma tokenwise_identList [tokenwise]: "tokenwise (parseIdentList n)"
  unfolding parseIdentList_def by (intro tokenwise)

lemma tokenwise_modifier [tokenwise]: "tokenwise (parseModifierExpr n)"
  unfolding parseModifierExpr_def Let_def by (intro tokenwise)

lemma tokenwise_durations [tokenwise]: "tokenwise parseDuration" "tokenwise parsePositiveDuration" "tokenwise parseOffset"
  unfolding parsePositiveDuration_def parseOffset_def parseDuration_def Let_def by (intro tokenwise)+

lemma tokenwise_window [tokenwise]: "tokenwise parseWindowAndStep"
  unfolding parseWindowAndStep_def One_nat_def by (intro tokenwise)

lemma tokenwise_rollup [tokenwise]: "tokenwise (parseRollupExpr e)"
  unfolding parseRollupExpr_def by (intro tokenwise)

lemma tokenwise_number [tokenwise]: "tokenwise parsePositiveNumberExpr"
  unfolding parsePositiveNumberExpr_def by (auto split: sum.splits intro!: tokenwise)

lemma tokenwise_string_loop [tokenwise]: "tokenwise (parseStringExpr_loop n ts)"
  by (induction n arbitrary: ts) (auto simp: Let_def intro!: tokenwise)

lemma tokenwise_string [tokenwise]: "tokenwise (parseStringExpr n)"
  unfolding parseStringExpr_def by (intro tokenwise)

lemma tokenwise_labelFilter [tokenwise]: "tokenwise (parseLabelFilterExpr n)"
  unfolding parseLabelFilterExpr_def Let_def by (intro tokenwise)

lemma tokenwise_labelFilters_loop [tokenwise]: "tokenwise (parseLabelFilters_loop n ls)"
  by (induction n arbitrary: ls) (auto simp: Let_def intro!: tokenwise)

lemma tokenwise_labelFilters [tokenwise]: "tokenwise (parseLabelFilters n)"
  unfolding parseLabelFilters_def by (intro tokenwise)

lemma tokenwise_metricExpr [tokenwise]: "tokenwise (parseMetricExpr L n)"
  unfolding parseMetricExpr_def Let_def by (intro tokenwise)

lemma tokenwise_loops [tokenwise]:
  "tokenwise pe \<Longrightarrow> tokenwise (parseArgListExpr_loop n pe as)"
  "tokenwise pe \<Longrightarrow> tokenwise (parseParensExpr_loop n pe as)"
  by (induction n arbitrary: as) (auto simp: Let_def intro!: tokenwise)

lemma tokenwise_lists [tokenwise]:
  "tokenwise pe \<Longrightarrow> tokenwise (parseArgListExpr n pe)"
  "tokenwise pe \<Longrightarrow> tokenwise (parseParensExpr n pe)"
  "tokenwise pe \<Longrightarrow> tokenwise (parseFuncExpr n pe)"
  unfolding parseArgListExpr_def parseParensExpr_def parseFuncExpr_def Let_def by (intro tokenwise; assumption)+

lemma tokenwise_aggrArgs [tokenwise]: "tokenwise pe \<Longrightarrow> tokenwise (parseAggrArgs n pe name m)"
  unfolding parseAggrArgs_def by (auto split: sum.splits intro!: tokenwise)

lemma tokenwise_calls [tokenwise]:
  "tokenwise pe \<Longrightarrow> tokenwise (parseAggrFuncExpr n pe)"
  "tokenwise pe \<Longrightarrow> tokenwise (parseIdentExpr L n pe)"
  unfolding parseAggrFuncExpr_def parseIdentExpr_def Let_def by (intro tokenwise; assumption)+

lemma tokenwise_withArg [tokenwise]: "tokenwise pe \<Longrightarrow> tokenwise (parseWithArgExpr n pe)"
  unfolding parseWithArgExpr_def Let_def by (auto split: option.splits intro!: tokenwise)

lemma tokenwise_with_loop [tokenwise]: "tokenwise pe \<Longrightarrow> tokenwise (parseWithExpr_loop n pe was)"
  by (induction n arbitrary: was) (auto simp: Let_def intro!: tokenwise)

lemma tokenwise_withExpr [tokenwise]: "tokenwise pe \<Longrightarrow> tokenwise (parseWithExpr L n pe)"
  unfolding parseWithExpr_def by (auto split: option.splits intro!: tokenwise)

lemma tokenwise_singleExpr_body:
  "tokenwise ps \<Longrightarrow> tokenwise pe \<Longrightarrow> tokenwise (parseSingleExpr_body L n ps pe)"
  unfolding parseSingleExpr_body_def parseSingleExprWithoutRollupSuffix_def by (intro tokenwise; assumption)

lemma tokenwise_binaryOpHead [tokenwise]: "tokenwise (parseBinaryOpHead n)"
  unfolding parseBinaryOpHead_def Let_def by (intro tokenwise)

lemma tokenwise_expr_loop [tokenwise]: "tokenwise ps \<Longrightarrow> tokenwise (parseExpr_loop n k ps e)"
  by (induction k arbitrary: e) (auto intro!: tokenwise)

lemma tokenwise_expr_with [tokenwise]: "tokenwise ps \<Longrightarrow> tokenwise (parseExpr_with n ps)"
  unfolding parseExpr_with_def by (intro tokenwise; assumption)

lemma tokenwise_singleExpr [tokenwise]: "tokenwise (parseSingleExpr L n)"
proof (induction n)
  case 0
  have "parseSingleExpr L 0 = fail OutOfFuel" by (simp add: fun_eq_iff)
  then show ?case by (simp add: tokenwise_fail)
next
  case (Suc n)
  have "parseSingleExpr L (Suc n) = parseSingleExpr_body L n (parseSingleExpr L n) (parseExpr_with n (parseSingleExpr L n))"
    by (simp add: fun_eq_iff)
  then show ?case using tokenwise_singleExpr_body [OF Suc tokenwise_expr_with [OF Suc]] by simp
qed

lemma tokenwise_parseExpr [tokenwise]: "tokenwise (parseExpr L n)"
  unfolding parseExpr_def by (intro tokenwise)

section \<open>White space and comments\<close>

lemma sameTokens_Init: "lexAll s = lexAll s' \<Longrightarrow> sameTokens (Init s emptyLexer) (Init s' emptyLexer)"
  by (simp add: sameTokens_def Init_def lexRest_def lexEnding_def)

lemma parseString_Inr:
  "parseString L s = Inr e \<longleftrightarrow>
     (\<exists>lx lx'. Next (Init s emptyLexer) = (Inr (), lx) \<and> isEOF (Token lx') \<and>
       (\<forall>n \<ge> parseFuel s. parseExpr L n lx = (Inr e, lx')))"
proof (cases "Next (Init s emptyLexer)")
  case (Pair r lx)
  show ?thesis
  proof (cases r)
    case (Inr u)
    with Pair lexer_start [of s u lx] have b: "lexErr lx = None" "weight lx < parseFuel s" by (simp_all add: parseFuel_def)
    have "(\<forall>n \<ge> parseFuel s. parseExpr L n lx = p) \<longleftrightarrow> parseExpr L (parseFuel s) lx = p" for p
      using parseExpr_bound [OF b, where L = L] by fastforce
    moreover have "parseString L s = Inr e \<longleftrightarrow> (\<exists>lx'. parseExpr L (parseFuel s) lx = (Inr e, lx') \<and> isEOF (Token lx'))"
      using Pair Inr by (cases "parseExpr L (parseFuel s) lx") (auto simp: parseString_def split: sum.splits)
    ultimately show ?thesis using Pair Inr by auto
  qed (simp add: parseString_def Pair)
qed

lemma parseString_tokens_le:
  assumes "lexAll s = lexAll s'" "parseString L s = Inr e"
  shows "parseString L s' = Inr e"
proof -
  obtain lx lx' where lx: "Next (Init s emptyLexer) = (Inr (), lx)" "isEOF (Token lx')"
    "\<forall>n \<ge> parseFuel s. parseExpr L n lx = (Inr e, lx')"
    using assms(2) parseString_Inr by blast
  have "sameResult (Next (Init s emptyLexer)) (Next (Init s' emptyLexer))"
    by (rule tokenwiseD [OF tokenwise_Next sameTokens_Init [OF assms(1)]])
  with lx obtain ly where ly: "Next (Init s' emptyLexer) = (Inr (), ly)" "sameTokens lx ly"
    by (cases "Next (Init s' emptyLexer)") (auto simp: sameResult_def)
  have b: "lexErr ly = None" "weight ly < parseFuel s'"
    using lexer_start [OF ly(1)] by (simp_all add: parseFuel_def)
  let ?n = "max (parseFuel s) (parseFuel s')"
  have "sameResult (parseExpr L ?n lx) (parseExpr L ?n ly)" by (rule tokenwiseD [OF tokenwise_parseExpr ly(2)])
  with lx(3) obtain ly' where ly': "parseExpr L ?n ly = (Inr e, ly')" "sameTokens lx' ly'"
    by (cases "parseExpr L ?n ly") (auto simp: sameResult_def)
  then have "parseExpr L n ly = (Inr e, ly')" if "parseFuel s' \<le> n" for n
    using parseExpr_bound [OF b, of ?n L] parseExpr_bound [OF b that, of L] by simp
  then show ?thesis using parseString_Inr [of L s' e] ly lx(2) ly'(2) by (auto simp: sameTokens_def)
qed

text \<open>C20: two inputs with the same tokens parse to the same expression: white space and comments
  between tokens mean nothing.\<close>

theorem parseString_tokens:
  assumes "lexAll s = lexAll s'"
  shows "parseString L s = Inr e \<longleftrightarrow> parseString L s' = Inr e"
  using parseString_tokens_le assms by metis

theorem parseString_tokens_witness:
  "\<forall>L e. parseString L ''a+1'' = Inr e \<longleftrightarrow> parseString L '' a +  1 '' = Inr e"
proof (intro allI)
  fix L e
  have "lexAll ''a+1'' = lexAll '' a +  1 ''" by code_simp
  then show "parseString L ''a+1'' = Inr e \<longleftrightarrow> parseString L '' a +  1 '' = Inr e"
    by (rule parseString_tokens)
qed

section \<open>Parsing a token list\<close>

definition tokenLexer :: "string list \<Rightarrow> lexer" where
  "tokenLexer ts = \<lparr>Token = [], prevTokens = [], nextTokens = rev ts, sOrig = [], sTail = [], lexErr = None\<rparr>"

lemma lexAll_Nil: "lexAll [] = ([], None)"
  by code_simp

lemma sameTokens_tokenLexer: "lexAll s = (ts, None) \<Longrightarrow> sameTokens (tokenLexer ts) (Init s emptyLexer)"
  by (simp add: sameTokens_def Init_def tokenLexer_def lexRest_def lexEnding_def lexAll_Nil)

text \<open>A template is parsed by evaluating the parser on its tokens, with any bound that suffices.\<close>

lemma mustParse_tokens:
  assumes "lexAll s = (ts, None)"
    and "fst (andThen Next (\<lambda>_. parseWithArgExpr n (parseExpr L n)) (tokenLexer ts)) = Inr wa" "n \<le> parseFuel s"
  shows "mustParseWithArgExpr L s = Inr wa"
proof -
  let ?p = "\<lambda>n. andThen Next (\<lambda>_. parseWithArgExpr n (parseExpr L n))"
  obtain t where n: "?p n (tokenLexer ts) = (Inr wa, t)" using assms(2) by (metis prod.collapse)
  have b: "below (?p n) (?p (parseFuel s))"
    by (intro below_intros below_refl below_withArg below_parseExpr assms(3))
  have "?p (parseFuel s) (tokenLexer ts) = (Inr wa, t)"
    by (rule belowD [OF b n]) simp
  moreover have "tokenwise (?p (parseFuel s))" by (intro tokenwise)
  then have "sameResult (?p (parseFuel s) (tokenLexer ts)) (?p (parseFuel s) (Init s emptyLexer))"
    by (rule tokenwiseD [OF _ sameTokens_tokenLexer [OF assms(1)]])
  ultimately have "fst (?p (parseFuel s) (Init s emptyLexer)) = Inr wa" by (simp add: sameResult_def)
  then show ?thesis by (auto simp: mustParseWithArgExpr_def split: prod.splits)
qed

lemma parseString_on_tokens:
  assumes "lexAll s = (ts, None)"
    and "andThen Next (\<lambda>_. parseExpr L n) (tokenLexer ts) = (Inr e, lx')" "isEOF (Token lx')" "n \<le> parseFuel s"
  shows "parseString L s = Inr e"
proof -
  let ?p = "\<lambda>n. andThen Next (\<lambda>_. parseExpr L n)"
  have b: "below (?p n) (?p (parseFuel s))"
    by (intro below_intros below_refl below_parseExpr assms(4))
  have p: "?p (parseFuel s) (tokenLexer ts) = (Inr e, lx')"
    by (rule belowD [OF b assms(2)]) simp
  have "tokenwise (?p (parseFuel s))" by (intro tokenwise)
  then have "sameResult (?p (parseFuel s) (tokenLexer ts)) (?p (parseFuel s) (Init s emptyLexer))"
    by (rule tokenwiseD [OF _ sameTokens_tokenLexer [OF assms(1)]])
  with p obtain ly where ly: "?p (parseFuel s) (Init s emptyLexer) = (Inr e, ly)" "sameTokens lx' ly"
    by (cases "?p (parseFuel s) (Init s emptyLexer)") (auto simp: sameResult_def)
  from ly(1) obtain lx where "Next (Init s emptyLexer) = (Inr (), lx)" "parseExpr L (parseFuel s) lx = (Inr e, ly)"
    by (auto simp: andThen_def split: prod.splits sum.splits)
  with ly(2) assms(3) show ?thesis by (simp add: parseString_def sameTokens_def)
qed

end
