(* ===== verification/ExpandProps.thy ===== *)
theory ExpandProps
  imports ParsedExpr "HOL-Library.Multiset"
begin

text \<open>
  The expansion of \<open>WITH\<close> templates: on well-formed scopes and expressions it ends, never reaches
  one of its \<open>BUG\<close> panics, and leaves no template, token or unexpanded filter behind.
\<close>

section \<open>Well-formed and expanded expressions\<close>

definition lfeWf :: "labelFilterExpr \<Rightarrow> bool" where
  "lfeWf lfe \<longleftrightarrow> (case lfeValue lfe of None \<Rightarrow> True | Some (s, ts) \<Rightarrow> s = [] \<or> ts = [])"

fun wfExpr :: "expr \<Rightarrow> bool" and wfArg :: "withArgExpr \<Rightarrow> bool" where
  "wfExpr (StringExpr s ts) \<longleftrightarrow> s = [] \<or> ts = []"
| "wfExpr (NumberExpr n) \<longleftrightarrow> True"
| "wfExpr (ParensExpr es) \<longleftrightarrow> (\<forall>e \<in> set es. wfExpr e)"
| "wfExpr (BinaryOpExpr op b g j l r) \<longleftrightarrow> op \<in> set binaryOps \<and> wfExpr l \<and> wfExpr r"
| "wfExpr (FuncExpr name args) \<longleftrightarrow> (\<forall>e \<in> set args. wfExpr e)"
| "wfExpr (AggrFuncExpr name args m limit) \<longleftrightarrow> (\<forall>e \<in> set args. wfExpr e)"
| "wfExpr (WithExpr was e) \<longleftrightarrow> (\<forall>wa \<in> set was. wfArg wa) \<and> wfExpr e"
| "wfExpr (RollupExpr e w off st ih) \<longleftrightarrow> wfExpr e"
| "wfExpr (MetricExpr r lfs lfes) \<longleftrightarrow> (lfs = [] \<or> lfes = []) \<and> (\<forall>lfe \<in> set lfes. lfeWf lfe)"
| "wfArg (WithArg n as e) \<longleftrightarrow> wfExpr e"

definition wfScope :: "withArgExpr list \<Rightarrow> bool" where
  "wfScope was \<longleftrightarrow> (\<forall>wa \<in> set was. wfArg wa)"

fun expandedExpr :: "expr \<Rightarrow> bool" where
  "expandedExpr (StringExpr s ts) \<longleftrightarrow> ts = []"
| "expandedExpr (NumberExpr n) \<longleftrightarrow> True"
| "expandedExpr (ParensExpr es) \<longleftrightarrow> (\<forall>e \<in> set es. expandedExpr e)"
| "expandedExpr (BinaryOpExpr op b g j l r) \<longleftrightarrow> op \<in> set binaryOps \<and> expandedExpr l \<and> expandedExpr r"
| "expandedExpr (FuncExpr name args) \<longleftrightarrow> (\<forall>e \<in> set args. expandedExpr e)"
| "expandedExpr (AggrFuncExpr name args m limit) \<longleftrightarrow> (\<forall>e \<in> set args. expandedExpr e)"
| "expandedExpr (WithExpr was e) \<longleftrightarrow> False"
| "expandedExpr (RollupExpr e w off st ih) \<longleftrightarrow> expandedExpr e"
| "expandedExpr (MetricExpr r lfs lfes) \<longleftrightarrow> lfes = []"

lemma parsed_wf: "parsedExpr e \<Longrightarrow> wfExpr e" "parsedArg wa \<Longrightarrow> wfArg wa"
  by (induction e and wa rule: parsedExpr_parsedArg.induct) (auto simp: lfeOk_def lfeWf_def split: option.splits)

lemma expanded_wf: "expandedExpr e \<Longrightarrow> wfExpr e"
  by (induction e rule: expandedExpr.induct) auto

lemma wfArg_waExpr: "wfArg wa \<longleftrightarrow> wfExpr (waExpr wa)"
  by (cases wa) auto

section \<open>Scopes\<close>

lemma getWithArgExpr_from_Some:
  "getWithArgExpr_from was name n = Some i \<longleftrightarrow>
     i < n \<and> waName (was ! i) = name \<and> (\<forall>j. i < j \<and> j < n \<longrightarrow> waName (was ! j) \<noteq> name)"
  by (induction n) (auto simp: less_Suc_eq)

lemma getWithArgExpr_from_None: "getWithArgExpr_from was name n = None \<longleftrightarrow> (\<forall>j < n. waName (was ! j) \<noteq> name)"
  by (induction n) (auto simp: less_Suc_eq)

lemma getWithArgExpr_Some:
  "getWithArgExpr was name = Some i \<longleftrightarrow>
     i < length was \<and> waName (was ! i) = name \<and> (\<forall>j. i < j \<and> j < length was \<longrightarrow> waName (was ! j) \<noteq> name)"
  by (simp add: getWithArgExpr_def getWithArgExpr_from_Some)

lemma getWithArgExpr_less: "getWithArgExpr was name = Some i \<Longrightarrow> i < length was"
  by (simp add: getWithArgExpr_Some)

lemma wfScope_nth: "wfScope was \<Longrightarrow> i < length was \<Longrightarrow> wfExpr (waExpr (was ! i))"
  by (simp add: wfScope_def wfArg_waExpr)

text \<open>The scope of a template's body: the entries before it and its arguments.\<close>

definition bodyScope :: "withArgExpr list \<Rightarrow> nat \<Rightarrow> expr list \<Rightarrow> withArgExpr list" where
  "bodyScope was i as = take i was @ map (\<lambda>(n, a). WithArg n [] a) (zip (waArgs (was ! i)) as)"

lemma wfScope_body:
  assumes "wfScope was" "\<forall>a \<in> set as. expandedExpr a"
  shows "wfScope (bodyScope was i as)"
  using assms by (auto simp: wfScope_def bodyScope_def expanded_wf dest: in_set_takeD set_zip_rightD)

section \<open>No panic, and expanded results\<close>

definition safely :: "('a \<Rightarrow> bool) \<Rightarrow> ('s, 'a) comp \<Rightarrow> bool" where
  "safely P m \<longleftrightarrow> (\<forall>s e t. m s = (Inl e, t) \<longrightarrow> \<not> isPanic e) \<and> (\<forall>s x t. m s = (Inr x, t) \<longrightarrow> P x)"

named_theorems safely "computations that do not panic"

lemma safely_ret [safely]: "P x \<Longrightarrow> safely P (ret x)"
  by (simp add: safely_def result_simps)

lemma safely_fail [safely]: "\<not> isPanic e \<Longrightarrow> safely P (fail e)"
  by (simp add: safely_def result_simps)

lemma safely_bind: "safely Q m \<Longrightarrow> (\<And>x. Q x \<Longrightarrow> safely P (f x)) \<Longrightarrow> safely P (andThen m f)"
  unfolding safely_def andThen_Inr andThen_Inl by blast

lemma safely_if [safely]: "(b \<Longrightarrow> safely P m) \<Longrightarrow> (\<not> b \<Longrightarrow> safely P n) \<Longrightarrow> safely P (if b then m else n)"
  by simp

lemma safely_mono: "safely Q m \<Longrightarrow> (\<And>x. Q x \<Longrightarrow> P x) \<Longrightarrow> safely P m"
  unfolding safely_def by blast

lemma safely_lift [safely]:
  "(\<And>e. r = Inl e \<Longrightarrow> \<not> isPanic e) \<Longrightarrow> (\<And>x. r = Inr x \<Longrightarrow> P x) \<Longrightarrow> safely P (liftResult r)"
  by (auto simp: liftResult_def split: sum.splits intro: safely)

lemma safely_mapM:
  "(\<And>x. x \<in> set xs \<Longrightarrow> safely P (f x)) \<Longrightarrow> safely (\<lambda>ys. length ys = length xs \<and> (\<forall>y \<in> set ys. P y)) (mapM f xs)"
proof (induction xs)
  case (Cons x xs)
  then have "safely P (f x)" "safely (\<lambda>ys. length ys = length xs \<and> (\<forall>y \<in> set ys. P y)) (mapM f xs)" by auto
  then show ?case by (auto intro!: safely_bind [of P] safely_bind [of "\<lambda>ys. length ys = length xs \<and> (\<forall>y \<in> set ys. P y)"] safely)
qed (simp add: safely_ret)

lemma safely_alloc [safely]: "(\<And>r. P (MetricExpr r lfs [])) \<Longrightarrow> safely P (allocMetric lfs)"
  by (simp add: safely_def allocMetric_def)

lemma safely_newMetric [safely]: "safely expandedExpr (newMetricExpr name)"
  by (simp add: safely_def newMetricExpr_def)

lemma wrapped_plain:
  "(case r of Inl e \<Rightarrow> Inl (Wrapf f as e) | Inr x \<Rightarrow> Inr x) = Inl e \<longrightarrow> \<not> isPanic e"
  by (auto split: sum.split)

lemma extractStringValue_plain: "extractStringValue t = Inl e \<longrightarrow> \<not> isPanic e"
  unfolding extractStringValue_def Let_def
  by (intro if_cases [where P = "\<lambda>r. r = Inl e \<longrightarrow> \<not> isPanic e"] wrapped_plain) auto

lemma toLabelFilter_plain: "lfeValue lfe = Some (s, []) \<Longrightarrow> toLabelFilter L lfe = Inl e \<Longrightarrow> \<not> isPanic e"
  by (auto simp: toLabelFilter_def Let_def split: if_splits option.splits)

lemma expandModifierArg_plain: "expandModifierArg L was args a = Inl e \<Longrightarrow> \<not> isPanic e"
  by (auto simp: expandModifierArg_def Let_def split: if_splits option.splits expr.splits)

lemma expandModifierArgs_plain: "expandModifierArgs L was args = Inl e \<Longrightarrow> \<not> isPanic e"
proof -
  have "expandModifierArgs_loop L was as0 args = Inl e \<Longrightarrow> \<not> isPanic e" for as0
    by (induction args) (auto split: sum.splits dest: expandModifierArg_plain)
  then show "expandModifierArgs L was args = Inl e \<Longrightarrow> \<not> isPanic e"
    by (auto simp: expandModifierArgs_def split: sum.splits)
qed

text \<open>The interface of the recursive call: safe on well-formed input, and strings stay strings.\<close>

definition expander :: "expand_fun \<Rightarrow> bool" where
  "expander ew \<longleftrightarrow> (\<forall>was e. wfScope was \<longrightarrow> wfExpr e \<longrightarrow> safely expandedExpr (ew was e)) \<and>
     (\<forall>was s ts. wfScope was \<longrightarrow> wfExpr (StringExpr s ts) \<longrightarrow> safely (\<lambda>e. \<exists>s'. e = StringExpr s' []) (ew was (StringExpr s ts)))"

lemma expanderD:
  "expander ew \<Longrightarrow> wfScope was \<Longrightarrow> wfExpr e \<Longrightarrow> safely expandedExpr (ew was e)"
  "expander ew \<Longrightarrow> wfScope was \<Longrightarrow> wfExpr (StringExpr s ts) \<Longrightarrow> safely (\<lambda>e. \<exists>s'. e = StringExpr s' []) (ew was (StringExpr s ts))"
  unfolding expander_def by blast+

lemma safely_ext:
  assumes "expander ew" "wfScope was" "i < length was" "\<forall>as. args = Some as \<longrightarrow> (\<forall>a \<in> set as. expandedExpr a)"
  shows "safely expandedExpr (expandWithExprExt ew was i args)"
proof -
  have "safely expandedExpr (ew (bodyScope was i (case args of None \<Rightarrow> [] | Some as \<Rightarrow> as)) (waExpr (was ! i)))"
    using assms by (intro expanderD(1) wfScope_body wfScope_nth) (auto split: option.splits)
  then show ?thesis
    unfolding expandWithExprExt_def Let_def bodyScope_def by (auto intro!: safely)
qed

lemma safely_tokens:
  assumes ew: "expander ew" and was: "wfScope was"
  shows "safely (\<lambda>e. \<exists>s. e = StringExpr s []) (expandTokens ew L was ts b)"
proof (induction ts arbitrary: b)
  case (Cons t ts)
  have e: "safely (\<lambda>_. True) (liftResult (extractStringValue t))"
    using extractStringValue_plain by (intro safely) blast+
  show ?case
    by (auto split: option.splits expr.splits dest: getWithArgExpr_less
        intro!: safely safely_bind [OF e] safely_bind [OF safely_ext [OF ew was]] Cons)
qed (auto intro: safely)

lemma safely_filters:
  assumes ew: "expander ew" and was: "wfScope was"
  shows "\<forall>lfe \<in> set lfes. lfeWf lfe \<Longrightarrow> safely (\<lambda>_. True) (expandFilters ew L was lfes acc)"
proof (induction lfes arbitrary: acc)
  case (Cons lfe lfes)
  have l: "safely (\<lambda>_. True) (liftResult (toLabelFilter L (lfe\<lparr>lfeValue := Some (s, [])\<rparr>)))" for s
    using toLabelFilter_plain [of "lfe\<lparr>lfeValue := Some (s, [])\<rparr>" s L] by (intro safely) auto
  show ?case
  proof (cases "lfeValue lfe")
    case None
    then show ?thesis
      by (auto split: option.splits expr.splits dest: getWithArgExpr_less
          intro!: safely safely_bind [OF safely_ext [OF ew was]] Cons.IH Cons.prems [simplified, THEN conjunct2])
  next
    case (Some st)
    with Cons.prems have wf: "wfExpr (StringExpr (fst st) (snd st))" by (auto simp: lfeWf_def)
    then show ?thesis
      using Some Cons.prems
      by (auto simp: split_beta split: expr.splits
          intro!: safely safely_bind [OF expanderD(2) [OF ew was wf]] safely_bind [OF l] Cons.IH)
  qed
qed (auto intro: safely)

lemma safely_metricName:
  assumes ew: "expander ew" and was: "wfScope was" and t: "expandedExpr t"
  shows "safely expandedExpr (expandMetricName ew L was t lfs)"
  unfolding expandMetricName_def Let_def using t
  by (auto split: option.splits expr.splits dest: getWithArgExpr_less
      intro!: safely safely_ext [OF ew was] safely_bind [where Q = expandedExpr])

lemma safely_modifierArgs: "safely (\<lambda>_. True) (liftResult (expandModifierArgs L was args))"
  using expandModifierArgs_plain by (intro safely) blast+

lemma expander_expandWithExpr: "expander (expandWithExpr L n)"
proof (induction n)
  case 0
  show ?case by (simp add: expander_def safely)
next
  case (Suc n)
  let ?ew = "expandWithExpr L n"
  have str: "safely (\<lambda>e. \<exists>s'. e = StringExpr s' []) (expandWithExpr L (Suc n) was (StringExpr s ts))"
    if "wfScope was" "wfExpr (StringExpr s ts)" for was s ts
    using that by (auto intro!: safely safely_tokens [OF Suc])
  have "safely expandedExpr (expandWithExpr L (Suc n) was e)" if was: "wfScope was" and e: "wfExpr e" for was e
  proof -
    have ps: "safely (\<lambda>ys. length ys = length es \<and> (\<forall>y \<in> set ys. expandedExpr y)) (mapM (?ew was) es)"
      if "\<forall>e \<in> set es. wfExpr e" for es
      using that by (intro safely_mapM expanderD(1) [OF Suc was]) auto
    show ?thesis
    proof (cases e)
      case (StringExpr s ts)
      have "safely expandedExpr (expandWithExpr L (Suc n) was (StringExpr s ts))"
        by (rule safely_mono [OF str [OF was]]) (use e StringExpr in auto)
      then show ?thesis by (simp only: StringExpr)
    next
      case (WithExpr ws e0)
      with was e have "wfScope (was @ ws)" "wfExpr e0" by (auto simp: wfScope_def)
      then show ?thesis using WithExpr by (simp add: expanderD(1) [OF Suc])
    next
      case (BinaryOpExpr op b g j l r)
      with e have "wfExpr l" "wfExpr r" "op \<in> set binaryOps" by auto
      then show ?thesis
        by (auto simp: BinaryOpExpr Let_def split: expr.splits intro!: safely safely_bind [OF safely_modifierArgs]
            safely_bind [OF expanderD(1) [OF Suc was]])
    next
      case (MetricExpr r lfs lfes)
      with e show ?thesis
        by (auto simp: Let_def intro!: safely_if safely_ret safely_metricName [OF Suc was] safely_bind [OF safely_filters [OF Suc was]]
            safely_bind [OF safely_alloc [where P = expandedExpr]])
    qed (use e in \<open>auto split: option.splits dest: getWithArgExpr_less
          intro!: safely safely_bind [OF ps] safely_ext [OF Suc was] safely_bind [OF safely_modifierArgs]
            safely_bind [OF expanderD(1) [OF Suc was]]\<close>)
  qed
  with str show ?case by (simp only: expander_def) blast
qed

end
