(* ===== verification/ExpandTerm.thy ===== *)
theory ExpandTerm
  imports ExpandProps Fuel
begin

text \<open>
  The expansion terminates. A template body is expanded in the scope before the template, so a
  template cannot reach itself; but a body may open new scopes, and its arguments become entries
  that are expanded again. The measure is the multiset of the ranks of the scope's entries and
  of the expression, where the rank counts nested \<open>WITH\<close>s, then the size of the expression.
\<close>

section \<open>More fuel\<close>

lemma below_case_option [below_intros]:
  "below x x' \<Longrightarrow> (\<And>a. below (f a) (f' a)) \<Longrightarrow>
    below (case r of None \<Rightarrow> x | Some a \<Rightarrow> f a) (case r of None \<Rightarrow> x' | Some a \<Rightarrow> f' a)"
  by (cases r) auto

lemma below_ext:
  "(\<And>was e. below (ew was e) (ew' was e)) \<Longrightarrow> below (expandWithExprExt ew was i as) (expandWithExprExt ew' was i as)"
  unfolding expandWithExprExt_def Let_def by (auto intro!: below_intros)

lemma below_tokens:
  assumes "\<And>was e. below (ew was e) (ew' was e)"
  shows "below (expandTokens ew L was ts b) (expandTokens ew' L was ts b)"
  by (induction ts arbitrary: b) (auto split: expr.splits intro!: below_intros below_ext [OF assms])

lemma below_filters:
  assumes "\<And>was e. below (ew was e) (ew' was e)"
  shows "below (expandFilters ew L was ls acc) (expandFilters ew' L was ls acc)"
  by (induction ls arbitrary: acc) (auto split: expr.splits option.splits intro!: below_intros below_ext [OF assms] assms)

lemma below_metricName:
  assumes "\<And>was e. below (ew was e) (ew' was e)"
  shows "below (expandMetricName ew L was t lfs) (expandMetricName ew' L was t lfs)"
  unfolding expandMetricName_def Let_def by (intro below_intros below_ext [OF assms]) auto

lemma below_expandWithExpr: "n \<le> m \<Longrightarrow> below (expandWithExpr L n was e) (expandWithExpr L m was e)"
proof (induction n arbitrary: m was e)
  case (Suc n)
  then obtain m' where m: "m = Suc m'" "n \<le> m'" by (cases m) auto
  note IH = Suc.IH [OF m(2)]
  show ?case
    by (cases e) (auto simp: m(1) Let_def split: expr.splits
        intro!: below_intros below_ext [OF IH] below_tokens [OF IH] below_filters [OF IH] below_metricName [OF IH] IH)
qed simp

section \<open>Enough fuel\<close>

text \<open>\<open>M n\<close> is a computation with fuel \<open>n\<close>; \<open>halts M s\<close>: with enough fuel it has a result from \<open>s\<close>.\<close>

definition fuelled :: "(nat \<Rightarrow> ('s, 'a) comp) \<Rightarrow> bool" where
  "fuelled M \<longleftrightarrow> (\<forall>n m. n \<le> m \<longrightarrow> below (M n) (M m))"

definition halts :: "(nat \<Rightarrow> ('s, 'a) comp) \<Rightarrow> 's \<Rightarrow> bool" where
  "halts M s \<longleftrightarrow> (\<exists>n. fst (M n s) \<noteq> Inl OutOfFuel)"

named_theorems fuelled "computations that are monotone in their fuel"

lemma fuelled_const [fuelled]: "fuelled (\<lambda>n. m)"
  by (simp add: fuelled_def)

lemma fuelled_andThen [fuelled]:
  "fuelled M \<Longrightarrow> (\<And>x. fuelled (\<lambda>n. G n x)) \<Longrightarrow> fuelled (\<lambda>n. andThen (M n) (G n))"
  by (simp add: fuelled_def below_andThen)

lemma fuelled_mapM [fuelled]: "(\<And>x. fuelled (\<lambda>n. f n x)) \<Longrightarrow> fuelled (\<lambda>n. mapM (f n) xs)"
  by (simp add: fuelled_def below_mapM)

lemma fuelled_expand [fuelled]: "fuelled (\<lambda>n. expandWithExpr L n was e)"
  by (simp add: fuelled_def below_expandWithExpr)

lemma fuelled_ext [fuelled]: "fuelled (\<lambda>n. expandWithExprExt (expandWithExpr L n) was i as)"
  by (simp add: fuelled_def below_ext below_expandWithExpr)

lemma halts_const: "(\<And>s. fst (m s) \<noteq> Inl OutOfFuel) \<Longrightarrow> halts (\<lambda>n. m) s"
  by (simp add: halts_def)

lemma halts_simple: "halts (\<lambda>n. ret x) s" "e \<noteq> OutOfFuel \<Longrightarrow> halts (\<lambda>n. fail e) s" "halts (\<lambda>n. allocMetric lfs) s'"
  "halts (\<lambda>n. newMetricExpr nm) s'"
  by (simp_all add: halts_def ret_def fail_def allocMetric_def newMetricExpr_def)

lemma halts_bind:
  assumes M: "fuelled M" "halts M s"
    and G: "\<And>x. fuelled (\<lambda>n. G n x)" "\<And>n x t. M n s = (Inr x, t) \<Longrightarrow> halts (\<lambda>n. G n x) t"
  shows "halts (\<lambda>n. andThen (M n) (G n)) s"
proof -
  obtain n where n: "fst (M n s) \<noteq> Inl OutOfFuel" using M(2) by (auto simp: halts_def)
  obtain r t where rt: "M n s = (r, t)" by (cases "M n s")
  show ?thesis
  proof (cases r)
    case (Inl e)
    with rt n show ?thesis unfolding halts_def by (intro exI [of _ n]) (simp add: andThen_def)
  next
    case (Inr x)
    with rt have "halts (\<lambda>n. G n x) t" by (intro G(2)) simp
    then obtain k where k: "fst (G k x t) \<noteq> Inl OutOfFuel" by (auto simp: halts_def)
    let ?m = "max n k"
    have "below (M n) (M ?m)" using M(1) by (simp add: fuelled_def)
    from belowD [OF this rt] Inr have "M ?m s = (r, t)" by simp
    moreover have "below (G k x) (G ?m x)" using G(1) [of x] by (simp add: fuelled_def)
    then have "G ?m x t = G k x t" using k unfolding below_def by metis
    ultimately show ?thesis using Inr k unfolding halts_def by (intro exI [of _ ?m]) (simp add: andThen_def)
  qed
qed

lemma halts_lift: "r \<noteq> Inl OutOfFuel \<Longrightarrow> halts (\<lambda>n. liftResult r) s"
  by (auto simp: liftResult_def halts_def ret_def fail_def split: sum.splits)

lemma halts_mapM:
  assumes "\<And>x. fuelled (\<lambda>n. f n x)"
  shows "\<forall>x \<in> set xs. \<forall>s. halts (\<lambda>n. f n x) s \<Longrightarrow> halts (\<lambda>n. mapM (f n) xs) s"
proof (induction xs arbitrary: s)
  case (Cons x xs)
  then show ?case
    by (auto intro!: halts_bind assms fuelled intro: halts_simple)
qed (simp add: halts_simple)

section \<open>The measure\<close>

text \<open>Nested \<open>WITH\<close>s, sizes, and the rank of an entry: above its body, and above its arguments.\<close>

definition maxs :: "nat list \<Rightarrow> nat" where
  "maxs ns = foldr max ns 0"

lemma maxs_ge: "n \<in> set ns \<Longrightarrow> n \<le> maxs ns"
  unfolding maxs_def by (induction ns) auto

lemma maxs_le: "(\<And>n. n \<in> set ns \<Longrightarrow> n \<le> k) \<Longrightarrow> maxs ns \<le> k"
  unfolding maxs_def by (induction ns) auto

fun wdepth :: "expr \<Rightarrow> nat" and adepth :: "withArgExpr \<Rightarrow> nat" where
  "wdepth (ParensExpr es) = maxs (map wdepth es)"
| "wdepth (BinaryOpExpr op b g j l r) = max (wdepth l) (wdepth r)"
| "wdepth (FuncExpr name args) = maxs (map wdepth args)"
| "wdepth (AggrFuncExpr name args m limit) = maxs (map wdepth args)"
| "wdepth (WithExpr was e) = Suc (max (maxs (map adepth was)) (wdepth e))"
| "wdepth (RollupExpr e w off st ih) = wdepth e"
| "wdepth e = 0"
| "adepth (WithArg n as e) = wdepth e"

fun esize :: "expr \<Rightarrow> nat" where
  "esize (ParensExpr es) = Suc (sum_list (map esize es))"
| "esize (BinaryOpExpr op b g j l r) = Suc (esize l + esize r)"
| "esize (FuncExpr name args) = Suc (sum_list (map esize args))"
| "esize (AggrFuncExpr name args m limit) = Suc (sum_list (map esize args))"
| "esize (RollupExpr e w off st ih) = Suc (esize e)"
| "esize (MetricExpr r lfs lfes) = 2"
| "esize e = 1"

definition rank :: "withArgExpr \<Rightarrow> nat" where
  "rank wa = 3 * adepth wa + (if waArgs wa = [] then 1 else 2)"

lemma adepth_waExpr: "adepth wa = wdepth (waExpr wa)"
  by (cases wa) auto

lemma expanded_wdepth: "expandedExpr e \<Longrightarrow> wdepth e = 0"
  by (induction e rule: expandedExpr.induct) (auto intro!: maxs_le simp flip: le_zero_eq)

definition ranks :: "withArgExpr list \<Rightarrow> expr \<Rightarrow> nat multiset" where
  "ranks was e = mset (map rank was) + {#3 * wdepth e#}"

definition smaller :: "((withArgExpr list \<times> expr) \<times> (withArgExpr list \<times> expr)) set" where
  "smaller = inv_image (mult less_than <*lex*> less_than) (\<lambda>(was, e). (ranks was e, esize e))"

lemma wf_smaller: "wf smaller"
  unfolding smaller_def by (intro wf_inv_image wf_lex_prod wf_mult wf_less_than)

lemma smaller_mult: "(ranks was' e', ranks was e) \<in> mult less_than \<Longrightarrow> ((was', e'), (was, e)) \<in> smaller"
  by (simp add: smaller_def)

lemma smaller_sub:
  assumes "wdepth e' \<le> wdepth e" "esize e' < esize e"
  shows "((was, e'), (was, e)) \<in> smaller"
proof (cases "wdepth e' = wdepth e")
  case True
  with assms show ?thesis by (simp add: smaller_def ranks_def)
next
  case False
  with assms have "wdepth e' < wdepth e" by simp
  then have "(mset (map rank was) + {#3 * wdepth e'#}, mset (map rank was) + {#3 * wdepth e#}) \<in> mult less_than"
    by (intro one_step_implies_mult) auto
  then show ?thesis by (intro smaller_mult) (simp add: ranks_def)
qed

lemma smaller_elem:
  assumes "e' \<in> set es" "maxs (map wdepth es) \<le> wdepth e" "sum_list (map esize es) < esize e"
  shows "((was, e'), (was, e)) \<in> smaller"
proof (rule smaller_sub)
  show "wdepth e' \<le> wdepth e" using maxs_ge [of "wdepth e'" "map wdepth es"] assms by auto
  show "esize e' < esize e" using member_le_sum_list [of "esize e'" "map esize es"] assms by auto
qed

lemma smaller_with: "((was @ ws, e), (was, WithExpr ws e)) \<in> smaller"
proof (rule smaller_mult)
  have "rank wa < 3 * wdepth (WithExpr ws e)" if "wa \<in> set ws" for wa
    using maxs_ge [of "adepth wa" "map adepth ws"] that by (auto simp: rank_def)
  then have "(mset (map rank was) + (mset (map rank ws) + {#3 * wdepth e#}), mset (map rank was) + {#3 * wdepth (WithExpr ws e)#})
      \<in> mult less_than"
    by (intro one_step_implies_mult) auto
  then show "(ranks (was @ ws) e, ranks was (WithExpr ws e)) \<in> mult less_than"
    by (simp add: ranks_def ac_simps)
qed

lemma smaller_body:
  assumes i: "i < length was" and as: "\<forall>a \<in> set as. expandedExpr a" "length as = length (waArgs (was ! i))"
  shows "((bodyScope was i as, waExpr (was ! i)), (was, e)) \<in> smaller"
proof (rule smaller_mult)
  let ?args = "map (\<lambda>(n, a). WithArg n [] a) (zip (waArgs (was ! i)) as)"
  let ?K = "mset (map rank ?args) + {#3 * wdepth (waExpr (was ! i))#}"
  let ?J = "{#rank (was ! i)#} + mset (map rank (drop (Suc i) was)) + {#3 * wdepth e#}"
  have was: "was = take i was @ was ! i # drop (Suc i) was" using i by (simp add: id_take_nth_drop)
  have "k < rank (was ! i)" if "k \<in># ?K" for k
  proof (cases "k = 3 * wdepth (waExpr (was ! i))")
    case True
    then show ?thesis by (simp add: rank_def adepth_waExpr)
  next
    case False
    with that obtain n a where a: "(n, a) \<in> set (zip (waArgs (was ! i)) as)" "k = rank (WithArg n [] a)" by auto
    then have "k = 1" using as by (auto simp: rank_def expanded_wdepth dest: set_zip_rightD)
    moreover have "waArgs (was ! i) \<noteq> []" using a by auto
    ultimately show ?thesis by (simp add: rank_def)
  qed
  then have "(mset (map rank (take i was)) + ?K, mset (map rank (take i was)) + ?J) \<in> mult less_than"
    by (intro one_step_implies_mult) auto
  moreover have "mset (map rank was) = mset (map rank (take i was)) + {#rank (was ! i)#} + mset (map rank (drop (Suc i) was))"
    by (subst was) simp
  ultimately show "(ranks (bodyScope was i as) (waExpr (was ! i)), ranks was e) \<in> mult less_than"
    by (simp add: ranks_def bodyScope_def ac_simps)
qed

section \<open>Termination\<close>

lemma halts_Suc: "halts (\<lambda>n. M (Suc n)) s \<Longrightarrow> halts M s"
  by (auto simp: halts_def)

text \<open>\<open>haltsBelow was e\<close>: the expansion ends on everything smaller.\<close>

definition haltsBelow :: "golib \<Rightarrow> withArgExpr list \<Rightarrow> expr \<Rightarrow> bool" where
  "haltsBelow L was e \<longleftrightarrow> (\<forall>was' e' s. ((was', e'), (was, e)) \<in> smaller \<longrightarrow> wfScope was' \<longrightarrow> wfExpr e' \<longrightarrow>
     halts (\<lambda>n. expandWithExpr L n was' e') s)"

lemma haltsBelowD:
  "haltsBelow L was e \<Longrightarrow> ((was', e'), (was, e)) \<in> smaller \<Longrightarrow> wfScope was' \<Longrightarrow> wfExpr e' \<Longrightarrow>
    halts (\<lambda>n. expandWithExpr L n was' e') s"
  by (simp add: haltsBelow_def)

lemma fuelled_tokens [fuelled]: "fuelled (\<lambda>n. expandTokens (expandWithExpr L n) L was ts b)"
  by (simp add: fuelled_def below_tokens below_expandWithExpr)

lemma fuelled_filters [fuelled]: "fuelled (\<lambda>n. expandFilters (expandWithExpr L n) L was ls acc)"
  by (simp add: fuelled_def below_filters below_expandWithExpr)

lemma fuelled_metricName [fuelled]: "fuelled (\<lambda>n. expandMetricName (expandWithExpr L n) L was t lfs)"
  by (simp add: fuelled_def below_metricName below_expandWithExpr)

text \<open>Case distinctions on values that do not depend on the fuel.\<close>

lemma fuelled_cases [fuelled]:
  "fuelled M \<Longrightarrow> fuelled N \<Longrightarrow> fuelled (\<lambda>n. if b then M n else N n)"
  "fuelled M \<Longrightarrow> (\<And>i. fuelled (\<lambda>n. G n i)) \<Longrightarrow> fuelled (\<lambda>n. case r of None \<Rightarrow> M n | Some i \<Rightarrow> G n i)"
  by (simp add: fuelled_def, cases r, simp_all add: fuelled_def)

lemma fuelled_case_expr [fuelled]:
  assumes "\<And>a b. fuelled (\<lambda>n. f1 n a b)" "\<And>a. fuelled (\<lambda>n. f2 n a)" "\<And>a. fuelled (\<lambda>n. f3 n a)"
    "\<And>a b c d e f. fuelled (\<lambda>n. f4 n a b c d e f)" "\<And>a b. fuelled (\<lambda>n. f5 n a b)" "\<And>a b c d. fuelled (\<lambda>n. f6 n a b c d)"
    "\<And>a b. fuelled (\<lambda>n. f7 n a b)" "\<And>a b c d e. fuelled (\<lambda>n. f8 n a b c d e)" "\<And>a b c. fuelled (\<lambda>n. f9 n a b c)"
  shows "fuelled (\<lambda>n. case_expr (f1 n) (f2 n) (f3 n) (f4 n) (f5 n) (f6 n) (f7 n) (f8 n) (f9 n) x)"
  using assms by (cases x) auto

lemma halts_if: "(b \<Longrightarrow> halts M s) \<Longrightarrow> (\<not> b \<Longrightarrow> halts N s) \<Longrightarrow> halts (\<lambda>n. if b then M n else N n) s"
  by (cases b) simp_all

lemma halts_option:
  "(r = None \<Longrightarrow> halts M s) \<Longrightarrow> (\<And>i. r = Some i \<Longrightarrow> halts (\<lambda>n. G n i) s) \<Longrightarrow>
    halts (\<lambda>n. case r of None \<Rightarrow> M n | Some i \<Rightarrow> G n i) s"
  by (cases r) simp_all

lemma halts_case_expr:
  assumes "\<And>a b. x = StringExpr a b \<Longrightarrow> halts (\<lambda>n. f1 n a b) s" "\<And>a. halts (\<lambda>n. f2 n a) s" "\<And>a. halts (\<lambda>n. f3 n a) s"
    "\<And>a b c d e f. halts (\<lambda>n. f4 n a b c d e f) s" "\<And>a b. halts (\<lambda>n. f5 n a b) s" "\<And>a b c d. halts (\<lambda>n. f6 n a b c d) s"
    "\<And>a b. halts (\<lambda>n. f7 n a b) s" "\<And>a b c d e. halts (\<lambda>n. f8 n a b c d e) s" "\<And>a b c. halts (\<lambda>n. f9 n a b c) s"
  shows "halts (\<lambda>n. case_expr (f1 n) (f2 n) (f3 n) (f4 n) (f5 n) (f6 n) (f7 n) (f8 n) (f9 n) x) s"
  using assms by (cases x) auto

lemmas halts_intros = halts_bind halts_if halts_option halts_case_expr halts_simple

lemma halts_ext:
  assumes "haltsBelow L was e" "wfScope was" "i < length was" "\<forall>as. args = Some as \<longrightarrow> (\<forall>a \<in> set as. expandedExpr a)"
  shows "halts (\<lambda>n. expandWithExprExt (expandWithExpr L n) was i args) s"
proof -
  let ?as = "case args of None \<Rightarrow> [] | Some as \<Rightarrow> as"
  have as: "\<forall>a \<in> set ?as. expandedExpr a" using assms(4) by (auto split: option.splits)
  show ?thesis
  proof (cases "length (waArgs (was ! i)) = length ?as")
    case True
    have "halts (\<lambda>n. expandWithExpr L n (bodyScope was i ?as) (waExpr (was ! i))) s"
      using assms as True by (intro haltsBelowD [OF assms(1)] smaller_body wfScope_body wfScope_nth) auto
    with True show ?thesis by (simp add: expandWithExprExt_def bodyScope_def Let_def)
  qed (auto simp: expandWithExprExt_def Let_def intro: halts_simple)
qed

lemma halts_tokens:
  assumes "haltsBelow L was e" "wfScope was"
  shows "halts (\<lambda>n. expandTokens (expandWithExpr L n) L was ts b) s"
proof (induction ts arbitrary: b s)
  case (Cons t ts)
  have x: "extractStringValue t \<noteq> Inl OutOfFuel"
    by (auto simp: extractStringValue_def Let_def split: sum.split)
  show ?case
  proof (cases "isStringPrefix t")
    case True
    then show ?thesis by (auto intro!: halts_bind fuelled halts_lift [OF x] Cons)
  next
    case False
    then show ?thesis
      by (auto intro!: halts_intros fuelled halts_ext [OF assms] Cons dest: getWithArgExpr_less)
  qed
qed (simp add: halts_simple)

lemma halts_filters:
  assumes hb: "haltsBelow L was (MetricExpr r lfs ls0)" and was: "wfScope was"
  shows "\<forall>lfe \<in> set ls. lfeWf lfe \<Longrightarrow> halts (\<lambda>n. expandFilters (expandWithExpr L n) L was ls acc) s"
proof (induction ls arbitrary: acc s)
  case (Cons lfe ls)
  have t: "toLabelFilter L l \<noteq> Inl OutOfFuel" for l
    by (auto simp: toLabelFilter_def Let_def split: option.split)
  show ?case
  proof (cases "lfeValue lfe")
    case None
    then show ?thesis using Cons.prems
      by (auto intro!: halts_intros fuelled halts_ext [OF hb was] Cons.IH dest: getWithArgExpr_less)
  next
    case (Some v)
    obtain s0 ts where v: "v = (s0, ts)" by (cases v)
    have "halts (\<lambda>n. expandWithExpr L n was (StringExpr s0 ts)) s" for s
      by (rule haltsBelowD [OF hb smaller_sub was]) (use Some v Cons.prems in \<open>auto simp: lfeWf_def\<close>)
    with Some v Cons.prems show ?thesis
      by (auto intro!: halts_intros fuelled halts_lift [OF t] Cons.IH)
  qed
qed (simp add: halts_simple)

lemma halts_metricName:
  assumes "haltsBelow L was e" "wfScope was"
  shows "halts (\<lambda>n. expandMetricName (expandWithExpr L n) L was t lfs) s"
  unfolding expandMetricName_def Let_def
  by (auto intro!: halts_intros fuelled halts_ext [OF assms] dest: getWithArgExpr_less)

lemma halts_modifierArgs: "halts (\<lambda>n. liftResult (expandModifierArgs L was args)) s"
proof (rule halts_lift)
  have a: "expandModifierArg L was as a \<noteq> Inl OutOfFuel" for as a
    by (auto simp: expandModifierArg_def Let_def split: option.split expr.split)
  have "expandModifierArgs_loop L was as args \<noteq> Inl OutOfFuel" for as
    by (induction args) (use a in \<open>auto split: sum.split\<close>)
  then show "expandModifierArgs L was args \<noteq> Inl OutOfFuel"
    by (auto simp: expandModifierArgs_def split: sum.split)
qed

lemma halts_elements:
  assumes "haltsBelow L was e" "wfScope was" "\<forall>x \<in> set es. wfExpr x"
    "maxs (map wdepth es) \<le> wdepth e" "sum_list (map esize es) < esize e"
  shows "halts (\<lambda>n. mapM (expandWithExpr L n was) es) s"
  using assms by (intro halts_mapM fuelled ballI allI haltsBelowD [OF assms(1)] smaller_elem) auto

lemma expand_halts: "wfScope was \<Longrightarrow> wfExpr e \<Longrightarrow> halts (\<lambda>n. expandWithExpr L n was e) s"
proof (induction "(was, e)" arbitrary: was e s rule: wf_induct_rule [OF wf_smaller])
  case (1 was e s)
  note was = \<open>wfScope was\<close>
  have hb: "haltsBelow L was e" unfolding haltsBelow_def using 1(1) by blast
  have sub: "halts (\<lambda>n. expandWithExpr L n was e') s" if "wdepth e' \<le> wdepth e" "esize e' < esize e" "wfExpr e'" for e' s
    using haltsBelowD [OF hb smaller_sub was] that by blast
  show ?case
  proof (rule halts_Suc, cases e)
    case (StringExpr s0 ts)
    then show "halts (\<lambda>n. expandWithExpr L (Suc n) was e) s"
      by (auto intro!: halts_intros fuelled halts_tokens [OF hb was])
  next
    case (NumberExpr x)
    then show "halts (\<lambda>n. expandWithExpr L (Suc n) was e) s" by (simp add: halts_simple)
  next
    case (ParensExpr es)
    then show "halts (\<lambda>n. expandWithExpr L (Suc n) was e) s"
      using 1 by (auto intro!: halts_intros fuelled halts_elements [OF hb was])
  next
    case (BinaryOpExpr op b g j l r)
    then have "halts (\<lambda>n. expandWithExpr L n was l) s" "halts (\<lambda>n. expandWithExpr L n was r) s" for s
      using 1 sub [of l] sub [of r] by auto
    with BinaryOpExpr show "halts (\<lambda>n. expandWithExpr L (Suc n) was e) s"
      by (auto simp: Let_def intro!: halts_intros fuelled halts_modifierArgs)
  next
    case (FuncExpr name args)
    have "\<forall>a \<in> set as. expandedExpr a" if "mapM (expandWithExpr L n was) args t = (Inr as, t')" for n as t t'
    proof -
      have "safely (\<lambda>ys. length ys = length args \<and> (\<forall>y \<in> set ys. expandedExpr y)) (mapM (expandWithExpr L n was) args)"
        using 1 FuncExpr by (intro safely_mapM expanderD(1) [OF expander_expandWithExpr was]) auto
      with that show ?thesis unfolding safely_def by blast
    qed
    with FuncExpr show "halts (\<lambda>n. expandWithExpr L (Suc n) was e) s"
      using 1 by (auto intro!: halts_intros fuelled halts_elements [OF hb was] halts_ext [OF hb was] dest: getWithArgExpr_less)
  next
    case (AggrFuncExpr name args m limit)
    then show "halts (\<lambda>n. expandWithExpr L (Suc n) was e) s"
      using 1 by (auto intro!: halts_intros fuelled halts_elements [OF hb was] halts_modifierArgs)
  next
    case (WithExpr ws e0)
    with 1 have "wfScope (was @ ws)" "wfExpr e0" by (auto simp: wfScope_def)
    with WithExpr show "halts (\<lambda>n. expandWithExpr L (Suc n) was e) s"
      using haltsBelowD [OF hb, of "was @ ws" e0 s] smaller_with by simp
  next
    case (RollupExpr e0 w off st ih)
    then have "halts (\<lambda>n. expandWithExpr L n was e0) s" for s using 1 sub [of e0] by auto
    with RollupExpr show "halts (\<lambda>n. expandWithExpr L (Suc n) was e) s"
      by (auto intro!: halts_intros fuelled)
  next
    case (MetricExpr r lfs lfes)
    with 1 hb show "halts (\<lambda>n. expandWithExpr L (Suc n) was e) s"
      by (auto simp: Let_def intro!: halts_intros fuelled halts_filters halts_metricName)
  qed
qed

end
