(* ===== verification/ParseProps.thy ===== *)
theory ParseProps
  imports ExpandTerm
begin

text \<open>
  The passes after expansion, and the pipeline of \<open>Parse\<close>: what comes out has no parentheses,
  templates or tokens, its constants are folded, and no panic is reachable.
\<close>

section \<open>Removing parentheses\<close>

fun plainExpr :: "expr \<Rightarrow> bool" where
  "plainExpr (StringExpr s ts) \<longleftrightarrow> ts = []"
| "plainExpr (NumberExpr n) \<longleftrightarrow> True"
| "plainExpr (ParensExpr es) \<longleftrightarrow> False"
| "plainExpr (BinaryOpExpr op b g j l r) \<longleftrightarrow> op \<in> set binaryOps \<and> plainExpr l \<and> plainExpr r"
| "plainExpr (FuncExpr name args) \<longleftrightarrow> (\<forall>e \<in> set args. plainExpr e)"
| "plainExpr (AggrFuncExpr name args m limit) \<longleftrightarrow> (\<forall>e \<in> set args. plainExpr e)"
| "plainExpr (WithExpr was e) \<longleftrightarrow> False"
| "plainExpr (RollupExpr e w off st ih) \<longleftrightarrow> plainExpr e"
| "plainExpr (MetricExpr r lfs lfes) \<longleftrightarrow> lfes = []"

lemma plain_removeParens: "expandedExpr e \<Longrightarrow> plainExpr (removeParensExpr e)"
proof (induction e rule: removeParensExpr.induct)
  case (5 es)
  then show ?case by (cases es) (auto simp: Let_def)
qed auto

lemma removeParens_plain: "plainExpr e \<Longrightarrow> removeParensExpr e = e"
  by (induction e rule: removeParensExpr.induct) (auto intro: map_idI)

section \<open>Folding constants\<close>

fun isNumber :: "expr \<Rightarrow> bool" where
  "isNumber (NumberExpr n) = True"
| "isNumber _ = False"

fun folded :: "expr \<Rightarrow> bool" where
  "folded (BinaryOpExpr op b g j l r) \<longleftrightarrow> \<not> (isNumber l \<and> isNumber r) \<and> folded l \<and> folded r"
| "folded (FuncExpr name args) \<longleftrightarrow> (\<forall>e \<in> set args. folded e)"
| "folded (AggrFuncExpr name args m limit) \<longleftrightarrow> (\<forall>e \<in> set args. folded e)"
| "folded (RollupExpr e w off st ih) \<longleftrightarrow> folded e"
| "folded e \<longleftrightarrow> True"

lemma mapM_pure:
  assumes "\<And>x s. x \<in> set xs \<Longrightarrow> \<exists>y. f x s = (Inr y, s) \<and> P y"
  shows "\<exists>ys. mapM f xs s = (Inr ys, s) \<and> length ys = length xs \<and> (\<forall>y \<in> set ys. P y)"
  using assms
proof (induction xs)
  case (Cons x xs)
  then obtain y ys where "f x s = (Inr y, s)" "P y" "mapM f xs s = (Inr ys, s)" "length ys = length xs" "\<forall>y \<in> set ys. P y"
    by fastforce
  then show ?case by (intro exI [of _ "y # ys"]) (simp add: andThen_def ret_def)
qed (simp add: ret_def)

lemma number_pair_cases:
  obtains x y where "l = NumberExpr x" "r = NumberExpr y" | "\<not> (isNumber l \<and> isNumber r)"
  by (cases l; cases r) auto

lemma simplify_pair:
  "\<not> isNumber l \<or> \<not> isNumber r \<Longrightarrow>
    (case l of NumberExpr x \<Rightarrow> (case r of NumberExpr y \<Rightarrow> f x y | _ \<Rightarrow> g) | _ \<Rightarrow> g) = g"
  by (cases l; cases r) auto

lemma simplify_plain:
  "plainExpr e \<Longrightarrow> \<exists>e'. simplifyConstants L e s = (Inr e', s) \<and> plainExpr e' \<and> folded e'"
proof (induction L e arbitrary: s rule: simplifyConstants.induct)
  case (1 L e w off st ih)
  then obtain e' where "simplifyConstants L e s = (Inr e', s)" "plainExpr e'" "folded e'" by fastforce
  then show ?case by (simp add: andThen_def ret_def)
next
  case (2 L name args m lim)
  have "\<exists>ys. mapM (simplifyConstants L) args s = (Inr ys, s) \<and> length ys = length args \<and> (\<forall>y \<in> set ys. plainExpr y \<and> folded y)"
    using 2 by (intro mapM_pure) simp
  then show ?case by (auto simp: andThen_def ret_def)
next
  case (3 L name args)
  have "\<exists>ys. mapM (simplifyConstants L) args s = (Inr ys, s) \<and> length ys = length args \<and> (\<forall>y \<in> set ys. plainExpr y \<and> folded y)"
    using 3 by (intro mapM_pure) simp
  then show ?case by (auto simp: andThen_def ret_def)
next
  case (5 L op b g j l r)
  from "5.prems" have "plainExpr l" "plainExpr r" and op: "op \<in> set binaryOps" by auto
  with 5 obtain l' r' where lr: "simplifyConstants L l s = (Inr l', s)" "plainExpr l'" "folded l'"
    "simplifyConstants L r s = (Inr r', s)" "plainExpr r'" "folded r'" by metis
  show ?case
  proof (rule number_pair_cases [of l' r'])
    fix x y
    assume "l' = NumberExpr x" "r' = NumberExpr y"
    moreover obtain n where "binaryOpEval L op x y b = Inr n" using binaryOpEval_total [OF op] by blast
    ultimately show ?thesis using lr by (simp add: andThen_def ret_def liftResult_def)
  next
    assume "\<not> (isNumber l' \<and> isNumber r')"
    with lr op show ?thesis by (auto simp: andThen_def ret_def simplify_pair)
  qed
qed (simp_all add: ret_def)

lemma simplify_folded: "plainExpr e \<Longrightarrow> folded e \<Longrightarrow> simplifyConstants L e s = (Inr e, s)"
proof (induction L e arbitrary: s rule: simplifyConstants.induct)
  case (2 L name args m lim)
  have "mapM (simplifyConstants L) args s = (Inr args, s)"
    using 2 by (induction args) (auto simp: andThen_def ret_def)
  then show ?case by (simp add: andThen_def ret_def)
next
  case (3 L name args)
  have "mapM (simplifyConstants L) args s = (Inr args, s)"
    using 3 by (induction args) (auto simp: andThen_def ret_def)
  then show ?case by (simp add: andThen_def ret_def)
next
  case (5 L op b g j l r)
  then have "simplifyConstants L l s = (Inr l, s)" "simplifyConstants L r s = (Inr r, s)" by auto
  with 5 show ?case by (auto simp: andThen_def ret_def simplify_pair)
qed (auto simp: andThen_def ret_def)

section \<open>The pipeline\<close>

lemma mustParseAll_parsed:
  "mustParseAll L ss = Inr was \<Longrightarrow> \<forall>wa \<in> set was. parsedArg wa"
proof (induction ss arbitrary: was)
  case (Cons s ss)
  have y: "yields parsedArg (andThen Next (\<lambda>_. parseWithArgExpr n (parseExpr L n)))" for n
    by (intro yields_steps yields_withArg yields_parseExpr)
  from Cons.prems obtain wa was' where w: "mustParseWithArgExpr L s = Inr wa" "mustParseAll L ss = Inr was'" "was = wa # was'"
    by (auto split: sum.splits)
  from w(1) yieldsD [OF y] have "parsedArg wa" by (auto simp: mustParseWithArgExpr_def split: prod.splits sum.splits)
  with Cons.IH [OF w(2)] w(3) show ?case by simp
qed simp

lemma default_wf: "getDefaultWithArgExprs L = Inr was \<Longrightarrow> wfScope was"
  using mustParseAll_parsed [of L defaultTemplates] parsed_wf(2)
  by (auto simp: getDefaultWithArgExprs_def prepareWithArgExprs_def wfScope_def split: sum.splits option.splits)

text \<open>The last two passes on an expanded expression.\<close>

lemma finish_expanded:
  assumes "expandedExpr e"
  shows "\<exists>e'. simplifyConstants L (removeParensExpr e) s = (Inr e', s) \<and> plainExpr e' \<and> folded e'"
  by (rule simplify_plain [OF plain_removeParens [OF assms]])

lemma safelyD:
  "safely P m \<Longrightarrow> m s = (Inr x, t) \<Longrightarrow> P x"
  "safely P m \<Longrightarrow> m s = (Inl e, t) \<Longrightarrow> \<not> isPanic e"
  unfolding safely_def by blast+

lemma safely_wrapErr:
  assumes "safely P m" "\<And>e. \<not> isPanic (w e)"
  shows "safely P (wrapErr w m)"
  using safelyD [OF assms(1)] assms(2)
  by (fastforce simp: safely_def wrapErr_def split: prod.splits sum.splits failure.splits)

definition expandAndFinish :: "golib \<Rightarrow> withArgExpr list \<Rightarrow> expr \<Rightarrow> nat \<Rightarrow> expr expander" where
  "expandAndFinish L was e n =
     andThen (wrapErr (Wrapf ''cannot expand WITH expressions: %s'' []) (expandWithExpr L n was e))
       (\<lambda>e. simplifyConstants L (removeParensExpr e))"

lemma expandAndFinish_safe:
  assumes "wfScope was" "wfExpr e"
  shows "safely (\<lambda>e. plainExpr e \<and> folded e) (expandAndFinish L was e n)"
proof -
  have "safely expandedExpr (expandWithExpr L n was e)"
    using assms by (intro expanderD(1) [OF expander_expandWithExpr])
  then have w: "safely expandedExpr (wrapErr (Wrapf ''cannot expand WITH expressions: %s'' []) (expandWithExpr L n was e))"
    by (rule safely_wrapErr) simp
  show ?thesis
    unfolding expandAndFinish_def
  proof (rule safely_bind [OF w])
    fix e
    assume "expandedExpr e"
    then show "safely (\<lambda>e. plainExpr e \<and> folded e) (simplifyConstants L (removeParensExpr e) :: expr expander)"
      using finish_expanded [of e L] unfolding safely_def by (metis Inl_Inr_False Inr_inject Pair_inject)
  qed
qed

lemma expandAndFinish_fuelled: "fuelled (expandAndFinish L was e)"
  unfolding fuelled_def expandAndFinish_def by (auto intro!: below_intros below_expandWithExpr)

lemma expandAndFinish_halts:
  assumes "wfScope was" "wfExpr e"
  shows "halts (expandAndFinish L was e) s"
proof -
  obtain n where n: "fst (expandWithExpr L n was e s) \<noteq> Inl OutOfFuel"
    using expand_halts [OF assms, of L s] by (auto simp: halts_def)
  have ok: "safely expandedExpr (expandWithExpr L n was e)"
    using assms by (intro expanderD(1) [OF expander_expandWithExpr])
  obtain r t where rt: "expandWithExpr L n was e s = (r, t)" by fastforce
  have "fst (expandAndFinish L was e n s) \<noteq> Inl OutOfFuel"
  proof (cases r)
    case (Inl f)
    with rt n show ?thesis by (cases f) (auto simp: expandAndFinish_def andThen_def wrapErr_def)
  next
    case (Inr x)
    with rt safelyD(1) [OF ok] have "expandedExpr x" by simp
    from finish_expanded [OF this, of L t] rt Inr show ?thesis
      by (auto simp: expandAndFinish_def andThen_def wrapErr_def)
  qed
  then show ?thesis by (auto simp: halts_def)
qed

text \<open>\<open>Parse\<close>, once the built-in templates are there.\<close>

lemma Parse_cases:
  assumes "getDefaultWithArgExprs L = Inr was"
  shows "Parse L n s = (case parseString L s of Inl e \<Rightarrow> Inl e | Inr e \<Rightarrow> fst (expandAndFinish L was e n 0))"
  using assms by (simp add: Parse_def expandAndFinish_def split: sum.split)

lemma Parse_result:
  assumes "getDefaultWithArgExprs L = Inr was" "Parse L n s = Inr e"
  shows "plainExpr e \<and> folded e"
proof -
  obtain e0 where e0: "parseString L s = Inr e0" "fst (expandAndFinish L was e0 n 0) = Inr e"
    using assms by (auto simp: Parse_cases split: sum.splits)
  with expandAndFinish_safe [OF default_wf [OF assms(1)] parsed_wf(1) [OF parseString_parsed [OF e0(1)]], of L n]
  show ?thesis unfolding safely_def by (metis prod.collapse)
qed

lemma Parse_total_lemma:
  assumes d: "getDefaultWithArgExprs L = Inr was"
  shows "\<exists>N. \<forall>n \<ge> N. Parse L n s = Parse L N s \<and>
    (case Parse L n s of Inl e \<Rightarrow> \<not> isPanic e \<and> e \<noteq> OutOfFuel | Inr e \<Rightarrow> True)"
proof (cases "parseString L s")
  case (Inl e)
  with parseString_total [of L s] show ?thesis by (intro exI [of _ 0]) (simp add: Parse_cases [OF d])
next
  case (Inr e)
  note wf = default_wf [OF d] parsed_wf(1) [OF parseString_parsed [OF Inr]]
  obtain N where N: "fst (expandAndFinish L was e N 0) \<noteq> Inl OutOfFuel"
    using expandAndFinish_halts [OF wf] by (auto simp: halts_def)
  have "Parse L n s = Parse L N s" if "N \<le> n" for n
  proof -
    have "below (expandAndFinish L was e N) (expandAndFinish L was e n)"
      using expandAndFinish_fuelled [of L was e] that by (simp add: fuelled_def)
    with N have "expandAndFinish L was e N 0 = expandAndFinish L was e n 0" unfolding below_def by blast
    with Inr show ?thesis by (simp add: Parse_cases [OF d])
  qed
  moreover have "case Parse L N s of Inl e \<Rightarrow> \<not> isPanic e \<and> e \<noteq> OutOfFuel | Inr e \<Rightarrow> True"
    using N Inr safelyD(2) [OF expandAndFinish_safe [OF wf, of L N]]
    by (cases "expandAndFinish L was e N 0") (auto simp: Parse_cases [OF d] split: sum.split)
  ultimately show ?thesis by (intro exI [of _ N]) metis
qed

end
