(* ===== verification/DefaultTemplates.thy ===== *)
theory DefaultTemplates
  imports ParserTokens ParseProps
begin

text \<open>
  The built-in templates of \<open>src/mateql/parser.go\<close> parse, so that the first call of \<open>Parse\<close>, which
  prepares them (\<open>prepareWithArgExprs\<close>, \<open>mustParseWithArgExpr\<close>), does not panic. Each template is lexed by evaluation, and the
  parser is then run on its tokens by the simplifier, with congruence rules that make it evaluate
  a computation only when its state is known.
\<close>

section \<open>The lexer as a zipper of tokens\<close>

definition lexerAt :: "string list \<Rightarrow> string \<Rightarrow> string list \<Rightarrow> lexer" where
  "lexerAt ps t ts = \<lparr>Token = t, prevTokens = rev ps, nextTokens = rev ts, sOrig = [], sTail = [], lexErr = None\<rparr>"

lemma next_token_Nil: "next_token [] = (Inr [], [])"
  by code_simp

lemma lexerAt_ops:
  "Next (lexerAt ps t (u # ts)) = (Inr (), lexerAt (t # ps) u ts)"
  "Next (lexerAt ps t []) = (Inr (), lexerAt (t # ps) [] [])"
  "Prev (lexerAt (u # ps) t ts) = (Inr (), lexerAt ps u (t # ts))"
  "tok (lexerAt ps t ts) = (Inr t, lexerAt ps t ts)"
  by (simp_all add: lexerAt_def Next_def Prev_def tok_def next_token_Nil)

section \<open>Lazy evaluation of the parser\<close>

lemma lazy_congs:
  "s = s' \<Longrightarrow> andThen m f s = andThen m f s'"
  "b = b' \<Longrightarrow> (if b then x else y) = (if b' then x else y)"
  "p = p' \<Longrightarrow> case_prod g p = case_prod g p'"
  "r = r' \<Longrightarrow> case_sum h k r = case_sum h k r'"
  "q = q' \<Longrightarrow> case_option u v q = case_option u v q'"
  "lexerAt ps t ts = lexerAt ps t ts"
  by simp_all

lemma andThen_at: "andThen m f s = (case m s of (Inl e, t) \<Rightarrow> (Inl e, t) | (Inr x, t) \<Rightarrow> f x t)"
  by (simp add: andThen_def)

lemma apply_cases:
  "(if b then f else g) s = (if b then f s else g s)"
  "Let x h s = h x s"
  "(case r of Inl a \<Rightarrow> F a | Inr c \<Rightarrow> G c) s = (case r of Inl a \<Rightarrow> F a s | Inr c \<Rightarrow> G c s)"
  "(case q of None \<Rightarrow> H | Some c \<Rightarrow> K c) s = (case q of None \<Rightarrow> H s | Some c \<Rightarrow> K c s)"
  by (auto split: sum.split option.split)

lemmas parser_equations = lexerAt_ops ret_def fail_def wrapErr_def
  parseWithArgExpr_def [THEN fun_cong] parseExpr_def [THEN fun_cong] parseExpr_with_def [THEN fun_cong] 
  parseSingleExpr_body_def [THEN fun_cong] parseSingleExprWithoutRollupSuffix_def [THEN fun_cong] 
  parseIdentList_def [THEN fun_cong] parseArgListExpr_def [THEN fun_cong] parseParensExpr_def [THEN fun_cong] 
  parseFuncExpr_def [THEN fun_cong] parseIdentExpr_def [THEN fun_cong] parseMetricExpr_def [THEN fun_cong] 
  parseBinaryOpHead_def [THEN fun_cong] parsePositiveNumberExpr_def [THEN fun_cong] 
  parseStringExpr_def [THEN fun_cong] nextTok_def [THEN fun_cong] failf_def [THEN fun_cong] 
  parseIdentList_loop.simps [THEN fun_cong] parseArgListExpr_loop.simps [THEN fun_cong] 
  parseParensExpr_loop.simps [THEN fun_cong] parseStringExpr_loop.simps [THEN fun_cong] 
  parseExpr_loop.simps [THEN fun_cong]

section \<open>The tokens of the templates\<close>

definition identTokens :: "string list" where
  "identTokens =
     [''ru'', ''freev'', ''maxv'', ''clamp_min'', ''ttf'', ''smooth_exponential'', ''clamp_max'',
     ''deriv_fast'', ''step'', ''median_over_time'', ''m'', ''quantile_over_time'', ''range_median'',
     ''q'', ''range_quantile'', ''alias'', ''name'', ''label_set'']"

definition numberTokens :: "string list" where
  "numberTokens = [''0'', ''100'', ''365'', ''24'', ''3600'', ''300'', ''1'', ''0.5'']"

definition operatorTokens :: "string list" where
  "operatorTokens = [''-'', ''/'', ''*'']"

definition otherTokens :: "string list" where
  "otherTokens = [''('', '','', '')'', ''='', ''\"__name__\"'']"

definition floatOf :: "string \<Rightarrow> float64" where
  "floatOf t = (case ParseFloat t of Inl e \<Rightarrow> FNaN | Inr x \<Rightarrow> x)"

text \<open>What the parser asks of a token that is no keyword.\<close>

definition plainToken :: "string \<Rightarrow> bool" where
  "plainToken t \<longleftrightarrow> ToLower t = t \<and> \<not> isWith t \<and> \<not> isOffset t \<and> \<not> isInfOrNaN t \<and> \<not> isAggrFunc t \<and>
     \<not> isBinaryOpBoolModifier t \<and> \<not> isBinaryOpGroupModifier t \<and> \<not> isEOF t"

lemma tokens_checked:
  "list_all (\<lambda>t. plainToken t \<and> \<not> isBinaryOp t \<and> isIdentPrefix t \<and> \<not> isPositiveNumberPrefix t \<and> \<not> isStringPrefix t) identTokens"
  "list_all (\<lambda>t. plainToken t \<and> \<not> isBinaryOp t \<and> \<not> isIdentPrefix t \<and> isPositiveNumberPrefix t \<and> \<not> isStringPrefix t) numberTokens"
  "list_all (\<lambda>t. plainToken t \<and> isBinaryOp t \<and> \<not> isIdentPrefix t \<and> \<not> isPositiveNumberPrefix t \<and> \<not> isStringPrefix t) operatorTokens"
  "list_all (\<lambda>t. plainToken t \<and> \<not> isBinaryOp t \<and> \<not> isIdentPrefix t \<and> \<not> isPositiveNumberPrefix t \<and> isStringPrefix t = (hd t = dquote)) otherTokens"
  "list_all (\<lambda>t. ParseFloat t = Inr (floatOf t)) numberTokens"
  by code_simp+

lemmas tokenFacts = tokens_checked [unfolded identTokens_def numberTokens_def operatorTokens_def otherTokens_def
    list.pred_inject plainToken_def]

lemma end_token:
  "ToLower [] = []" "isEOF []" "\<not> isBinaryOp []" "\<not> isOffset []" "\<not> isWith []"
  by code_simp+

lemma template_names:
  "list_all (\<lambda>n. \<not> IsRollupFunc n \<and> \<not> IsTransformFunc n) [''ru'', ''ttf'', ''median_over_time'', ''range_median'', ''alias'']"
  by code_simp

lemmas operatorFacts = binaryOpPriority_def binaryOpPriorities_def isRightAssociativeBinaryOp_def
lemmas nameFacts = template_names [unfolded list.pred_inject]

section \<open>The templates\<close>

lemma template_ru: "\<exists>wa. mustParseWithArgExpr L (defaultTemplates ! 0) = Inr wa \<and> waName wa = ''ru''"
proof -
  let ?ts = "[''ru'', ''('', ''freev'', '','', ''maxv'', '')'', ''='', ''clamp_min'', ''('', ''maxv'', ''-'',
     ''clamp_min'', ''('', ''freev'', '','', ''0'', '')'', '','', ''0'', '')'', ''/'', ''clamp_min'',
     ''('', ''maxv'', '','', ''0'', '')'', ''*'', ''100'']"
  have l: "lexAll (defaultTemplates ! 0) = (?ts, None)" by code_simp
  have "\<exists>wa. fst (andThen Next (\<lambda>_. parseWithArgExpr 8 (parseExpr L 8)) (lexerAt [] [] ?ts)) = Inr wa \<and> waName wa = ''ru''"
    by (simp add: eval_nat_numeral andThen_at apply_cases parser_equations operatorFacts nameFacts end_token tokenFacts
        del: ToLower.simps(2) isIdentPrefix.simps(2) isStringPrefix.simps(2) isPositiveNumberPrefix.simps(2)
          parseIdentList_loop.simps parseArgListExpr_loop.simps parseParensExpr_loop.simps parseStringExpr_loop.simps parseExpr_loop.simps
        cong: lazy_congs)
  then obtain wa where "fst (andThen Next (\<lambda>_. parseWithArgExpr 8 (parseExpr L 8)) (lexerAt [] [] ?ts)) = Inr wa" "waName wa = ''ru''"
    by blast
  with mustParse_tokens [OF l] show ?thesis by (auto simp: parseFuel_def defaultTemplates_def lexerAt_def tokenLexer_def)
qed

lemma template_ttf: "\<exists>wa. mustParseWithArgExpr L (defaultTemplates ! 1) = Inr wa \<and> waName wa = ''ttf''"
proof -
  let ?ts = "[''ttf'', ''('', ''freev'', '')'', ''='', ''smooth_exponential'', ''('', ''clamp_max'', ''('',
     ''clamp_max'', ''('', ''-'', ''freev'', '','', ''0'', '')'', ''/'', ''clamp_max'', ''('',
     ''deriv_fast'', ''('', ''freev'', '')'', '','', ''0'', '')'', '','', ''365'', ''*'', ''24'', ''*'',
     ''3600'', '')'', '','', ''clamp_max'', ''('', ''step'', ''('', '')'', ''/'', ''300'', '','', ''1'',
     '')'', '')'']"
  have l: "lexAll (defaultTemplates ! 1) = (?ts, None)" by code_simp
  have "\<exists>wa. fst (andThen Next (\<lambda>_. parseWithArgExpr 8 (parseExpr L 8)) (lexerAt [] [] ?ts)) = Inr wa \<and> waName wa = ''ttf''"
    by (simp add: eval_nat_numeral andThen_at apply_cases parser_equations operatorFacts nameFacts end_token tokenFacts
        del: ToLower.simps(2) isIdentPrefix.simps(2) isStringPrefix.simps(2) isPositiveNumberPrefix.simps(2)
          parseIdentList_loop.simps parseArgListExpr_loop.simps parseParensExpr_loop.simps parseStringExpr_loop.simps parseExpr_loop.simps
        cong: lazy_congs)
  then obtain wa where "fst (andThen Next (\<lambda>_. parseWithArgExpr 8 (parseExpr L 8)) (lexerAt [] [] ?ts)) = Inr wa" "waName wa = ''ttf''"
    by blast
  with mustParse_tokens [OF l] show ?thesis by (auto simp: parseFuel_def defaultTemplates_def lexerAt_def tokenLexer_def)
qed

lemma template_median_over_time: "\<exists>wa. mustParseWithArgExpr L (defaultTemplates ! 2) = Inr wa \<and> waName wa = ''median_over_time''"
proof -
  let ?ts = "[''median_over_time'', ''('', ''m'', '')'', ''='', ''quantile_over_time'', ''('', ''0.5'', '','',
     ''m'', '')'']"
  have l: "lexAll (defaultTemplates ! 2) = (?ts, None)" by code_simp
  have "\<exists>wa. fst (andThen Next (\<lambda>_. parseWithArgExpr 8 (parseExpr L 8)) (lexerAt [] [] ?ts)) = Inr wa \<and> waName wa = ''median_over_time''"
    by (simp add: eval_nat_numeral andThen_at apply_cases parser_equations operatorFacts nameFacts end_token tokenFacts
        del: ToLower.simps(2) isIdentPrefix.simps(2) isStringPrefix.simps(2) isPositiveNumberPrefix.simps(2)
          parseIdentList_loop.simps parseArgListExpr_loop.simps parseParensExpr_loop.simps parseStringExpr_loop.simps parseExpr_loop.simps
        cong: lazy_congs)
  then obtain wa where "fst (andThen Next (\<lambda>_. parseWithArgExpr 8 (parseExpr L 8)) (lexerAt [] [] ?ts)) = Inr wa" "waName wa = ''median_over_time''"
    by blast
  with mustParse_tokens [OF l] show ?thesis by (auto simp: parseFuel_def defaultTemplates_def lexerAt_def tokenLexer_def)
qed

lemma template_range_median: "\<exists>wa. mustParseWithArgExpr L (defaultTemplates ! 3) = Inr wa \<and> waName wa = ''range_median''"
proof -
  let ?ts = "[''range_median'', ''('', ''q'', '')'', ''='', ''range_quantile'', ''('', ''0.5'', '','', ''q'',
     '')'']"
  have l: "lexAll (defaultTemplates ! 3) = (?ts, None)" by code_simp
  have "\<exists>wa. fst (andThen Next (\<lambda>_. parseWithArgExpr 8 (parseExpr L 8)) (lexerAt [] [] ?ts)) = Inr wa \<and> waName wa = ''range_median''"
    by (simp add: eval_nat_numeral andThen_at apply_cases parser_equations operatorFacts nameFacts end_token tokenFacts
        del: ToLower.simps(2) isIdentPrefix.simps(2) isStringPrefix.simps(2) isPositiveNumberPrefix.simps(2)
          parseIdentList_loop.simps parseArgListExpr_loop.simps parseParensExpr_loop.simps parseStringExpr_loop.simps parseExpr_loop.simps
        cong: lazy_congs)
  then obtain wa where "fst (andThen Next (\<lambda>_. parseWithArgExpr 8 (parseExpr L 8)) (lexerAt [] [] ?ts)) = Inr wa" "waName wa = ''range_median''"
    by blast
  with mustParse_tokens [OF l] show ?thesis by (auto simp: parseFuel_def defaultTemplates_def lexerAt_def tokenLexer_def)
qed

lemma template_alias: "\<exists>wa. mustParseWithArgExpr L (defaultTemplates ! 4) = Inr wa \<and> waName wa = ''alias''"
proof -
  let ?ts = "[''alias'', ''('', ''q'', '','', ''name'', '')'', ''='', ''label_set'', ''('', ''q'', '','',
     ''\"__name__\"'', '','', ''name'', '')'']"
  have l: "lexAll (defaultTemplates ! 4) = (?ts, None)" by code_simp
  have "\<exists>wa. fst (andThen Next (\<lambda>_. parseWithArgExpr 8 (parseExpr L 8)) (lexerAt [] [] ?ts)) = Inr wa \<and> waName wa = ''alias''"
    by (simp add: eval_nat_numeral andThen_at apply_cases parser_equations operatorFacts nameFacts end_token tokenFacts
        del: ToLower.simps(2) isIdentPrefix.simps(2) isStringPrefix.simps(2) isPositiveNumberPrefix.simps(2)
          parseIdentList_loop.simps parseArgListExpr_loop.simps parseParensExpr_loop.simps parseStringExpr_loop.simps parseExpr_loop.simps
        cong: lazy_congs)
  then obtain wa where "fst (andThen Next (\<lambda>_. parseWithArgExpr 8 (parseExpr L 8)) (lexerAt [] [] ?ts)) = Inr wa" "waName wa = ''alias''"
    by blast
  with mustParse_tokens [OF l] show ?thesis by (auto simp: parseFuel_def defaultTemplates_def lexerAt_def tokenLexer_def)
qed

lemma checkDuplicate_distinct:
  "distinct (map waName was) \<Longrightarrow> waName ` set was \<inter> waName ` set m = {} \<Longrightarrow> checkDuplicateWithArgNames L m was = None"
proof (induction L m was rule: checkDuplicateWithArgNames.induct)
  case (2 L m wa was)
  then have "waName wa \<notin> waName ` set m" by auto
  then have f: "find (\<lambda>wb. waName wb = waName wa) m = None" unfolding find_None_iff by (metis image_eqI)
  moreover have "checkDuplicateWithArgNames L (m @ [wa]) was = None" using 2 by (intro "2.IH" [OF f]) auto
  ultimately show ?case by simp
qed simp

definition templateNames :: "string list" where
  "templateNames = [''ru'', ''ttf'', ''median_over_time'', ''range_median'', ''alias'']"

lemma mustParseAll_Cons: "mustParseWithArgExpr L s = Inr wa \<Longrightarrow> mustParseAll L ss = Inr was \<Longrightarrow> mustParseAll L (s # ss) = Inr (wa # was)"
  by simp

lemma defaultTemplates_nth:
  "defaultTemplates = [defaultTemplates ! 0, defaultTemplates ! 1, defaultTemplates ! 2, defaultTemplates ! 3, defaultTemplates ! 4]"
  by (rule nth_equalityI) (simp_all add: defaultTemplates_def less_Suc_eq eval_nat_numeral)

lemma defaults_ok: "\<exists>was. getDefaultWithArgExprs L = Inr was \<and> map waName was = templateNames"
proof -
  obtain w0 w1 w2 w3 w4 where w:
    "mustParseWithArgExpr L (defaultTemplates ! 0) = Inr w0" "mustParseWithArgExpr L (defaultTemplates ! 1) = Inr w1"
    "mustParseWithArgExpr L (defaultTemplates ! 2) = Inr w2" "mustParseWithArgExpr L (defaultTemplates ! 3) = Inr w3"
    "mustParseWithArgExpr L (defaultTemplates ! 4) = Inr w4"
    and n: "map waName [w0, w1, w2, w3, w4] = templateNames"
    using template_ru [of L] template_ttf [of L] template_median_over_time [of L] template_range_median [of L] template_alias [of L]
    unfolding list.map templateNames_def by metis
  have "mustParseAll L [] = Inr []" by simp
  with w have "mustParseAll L [defaultTemplates ! 0, defaultTemplates ! 1, defaultTemplates ! 2, defaultTemplates ! 3, defaultTemplates ! 4]
      = Inr [w0, w1, w2, w3, w4]"
    by (intro mustParseAll_Cons)
  then have m: "mustParseAll L defaultTemplates = Inr [w0, w1, w2, w3, w4]"
    by (simp only: defaultTemplates_nth [symmetric])
  have "distinct templateNames" by (simp add: templateNames_def)
  then have "checkDuplicateWithArgNames L [] [w0, w1, w2, w3, w4] = None"
    by (intro checkDuplicate_distinct) (simp_all only: n list.set image_empty Int_empty_right)
  with m n show ?thesis unfolding getDefaultWithArgExprs_def prepareWithArgExprs_def by simp
qed

lemma default_mustParseAll: "getDefaultWithArgExprs L = Inr was \<Longrightarrow> mustParseAll L defaultTemplates = Inr was"
  by (auto simp: getDefaultWithArgExprs_def prepareWithArgExprs_def split: sum.splits option.splits)

section \<open>Properties of \<open>Parse\<close>\<close>

text \<open>C1: \<open>Parse\<close> ends on every input and never panics: there is a bound from which on the result no
  longer changes, and it is an expression or an ordinary error. No query, however its \<open>WITH\<close>
  templates refer to each other, makes the expansion run forever or hit a \<open>BUG\<close> panic.\<close>

theorem Parse_total:
  "\<exists>N. \<forall>n. Parse L (N + n) s = Parse L N s \<and>
     (case Parse L (N + n) s of Inl e \<Rightarrow> \<not> isPanic e \<and> e \<noteq> OutOfFuel | Inr e \<Rightarrow> True)"
proof -
  obtain was where "getDefaultWithArgExprs L = Inr was" using defaults_ok by blast
  from Parse_total_lemma [OF this, of s] obtain N where
    N: "\<forall>n \<ge> N. Parse L n s = Parse L N s \<and> (case Parse L n s of Inl e \<Rightarrow> \<not> isPanic e \<and> e \<noteq> OutOfFuel | Inr e \<Rightarrow> True)"
    by blast
  show ?thesis by (intro exI [of _ N] allI) (rule N [rule_format], simp)
qed

text \<open>C17: what \<open>Parse\<close> returns has no parentheses, no \<open>WITH\<close>, no unexpanded string tokens or label filters,
  only known operators, and no operator between two constants.\<close>

theorem Parse_normal_form:
  assumes "Parse L n s = Inr e"
  shows "plainExpr e \<and> folded e"
proof -
  obtain was where "getDefaultWithArgExprs L = Inr was" using defaults_ok by blast
  from Parse_result [OF this assms] show ?thesis .
qed

text \<open>A query whose parse, expansion and folding are evaluated.\<close>

lemma sample_Parse: "\<exists>x. Parse L 3 ''1+(2)'' = Inr (NumberExpr x)"
proof -
  let ?ts = "[''1'', ''+'', ''('', ''2'', '')'']"
  have l: "lexAll ''1+(2)'' = (?ts, None)" by code_simp
  have f: "ParseFloat ''1'' = Inr (floatOf ''1'')" "ParseFloat ''2'' = Inr (floatOf ''2'')"
    "isPositiveNumberPrefix ''2''" "plainToken ''2''" "plainToken ''+''" "isBinaryOp ''+''" "\<not> isPositiveNumberPrefix ''+''" "\<not> isBinaryOp ''2''"
    by code_simp+
  have "andThen Next (\<lambda>_. parseExpr L 4) (lexerAt [] [] ?ts) =
      (Inr (BinaryOpExpr ''+'' False noModifier noModifier (NumberExpr (floatOf ''1'')) (ParensExpr [NumberExpr (floatOf ''2'')])),
       lexerAt ['')'', ''2'', ''('', ''+'', ''1'', []] [] [])"
    by (simp add: f [unfolded plainToken_def] eval_nat_numeral andThen_at apply_cases parser_equations operatorFacts end_token tokenFacts
        del: ToLower.simps(2) isIdentPrefix.simps(2) isPositiveNumberPrefix.simps(2) parseParensExpr_loop.simps parseExpr_loop.simps
        cong: lazy_congs)
  then have p: "parseString L ''1+(2)'' = Inr (BinaryOpExpr ''+'' False noModifier noModifier
      (NumberExpr (floatOf ''1'')) (ParensExpr [NumberExpr (floatOf ''2'')]))"
    by (intro parseString_on_tokens [OF l]) (auto simp: parseFuel_def lexerAt_def tokenLexer_def isEOF_def)
  obtain was where d: "getDefaultWithArgExprs L = Inr was" using defaults_ok by blast
  have n: "binaryOpEval L ''+'' x y False = Inr (Plus_op x y)" for x y
    by (simp add: binaryOpEval_def IsBinaryOpCmp_def)
  show ?thesis
    unfolding Parse_cases [OF d] expandAndFinish_def
    by (simp add: p n eval_nat_numeral andThen_def wrapErr_def ret_def liftResult_def expandModifierArgs_def noModifier_def Let_def)
qed

theorem Parse_normal_form_witness:
  "\<forall>L. \<exists>x. Parse L 3 ''1+(2)'' = Inr (NumberExpr x) \<and> plainExpr (NumberExpr x) \<and> folded (NumberExpr x)"
proof
  fix L
  obtain x where x: "Parse L 3 ''1+(2)'' = Inr (NumberExpr x)" using sample_Parse by blast
  with Parse_normal_form [OF x] show "\<exists>x. Parse L 3 ''1+(2)'' = Inr (NumberExpr x) \<and> plainExpr (NumberExpr x) \<and> folded (NumberExpr x)"
    by blast
qed

text \<open>The last two passes of \<open>Parse\<close> are idempotent on its results.\<close>

lemma Parse_passes_idempotent:
  assumes "Parse L n s = Inr e"
  shows "removeParensExpr e = e \<and> simplifyConstants L e st = (Inr e, st)"
proof -
  obtain was where "getDefaultWithArgExprs L = Inr was" using defaults_ok by blast
  from Parse_result [OF this assms] removeParens_plain [of e] simplify_folded [of e L st] show ?thesis by simp
qed

end
