(* ===== verification/RegexpCache.thy ===== *)
theory RegexpCache
  imports Float64 "HOL-Library.Word"
begin

text \<open>
  \<open>src/mateql/regexp_cache.go\<close>: the cache of compiled regular expressions. The map is a list of
  pairs with distinct keys; the order in which \<open>range\<close> visits it is an argument of \<open>Put\<close>, so
  the theorems hold for every order. Each method runs under the cache's lock and is one step.
\<close>

section \<open>The cache\<close>

record 'v regexpCache =
  requests :: "64 word"
  misses :: "64 word"
  cmap :: "(string \<times> 'v) list"

definition newCache :: "'v regexpCache" where
  "newCache = \<lparr>requests = 0, misses = 0, cmap = []\<rparr>"

definition regexpCacheMaxLen :: int where
  "regexpCacheMaxLen = 10000"

definition Requests :: "'v regexpCache \<Rightarrow> 64 word" where "Requests rc = requests rc"
definition Misses :: "'v regexpCache \<Rightarrow> 64 word" where "Misses rc = misses rc"

definition Len :: "'v regexpCache \<Rightarrow> nat" where
  "Len rc = length (cmap rc)"

definition Get :: "'v regexpCache \<Rightarrow> string \<Rightarrow> 'v option \<times> 'v regexpCache" where
  "Get rc re =
     (let rc = rc\<lparr>requests := requests rc + 1\<rparr>; rcv = map_of (cmap rc) re in
      (rcv, if rcv = None then rc\<lparr>misses := misses rc + 1\<rparr> else rc))"

text \<open>\<open>int(x)\<close> for a non-negative finite \<open>x\<close>.\<close>

fun intOfFloat :: "float64 \<Rightarrow> int" where
  "intOfFloat (FFin s m e) = scaleUp m e div scaleUp 1 (- e)"
| "intOfFloat _ = 0"

fun evict :: "string list \<Rightarrow> int \<Rightarrow> (string \<times> 'v) list \<Rightarrow> (string \<times> 'v) list" where
  "evict [] overflow m = m"
| "evict (k # ks) overflow m =
     (let m = filter (\<lambda>(k', v). k' \<noteq> k) m; overflow = overflow - 1 in
      if overflow \<le> 0 then m else evict ks overflow m)"

definition Put :: "string list \<Rightarrow> 'v regexpCache \<Rightarrow> string \<Rightarrow> 'v \<Rightarrow> 'v regexpCache" where
  "Put order rc re rcv =
     (let m = cmap rc; overflow = int (length m) - regexpCacheMaxLen;
          m = (if overflow > 0 then
                 evict order (intOfFloat (mulF (roundQ False (int (length m)) 1) (roundQ False 1 10))) m
               else m) in
      rc\<lparr>cmap := (re, rcv) # filter (\<lambda>(k', v). k' \<noteq> re) m\<rparr>)"

text \<open>\<open>CompileRegexp\<close>, with \<open>compile\<close> for \<open>regexp.Compile\<close> (the value and the error it returns).\<close>

definition CompileRegexp :: "(string \<Rightarrow> 'v) \<Rightarrow> string list \<Rightarrow> 'v regexpCache \<Rightarrow> string \<Rightarrow> 'v \<times> 'v regexpCache" where
  "CompileRegexp compile order rc re =
     (case Get rc re of
        (Some rcv, rc) \<Rightarrow> (rcv, rc)
      | (None, rc) \<Rightarrow> let rcv = compile re in (rcv, Put order rc re rcv))"

definition CompileRegexpAnchoredCached ::
    "(string \<Rightarrow> 'v) \<Rightarrow> string list \<Rightarrow> 'v regexpCache \<Rightarrow> string \<Rightarrow> 'v \<times> 'v regexpCache" where
  "CompileRegexpAnchoredCached compile order rc re =
     CompileRegexp compile order rc (''^(?:'' @ re @ '')$'')"

section \<open>Memo tables\<close>

text \<open>
  What \<open>CompileRegexp\<close> relies on: a stored value is found, and storing changes no other value,
  though it may forget some. A lookup through such a table is the function it caches.
\<close>

locale memo_table =
  fixes lkp :: "'s \<Rightarrow> 'k \<Rightarrow> 'v option"
    and put :: "'k \<Rightarrow> 'v \<Rightarrow> 's \<Rightarrow> 's \<Rightarrow> bool"
    and inv :: "'s \<Rightarrow> bool"
  assumes put_hit: "inv s \<Longrightarrow> put k v s s' \<Longrightarrow> lkp s' k = Some v"
    and put_other: "inv s \<Longrightarrow> put k v s s' \<Longrightarrow> k' \<noteq> k \<Longrightarrow> lkp s' k' = None \<or> lkp s' k' = lkp s k'"
    and put_inv: "inv s \<Longrightarrow> put k v s s' \<Longrightarrow> inv s'"
begin

definition coherent :: "('k \<Rightarrow> 'v) \<Rightarrow> 's \<Rightarrow> bool" where
  "coherent f s \<longleftrightarrow> (\<forall>k v. lkp s k = Some v \<longrightarrow> v = f k)"

lemma put_coherent: "inv s \<Longrightarrow> coherent f s \<Longrightarrow> put k (f k) s s' \<Longrightarrow> coherent f s'"
  unfolding coherent_def using put_hit put_other by (metis option.distinct(1) option.inject)

lemma lookup_coherent: "coherent f s \<Longrightarrow> lkp s k = Some v \<Longrightarrow> v = f k"
  by (simp add: coherent_def)

end

definition cacheInv :: "'v regexpCache \<Rightarrow> bool" where
  "cacheInv rc \<longleftrightarrow> distinct (map fst (cmap rc)) \<and> length (cmap rc) \<le> 10001"

text \<open>\<open>order\<close> is a visit of the map: each key once.\<close>

definition visits :: "string list \<Rightarrow> 'v regexpCache \<Rightarrow> bool" where
  "visits order rc \<longleftrightarrow> distinct order \<and> set order = fst ` set (cmap rc)"

definition putStep :: "string \<Rightarrow> 'v \<Rightarrow> 'v regexpCache \<Rightarrow> 'v regexpCache \<Rightarrow> bool" where
  "putStep re v rc rc' \<longleftrightarrow> (\<exists>order. visits order rc \<and> rc' = Put order rc re v)"

lemma evict_filter: "\<exists>ks. evict order n m = filter (\<lambda>(k, v). k \<notin> ks) m"
proof (induction order n m rule: evict.induct)
  case (2 k ks n m)
  show ?case
  proof (cases "n - 1 \<le> 0")
    case True
    then have "evict (k # ks) n m = filter (\<lambda>(k', v). k' \<notin> {k}) m" by simp
    then show ?thesis by blast
  next
    case False
    from "2.IH" [OF refl refl False] obtain A where
      "evict ks (n - 1) (filter (\<lambda>(k', v). k' \<noteq> k) m) = filter (\<lambda>(k, v). k \<notin> A) (filter (\<lambda>(k', v). k' \<noteq> k) m)" by blast
    moreover have "\<dots> = filter (\<lambda>(k', v). k' \<notin> insert k A) m" by (auto intro: filter_cong)
    ultimately have "evict (k # ks) n m = filter (\<lambda>(k', v). k' \<notin> insert k A) m"
      using False by (simp add: Let_def)
    then show ?thesis by blast
  qed
next
  case (1 n m)
  have "evict [] n m = filter (\<lambda>(k, v). k \<notin> {}) m" by simp
  then show ?case by blast
qed

lemma map_of_filter_keys: "map_of (filter (\<lambda>(k, v). P k) m) k = (if P k then map_of m k else None)"
  by (induction m) auto

lemma length_filter_key:
  assumes "distinct (map fst m)" "k \<in> fst ` set m"
  shows "length (filter (\<lambda>(k', v). k' \<noteq> k) m) = length m - 1"
  using assms
proof (induction m)
  case (Cons x m)
  obtain a b where x: "x = (a, b)" by fastforce
  show ?case
  proof (cases "a = k")
    case True
    with Cons.prems x have "k \<notin> fst ` set m" by simp
    then have "filter (\<lambda>(k', v). k' \<noteq> k) m = m" by (force intro: filter_True)
    with True x show ?thesis by simp
  next
    case False
    with Cons x have "k \<in> fst ` set m" by auto
    moreover from this have "0 < length m" by (cases m) auto
    ultimately show ?thesis using False Cons x by simp
  qed
qed simp

lemma evict_length:
  "distinct (map fst m) \<Longrightarrow> distinct order \<Longrightarrow> set order \<subseteq> fst ` set m \<Longrightarrow> 0 < n \<Longrightarrow> n \<le> int (length order) \<Longrightarrow>
     int (length (evict order n m)) = int (length m) - n"
proof (induction order n m rule: evict.induct)
  case (2 k ks n m)
  let ?m = "filter (\<lambda>(k', v). k' \<noteq> k) m"
  have l: "length ?m = length m - 1" "0 < length m"
    using length_filter_key [of m k] "2.prems" by (auto intro: Nat.gr0I)
  show ?case
  proof (cases "n - 1 \<le> 0")
    case True
    with "2.prems" have "n = 1" by simp
    with True l(1) have "int (length (evict (k # ks) n m)) = int (length m - 1)" by simp
    with l(2) \<open>n = 1\<close> show ?thesis by (simp only: of_nat_diff Suc_leI One_nat_def)
  next
    case False
    have "distinct (map fst ?m)" using "2.prems"(1) by (induction m) auto
    moreover have "set ks \<subseteq> fst ` set ?m"
    proof
      fix x assume "x \<in> set ks"
      with "2.prems" have "x \<in> fst ` set m" "x \<noteq> k" by auto
      then show "x \<in> fst ` set ?m" by force
    qed
    ultimately have "int (length (evict ks (n - 1) ?m)) = int (length ?m) - (n - 1)"
      using "2.IH" [OF refl refl False] "2.prems" False by simp
    with False l show ?thesis by (simp add: Let_def of_nat_diff)
  qed
qed simp

text \<open>A full cache drops a tenth of its entries.\<close>

lemma tenth: "intOfFloat (mulF (roundQ False 10001 1) (roundQ False 1 10)) = 1000"
  by code_simp

lemma Put_cmap:
  "\<exists>A. cmap (Put order rc re v) = (re, v) # filter (\<lambda>(k, v). k \<noteq> re \<and> k \<notin> A) (cmap rc)"
proof -
  obtain A where A: "evict order (intOfFloat (mulF (roundQ False (int (length (cmap rc))) 1) (roundQ False 1 10))) (cmap rc)
      = filter (\<lambda>(k, v). k \<notin> A) (cmap rc)" using evict_filter by metis
  show ?thesis
  proof (cases "int (length (cmap rc)) - regexpCacheMaxLen > 0")
    case True
    have "cmap (Put order rc re v) = (re, v) # filter (\<lambda>(k, v). k \<noteq> re \<and> k \<notin> A) (cmap rc)"
      using True A by (auto simp: Put_def Let_def intro!: filter_cong)
    then show ?thesis by blast
  next
    case False
    then have "cmap (Put order rc re v) = (re, v) # filter (\<lambda>(k, v). k \<noteq> re \<and> k \<notin> {}) (cmap rc)"
      by (simp add: Put_def)
    then show ?thesis by blast
  qed
qed

lemma Put_inv:
  assumes "cacheInv rc" "visits order rc"
  shows "cacheInv (Put order rc re v)"
proof -
  obtain A where A: "cmap (Put order rc re v) = (re, v) # filter (\<lambda>(k, v). k \<noteq> re \<and> k \<notin> A) (cmap rc)"
    using Put_cmap [of order rc re v] by auto
  have "distinct (map fst (filter (\<lambda>(k, v). k \<noteq> re \<and> k \<notin> A) (cmap rc)))"
    using assms(1) unfolding cacheInv_def by (induction "cmap rc") (auto simp: distinct_map_filter)
  then have d: "distinct (map fst (cmap (Put order rc re v)))" unfolding A by auto
  have "length (cmap (Put order rc re v)) \<le> 10001"
  proof (cases "length (cmap rc) = 10001")
    case True
    have "length order = 10001"
      using assms True distinct_card [of order] distinct_card [of "map fst (cmap rc)"]
      by (simp add: visits_def cacheInv_def)
    then have "int (length (evict order 1000 (cmap rc))) = 9001"
      using evict_length [of "cmap rc" order 1000] assms True by (auto simp: visits_def cacheInv_def)
    moreover have "cmap (Put order rc re v) = (re, v) # filter (\<lambda>(k', v). k' \<noteq> re) (evict order 1000 (cmap rc))"
      using True tenth by (simp add: Put_def regexpCacheMaxLen_def)
    ultimately show ?thesis
      using length_filter_le [of "\<lambda>(k', v). k' \<noteq> re" "evict order 1000 (cmap rc)"] by simp
  next
    case False
    then have "length (cmap rc) \<le> 10000" using assms(1) by (simp add: cacheInv_def)
    then have "length (filter (\<lambda>(k, v). k \<noteq> re \<and> k \<notin> A) (cmap rc)) \<le> 10000"
      using length_filter_le order_trans by blast
    then show ?thesis unfolding A by simp
  qed
  with d show ?thesis by (simp add: cacheInv_def)
qed

interpretation rx: memo_table "\<lambda>rc. map_of (cmap rc)" putStep cacheInv
proof (unfold_locales, goal_cases)
  case (1 s k v s')
  then obtain order where "s' = Put order s k v" by (auto simp: putStep_def)
  with Put_cmap [of order s k v] show ?case by auto
next
  case (2 s k v s' k')
  then obtain order where s': "s' = Put order s k v" by (auto simp: putStep_def)
  obtain A where "cmap s' = (k, v) # filter (\<lambda>(k', v). k' \<noteq> k \<and> k' \<notin> A) (cmap s)"
    using Put_cmap [of order s k v] s' by auto
  with 2(3) show ?case by (simp add: map_of_filter_keys)
next
  case (3 s k v s')
  then show ?case using Put_inv by (auto simp: putStep_def)
qed

section \<open>Every call returns what the compiler returns\<close>

inductive cacheReach :: "(string \<Rightarrow> 'v) \<Rightarrow> 'v regexpCache \<Rightarrow> bool" for compile where
  init: "cacheReach compile newCache"
| call: "cacheReach compile rc \<Longrightarrow> visits order rc \<Longrightarrow> CompileRegexp compile order rc re = (v, rc') \<Longrightarrow>
    cacheReach compile rc'"

lemma CompileRegexp_eq:
  "CompileRegexp compile order rc re =
     (case map_of (cmap rc) re of
        Some v \<Rightarrow> (v, rc\<lparr>requests := requests rc + 1\<rparr>)
      | None \<Rightarrow> (compile re, (Put order rc re (compile re))\<lparr>requests := requests rc + 1, misses := misses rc + 1\<rparr>))"
  by (cases "map_of (cmap rc) re") (simp_all add: CompileRegexp_def Get_def Let_def Put_def)

lemma CompileRegexp_cases:
  assumes "CompileRegexp compile order rc re = (v, rc')"
  obtains (hit) "map_of (cmap rc) re = Some v" "cmap rc' = cmap rc" "requests rc' = requests rc + 1"
  | (miss) "map_of (cmap rc) re = None" "v = compile re" "cmap rc' = cmap (Put order rc re v)"
      "requests rc' = requests rc + 1"
proof (cases "map_of (cmap rc) re")
  case None
  with assms show ?thesis by (intro miss) (auto simp: CompileRegexp_eq)
next
  case (Some u)
  with assms show ?thesis by (intro hit) (auto simp: CompileRegexp_eq)
qed

lemma cacheReach_inv: "cacheReach compile rc \<Longrightarrow> cacheInv rc \<and> rx.coherent compile rc"
proof (induction rule: cacheReach.induct)
  case init
  then show ?case by (simp add: cacheInv_def newCache_def rx.coherent_def)
next
  case (call rc order re v rc')
  from call.hyps(3) show ?case
  proof (cases rule: CompileRegexp_cases)
    case hit
    with call.IH show ?thesis by (simp add: cacheInv_def rx.coherent_def)
  next
    case miss
    have "putStep re v rc (Put order rc re v)" using call.hyps(2) by (auto simp: putStep_def)
    then have "cacheInv (Put order rc re v)" "rx.coherent compile (Put order rc re v)"
      using rx.put_inv [of rc re v] rx.put_coherent [of rc compile re] call.IH miss(2) by simp_all
    with miss(3) show ?thesis by (simp add: cacheInv_def rx.coherent_def)
  qed
qed

text \<open>C18: in every state that calls of \<open>CompileRegexp\<close> can reach, whatever order the map is visited in, a call returns
  what the compiler returns, leaves at most 10001 entries and counts one request.\<close>

theorem CompileRegexp_transparent:
  assumes "cacheReach compile rc" "visits order rc"
  shows "fst (CompileRegexp compile order rc re) = compile re \<and>
    Len (snd (CompileRegexp compile order rc re)) \<le> 10001 \<and>
    Requests (snd (CompileRegexp compile order rc re)) = Requests rc + 1"
proof -
  obtain v rc' where c: "CompileRegexp compile order rc re = (v, rc')" by fastforce
  have inv: "cacheInv rc" "rx.coherent compile rc" using cacheReach_inv [OF assms(1)] by auto
  have "v = compile re"
    using c
  proof (cases rule: CompileRegexp_cases)
    case hit
    then show ?thesis using rx.lookup_coherent [OF inv(2)] by simp
  qed
  moreover have "cacheInv rc'" using cacheReach_inv cacheReach.call [OF assms c] by blast
  moreover have "requests rc' = requests rc + 1"
    using c by (cases rule: CompileRegexp_cases) simp_all
  ultimately show ?thesis using c by (simp add: Len_def cacheInv_def Requests_def)
qed

theorem CompileRegexp_transparent_witness:
  "fst (CompileRegexp rev [] newCache ''ab'') = ''ba''"
  using CompileRegexp_transparent [of rev newCache "[]" "''ab''"]
  by (simp add: cacheReach.init visits_def) (simp add: newCache_def)

end
