(* ===== verification/Folding.thy ===== *)
theory Folding
  imports ParseProps
begin

text \<open>
  The last passes of \<open>Parse\<close> (\<open>removeParensExpr\<close> and \<open>simplifyConstants\<close>, \<open>src/mateql/parser.go\<close>) against
  the meaning of a query: whatever the functions, aggregates, rollups and metrics of the tree stand for,
  the tree after the passes means the same as the tree before.
\<close>

section \<open>Compositional meanings\<close>

text \<open>
  What the constructors stand for, over any type of values. Parentheses around one expression stand
  for nothing; around several they are the function without a name.
\<close>

record 'v meaning =
  mNumber :: "float64 \<Rightarrow> 'v"
  mLeaf :: "expr \<Rightarrow> 'v"
  mRollup :: "'v \<Rightarrow> string \<Rightarrow> string \<Rightarrow> string \<Rightarrow> bool \<Rightarrow> 'v"
  mFunc :: "string \<Rightarrow> 'v list \<Rightarrow> 'v"
  mAggr :: "string \<Rightarrow> 'v list \<Rightarrow> ModifierExpr \<Rightarrow> int \<Rightarrow> 'v"
  mBinary :: "string \<Rightarrow> bool \<Rightarrow> ModifierExpr \<Rightarrow> ModifierExpr \<Rightarrow> 'v \<Rightarrow> 'v \<Rightarrow> 'v"

fun meaningOf :: "'v meaning \<Rightarrow> expr \<Rightarrow> 'v" where
  "meaningOf M (NumberExpr x) = mNumber M x"
| "meaningOf M (RollupExpr e w off st ih) = mRollup M (meaningOf M e) w off st ih"
| "meaningOf M (FuncExpr f args) = mFunc M f (map (meaningOf M) args)"
| "meaningOf M (AggrFuncExpr f args m lim) = mAggr M f (map (meaningOf M) args) m lim"
| "meaningOf M (BinaryOpExpr op b g j l r) = mBinary M op b g j (meaningOf M l) (meaningOf M r)"
| "meaningOf M (ParensExpr es) =
     (let vs = map (meaningOf M) es in if length es = 1 then vs ! 0 else mFunc M [] vs)"
| "meaningOf M e = mLeaf M e"

text \<open>An operator between constants is what \<open>binaryOpEval\<close> computes.\<close>

definition computesConstants :: "golib \<Rightarrow> 'v meaning \<Rightarrow> bool" where
  "computesConstants L M \<longleftrightarrow> (\<forall>op b g j x y n. binaryOpEval L op x y b = Inr n \<longrightarrow>
     mBinary M op b g j (mNumber M x) (mNumber M y) = mNumber M n)"

lemma meaning_removeParens: "meaningOf M (removeParensExpr e) = meaningOf M e"
  by (induction e rule: removeParensExpr.induct) (auto simp: Let_def comp_def length_Suc_conv cong: map_cong)

lemma mapM_meaning:
  assumes "mapM f es st = (Inr es', st')" "\<And>e e' st st'. e \<in> set es \<Longrightarrow> f e st = (Inr e', st') \<Longrightarrow> g e' = g e"
  shows "map g es' = map g es"
  using assms
proof (induction es arbitrary: es' st)
  case (Cons e es)
  from Cons.prems(1) obtain e' es1 st1 where e: "f e st = (Inr e', st1)" "mapM f es st1 = (Inr es1, st')" "es' = e' # es1"
    by (auto simp: andThen_def ret_def split: prod.splits sum.splits)
  then have "map g es1 = map g es" by (intro Cons.IH Cons.prems(2)) auto
  with Cons.prems(2) [of e] e show ?case by simp
qed (simp add: ret_def)

lemma meaning_simplify:
  fixes L :: golib
  shows "computesConstants L M \<Longrightarrow> simplifyConstants L e st = (Inr e', st') \<Longrightarrow> meaningOf M e' = meaningOf M e"
proof (induction L e arbitrary: e' st st' rule: simplifyConstants.induct)
  case (2 L name args m lim)
  then obtain xs where xs: "mapM (simplifyConstants L) args st = (Inr xs, st')" "e' = AggrFuncExpr name xs m lim"
    by (auto simp: andThen_def ret_def split: prod.splits sum.splits)
  have "map (meaningOf M) xs = map (meaningOf M) args"
    using "2.IH" "2.prems"(1) by (intro mapM_meaning [OF xs(1)]) blast
  with xs(2) show ?case by simp
next
  case (3 L name args)
  then obtain xs where xs: "mapM (simplifyConstants L) args st = (Inr xs, st')" "e' = FuncExpr name xs"
    by (auto simp: andThen_def ret_def split: prod.splits sum.splits)
  have "map (meaningOf M) xs = map (meaningOf M) args"
    using "3.IH" "3.prems"(1) by (intro mapM_meaning [OF xs(1)]) blast
  with xs(2) show ?case by simp
next
  case (4 L es)
  then obtain xs where xs: "mapM (simplifyConstants L) es st = (Inr xs, st')" "e' = (if length es = 1 then xs ! 0 else ParensExpr xs)"
    by (auto simp: andThen_def ret_def split: prod.splits sum.splits)
  have m: "map (meaningOf M) xs = map (meaningOf M) es"
    using "4.IH" "4.prems"(1) by (intro mapM_meaning [OF xs(1)]) blast
  then have "length xs = length es" by (rule map_eq_imp_length_eq)
  with m xs(2) show ?case by (cases xs; cases es) auto
next
  case (5 L op isBool g j l r)
  from "5.prems"(2) obtain l' r' st1 st2 where
    s: "simplifyConstants L l st = (Inr l', st1)" "simplifyConstants L r st1 = (Inr r', st2)"
    by (auto simp: andThen_def split: prod.splits sum.splits)
  have m: "meaningOf M l' = meaningOf M l" "meaningOf M r' = meaningOf M r"
    using "5.IH" "5.prems"(1) s by blast+
  show ?case
  proof (rule number_pair_cases [of l' r'])
    fix x y
    assume n: "l' = NumberExpr x" "r' = NumberExpr y"
    with "5.prems"(2) s obtain z where "binaryOpEval L op x y isBool = Inr z" "e' = NumberExpr z"
      by (auto simp: andThen_def ret_def liftResult_def fail_def split: sum.splits)
    then have "mNumber M z = mBinary M op isBool g j (mNumber M x) (mNumber M y)"
      using "5.prems"(1) by (simp add: computesConstants_def)
    then show ?thesis using m n \<open>e' = NumberExpr z\<close> by simp
  next
    assume "\<not> (isNumber l' \<and> isNumber r')"
    then have "e' = BinaryOpExpr op isBool g j l' r'"
      using "5.prems"(2) s by (auto simp: andThen_def ret_def simplify_pair)
    then show ?thesis using m by simp
  qed
qed (auto simp: andThen_def ret_def split: prod.splits sum.splits)

text \<open>C22: the passes after expansion keep the meaning of the query: whatever the functions, aggregates, rollups and
  metrics stand for, when an operator between constants means what \<open>binaryOpEval\<close> computes, the passes succeed and
  the folded tree without parentheses means what the expanded tree means.\<close>

theorem passes_keep_meaning:
  assumes "expandedExpr e" "computesConstants L M"
  shows "\<exists>e'. simplifyConstants L (removeParensExpr e) st = (Inr e', st) \<and> plainExpr e' \<and> folded e' \<and>
    meaningOf M e' = meaningOf M e"
proof -
  obtain e' where e': "simplifyConstants L (removeParensExpr e) st = (Inr e', st)" "plainExpr e'" "folded e'"
    using finish_expanded [OF assms(1), of L st] by blast
  with meaning_simplify [OF assms(2) e'(1)] meaning_removeParens show ?thesis by metis
qed

text \<open>A meaning over the floats: metrics, functions and aggregates are not numbers.\<close>

definition floatMeaning :: "golib \<Rightarrow> float64 meaning" where
  "floatMeaning L = \<lparr>mNumber = \<lambda>x. x, mLeaf = \<lambda>e. FNaN, mRollup = \<lambda>v w off st ih. v, mFunc = \<lambda>f vs. FNaN,
     mAggr = \<lambda>f vs m lim. FNaN, mBinary = \<lambda>op b g j x y. case binaryOpEval L op x y b of Inl e \<Rightarrow> FNaN | Inr n \<Rightarrow> n\<rparr>"

definition sampleSum :: expr where
  "sampleSum = RollupExpr (BinaryOpExpr ''-'' False noModifier noModifier (NumberExpr one64) (ParensExpr [NumberExpr zero64])) ''5m'' [] [] False"

theorem passes_keep_meaning_witness:
  "\<forall>L. \<exists>e'. simplifyConstants L (removeParensExpr sampleSum) () = (Inr e', ()) \<and> plainExpr e' \<and> folded e' \<and>
    meaningOf (floatMeaning L) e' = Minus_op one64 zero64"
proof
  fix L
  have "expandedExpr sampleSum" by (simp add: sampleSum_def binaryOps_def noModifier_def)
  moreover have "computesConstants L (floatMeaning L)" by (simp add: computesConstants_def floatMeaning_def)
  moreover have "meaningOf (floatMeaning L) sampleSum = Minus_op one64 zero64"
    by (simp add: sampleSum_def floatMeaning_def binaryOpEval_def IsBinaryOpCmp_def)
  ultimately show "\<exists>e'. simplifyConstants L (removeParensExpr sampleSum) () = (Inr e', ()) \<and> plainExpr e' \<and> folded e' \<and>
      meaningOf (floatMeaning L) e' = Minus_op one64 zero64"
    using passes_keep_meaning [of sampleSum L "floatMeaning L" "()"] by metis
qed

end
