(* ===== verification/Glob.thy ===== *)
theory Glob
  imports Utf8
begin

text \<open>
  \<open>src/prometheus/glob.go\<close>: the translation of a Graphite glob into a regular expression, as a
  state machine over the runes of the glob that writes a \<open>Pattern\<close> and keeps a stack of open
  groups. The second half gives globs and the regular expressions they become as syntax trees
  with their languages, and shows that the state machine translates the one into the other.
\<close>

section \<open>The pattern buffer\<close>

record Pattern =
  buff :: string
  eval :: nat
  lastWriteLen :: nat

definition emptyPattern :: Pattern where
  "emptyPattern = \<lparr>buff = [], eval = 0, lastWriteLen = 0\<rparr>"

definition Evaluate :: "nat \<Rightarrow> Pattern \<Rightarrow> Pattern" where
  "Evaluate r p = p\<lparr>eval := r\<rparr>"

definition LastEvaluate :: "Pattern \<Rightarrow> nat" where
  "LastEvaluate p = eval p"

definition WriteRune :: "nat \<Rightarrow> Pattern \<Rightarrow> Pattern" where
  "WriteRune r p = p\<lparr>buff := buff p @ encodeRune r, lastWriteLen := 1\<rparr>"

definition WriteString :: "string \<Rightarrow> Pattern \<Rightarrow> Pattern" where
  "WriteString str p = p\<lparr>buff := buff p @ str, lastWriteLen := length str\<rparr>"

text \<open>\<open>Truncate\<close> keeps a prefix of the buffer.\<close>

definition UnwriteLast :: "Pattern \<Rightarrow> Pattern" where
  "UnwriteLast p = p\<lparr>buff := take (length (buff p) - lastWriteLen p) (buff p), lastWriteLen := 0\<rparr>"

lemma UnwriteLast_WriteString: "buff (UnwriteLast (WriteString s p)) = buff p"
  by (simp add: UnwriteLast_def WriteString_def)

section \<open>The translation\<close>

definition ValidIdentifierRunes :: string where
  "ValidIdentifierRunes = ''ABCDEFGHIJKLMNOPQRSTUVWXYZ'' @ ''abcdefghijklmnopqrstuvwxyz'' @
     ''0123456789'' @ ''$-_'' @ [squote] @ ''|<>%#/:''"

definition validRune :: "nat \<Rightarrow> bool" where
  "validRune r \<longleftrightarrow> r \<in> of_char ` set ValidIdentifierRunes"

record globState =
  pattern :: Pattern
  escaping :: bool
  regexed :: bool
  groupStartStack :: "nat list"

definition initGlob :: globState where
  "initGlob = \<lparr>pattern = emptyPattern, escaping = False, regexed = False, groupStartStack = [0]\<rparr>"

abbreviation wr :: "char \<Rightarrow> globState \<Rightarrow> globState" where
  "wr c st \<equiv> st\<lparr>pattern := WriteRune (byte c) (pattern st)\<rparr>"

abbreviation ws :: "string \<Rightarrow> globState \<Rightarrow> globState" where
  "ws s st \<equiv> st\<lparr>pattern := WriteString s (pattern st)\<rparr>"

text \<open>One iteration of the loop, on the pair \<open>i, r\<close>.\<close>

definition globStep :: "string \<Rightarrow> nat \<Rightarrow> nat \<Rightarrow> globState \<Rightarrow> globState result" where
  "globStep glob i r st0 =
     (let st = st0\<lparr>pattern := Evaluate r (pattern st0)\<rparr>;
          priorGroupStart = last (groupStartStack st) in
      if escaping st then Inr (st\<lparr>pattern := WriteRune r (pattern st), escaping := False\<rparr>)
      else if r = byte bslash then Inr (wr bslash (st\<lparr>escaping := True\<rparr>))
      else if r = byte CHR ''.'' then Inr ((ws (bslash # ''.+'') st)\<lparr>regexed := True\<rparr>)
      else if r = byte CHR ''?'' then Inr ((ws ''[^.]'' st)\<lparr>regexed := True\<rparr>)
      else if r = byte CHR ''*'' then Inr ((ws ''[^.]*'' st)\<lparr>regexed := True\<rparr>)
      else if r = byte CHR ''{'' then
        Inr ((ws ''('' st)\<lparr>groupStartStack := groupStartStack st @ [r], regexed := True\<rparr>)
      else if r = byte CHR ''}'' then
        (if priorGroupStart \<noteq> byte CHR ''{''
         then Inl (Errorf ''invalid '}' at %d, no prior for '{' in %s'' [natDec i, glob])
         else Inr ((wr CHR '')'' st)\<lparr>groupStartStack := butlast (groupStartStack st)\<rparr>))
      else if r = byte CHR ''['' then
        Inr ((wr CHR ''['' st)\<lparr>groupStartStack := groupStartStack st @ [r], regexed := True\<rparr>)
      else if r = byte CHR '']'' then
        (if priorGroupStart \<noteq> byte CHR ''[''
         then Inl (Errorf ''invalid ']' at %d, no prior for '[' in %s'' [natDec i, glob])
         else Inr ((wr CHR '']'' st)\<lparr>groupStartStack := butlast (groupStartStack st)\<rparr>))
      else if r \<in> {byte CHR ''<'', byte CHR ''>'', byte squote, byte CHR ''$''} then
        Inr (let st1 = wr bslash st in st1\<lparr>pattern := WriteRune r (pattern st1)\<rparr>)
      else if r = byte CHR ''|'' then Inr ((wr CHR ''|'' st)\<lparr>regexed := True\<rparr>)
      else if r = byte CHR '','' then
        (if priorGroupStart = byte CHR ''{'' then Inr (wr CHR ''|'' st)
         else Inl (Errorf ''invalid ',' outside of matching group at pos %d in %s'' [natDec i, glob]))
      else if \<not> validRune r then
        Inl (Errorf ''invalid character %c at pos %d in %s'' [encodeRune r, natDec i, glob])
      else Inr (st\<lparr>pattern := WriteRune r (pattern st)\<rparr>))"

fun globLoop :: "string \<Rightarrow> (nat \<times> nat) list \<Rightarrow> globState \<Rightarrow> globState result" where
  "globLoop glob [] st = Inr st"
| "globLoop glob ((i, r) # rs) st =
     (case globStep glob i r st of Inl e \<Rightarrow> Inl e | Inr st' \<Rightarrow> globLoop glob rs st')"

definition globToRegexPattern :: "string \<Rightarrow> (string \<times> bool) result" where
  "globToRegexPattern glob =
     (case globLoop glob (rangeRunes glob) initGlob of
        Inl e \<Rightarrow> Inl e
      | Inr st \<Rightarrow>
          if length (groupStartStack st) > 1 then
            Inl (Errorf ''unbalanced '%c' in %s'' [encodeRune (last (groupStartStack st)), glob])
          else Inr (buff (pattern st), regexed st))"

lemma globLoop_append:
  "globLoop g (xs @ ys) st = (case globLoop g xs st of Inl e \<Rightarrow> Inl e | Inr st' \<Rightarrow> globLoop g ys st')"
  by (induction xs arbitrary: st) (auto split: sum.splits prod.splits)

section \<open>Globs and regular expressions as syntax trees\<close>

text \<open>
  One node of a Graphite path: an identifier character, an escaped character, one of the
  characters that the translation quotes, the wild cards, a character range and a brace group of
  alternatives. \<open>langG\<close> is the set of node names it stands for.
\<close>

datatype glob =
    GLit char
  | GEsc char
  | GQuote char
  | GQuest
  | GStar
  | GRange "char list"
  | GAlt "glob list list"

datatype regex =
    RChar char
  | REsc char
  | RNotDot
  | RStar regex
  | RClass "char list"
  | RGroup "regex list list"

definition plainChar :: "char \<Rightarrow> bool" where
  "plainChar c \<longleftrightarrow> c \<in> set ValidIdentifierRunes \<and> c \<notin> {CHR ''<'', CHR ''>'', squote, CHR ''$'', CHR ''|''}"

fun wfG :: "glob \<Rightarrow> bool" where
  "wfG (GLit c) = plainChar c"
| "wfG (GEsc c) = (byte c < 0x80)"
| "wfG (GQuote c) = (c \<in> {CHR ''<'', CHR ''>'', squote, CHR ''$''})"
| "wfG GQuest = True"
| "wfG GStar = True"
| "wfG (GRange cs) = (cs \<noteq> [] \<and> list_all plainChar cs)"
| "wfG (GAlt gss) = (gss \<noteq> [] \<and> list_all (list_all wfG) gss)"

fun printG :: "glob \<Rightarrow> string" where
  "printG (GLit c) = [c]"
| "printG (GEsc c) = [bslash, c]"
| "printG (GQuote c) = [c]"
| "printG GQuest = ''?''"
| "printG GStar = ''*''"
| "printG (GRange cs) = ''['' @ cs @ '']''"
| "printG (GAlt gss) = ''{'' @ joinWith '','' (map (\<lambda>gs. concat (map printG gs)) gss) @ ''}''"

fun printR :: "regex \<Rightarrow> string" where
  "printR (RChar c) = [c]"
| "printR (REsc c) = [bslash, c]"
| "printR RNotDot = ''[^.]''"
| "printR (RStar r) = printR r @ ''*''"
| "printR (RClass cs) = ''['' @ cs @ '']''"
| "printR (RGroup rss) = ''('' @ joinWith ''|'' (map (\<lambda>rs. concat (map printR rs)) rss) @ '')''"

fun toRegex :: "glob \<Rightarrow> regex" where
  "toRegex (GLit c) = RChar c"
| "toRegex (GEsc c) = REsc c"
| "toRegex (GQuote c) = REsc c"
| "toRegex GQuest = RNotDot"
| "toRegex GStar = RStar RNotDot"
| "toRegex (GRange cs) = RClass cs"
| "toRegex (GAlt gss) = RGroup (map (map toRegex) gss)"

text \<open>Whether the translation reports the node as a regular expression.\<close>

fun isPattern :: "glob \<Rightarrow> bool" where
  "isPattern (GLit c) = False"
| "isPattern (GEsc c) = False"
| "isPattern (GQuote c) = False"
| "isPattern _ = True"

subsection \<open>Languages\<close>

text \<open>
  A name is the list of its runes, and the languages are sets of such lists: \<open>[^.]\<close> is one rune
  other than the dot, however many bytes encode it. Regular expressions are read as the
  documentation of Go's \<open>regexp/syntax\<close> (RE2) says: the backslash makes an ASCII character that is neither letter
  nor digit stand for itself, while a letter behind it names a class (\<open>\d\<close>, \<open>\w\<close>, \<open>\s\<close> and their
  complements), a control character, or something that is no character at all.
\<close>

definition conc :: "nat list set \<Rightarrow> nat list set \<Rightarrow> nat list set" where
  "conc A B = {u @ v | u v. u \<in> A \<and> v \<in> B}"

inductive_set star :: "nat list set \<Rightarrow> nat list set" for A where
  star_Nil: "[] \<in> star A"
| star_append: "u \<in> A \<Longrightarrow> v \<in> star A \<Longrightarrow> u @ v \<in> star A"

text \<open>The ranges of a character class; a class with an inverted range does not compile.\<close>

fun classRanges :: "char list \<Rightarrow> (nat \<times> nat) list" where
  "classRanges (a # CHR ''-'' # b # cs) = (byte a, byte b) # classRanges cs"
| "classRanges (a # cs) = (byte a, byte a) # classRanges cs"
| "classRanges [] = []"

definition classRunes :: "char list \<Rightarrow> nat set" where
  "classRunes cs = (\<Union>(lo, hi) \<in> set (classRanges cs). {lo..hi})"

definition validClass :: "char list \<Rightarrow> bool" where
  "validClass cs \<longleftrightarrow> cs \<noteq> [] \<and> list_all (\<lambda>(lo, hi). lo \<le> hi) (classRanges cs)"

definition isAlnum :: "char \<Rightarrow> bool" where
  "isAlnum c \<longleftrightarrow> between CHR ''0'' c CHR ''9'' \<or> between CHR ''a'' c CHR ''z'' \<or> between CHR ''A'' c CHR ''Z''"

definition wordRunes :: "nat set" where
  "wordRunes = of_char ` {c. isAlnum c \<or> c = CHR ''_''}"

definition escapeRunes :: "char \<Rightarrow> nat set option" where
  "escapeRunes c =
     (if byte c \<ge> 0x80 then None
      else if \<not> isAlnum c then Some {byte c}
      else if c = CHR ''d'' then Some {48..57} else if c = CHR ''D'' then Some (- {48..57})
      else if c = CHR ''w'' then Some wordRunes else if c = CHR ''W'' then Some (- wordRunes)
      else if c = CHR ''s'' then Some {9, 10, 12, 13, 32} else if c = CHR ''S'' then Some (- {9, 10, 12, 13, 32})
      else if c = CHR ''a'' then Some {7} else if c = CHR ''f'' then Some {12} else if c = CHR ''n'' then Some {10}
      else if c = CHR ''r'' then Some {13} else if c = CHR ''t'' then Some {9} else if c = CHR ''v'' then Some {11}
      else None)"

fun langR :: "regex \<Rightarrow> nat list set" where
  "langR (RChar c) = {[byte c]}"
| "langR (REsc c) = (case escapeRunes c of None \<Rightarrow> {} | Some A \<Rightarrow> {[r] | r. r \<in> A})"
| "langR RNotDot = {[r] | r. r \<noteq> byte CHR ''.''}"
| "langR (RStar r) = star (langR r)"
| "langR (RClass cs) = {[r] | r. r \<in> classRunes cs}"
| "langR (RGroup rss) = (\<Union>rs \<in> set rss. foldr (\<lambda>r. conc (langR r)) rs {[]})"

text \<open>The expressions that compile and mean \<open>langR\<close>.\<close>

fun validR :: "regex \<Rightarrow> bool" where
  "validR (RChar c) = plainChar c"
| "validR (REsc c) = (escapeRunes c \<noteq> None)"
| "validR RNotDot = True"
| "validR (RStar r) = (r = RNotDot)"
| "validR (RClass cs) = (validClass cs \<and> list_all plainChar cs)"
| "validR (RGroup rss) = (rss \<noteq> [] \<and> list_all (list_all validR) rss)"

text \<open>A glob says what it means in Graphite: an escaped character is that character.\<close>

fun langG :: "glob \<Rightarrow> nat list set" where
  "langG (GLit c) = {[byte c]}"
| "langG (GEsc c) = {[byte c]}"
| "langG (GQuote c) = {[byte c]}"
| "langG GQuest = {[r] | r. r \<noteq> byte CHR ''.''}"
| "langG GStar = {w. byte CHR ''.'' \<notin> set w}"
| "langG (GRange cs) = {[r] | r. r \<in> classRunes cs}"
| "langG (GAlt gss) = (\<Union>gs \<in> set gss. foldr (\<lambda>g. conc (langG g)) gs {[]})"

text \<open>The globs without an escaped letter or digit and without an inverted range.\<close>

fun faithfulG :: "glob \<Rightarrow> bool" where
  "faithfulG (GEsc c) = (\<not> isAlnum c)"
| "faithfulG (GRange cs) = validClass cs"
| "faithfulG (GAlt gss) = list_all (list_all faithfulG) gss"
| "faithfulG _ = True"

definition langGs :: "glob list \<Rightarrow> nat list set" where
  "langGs gs = foldr (\<lambda>g. conc (langG g)) gs {[]}"

definition langRs :: "regex list \<Rightarrow> nat list set" where
  "langRs rs = foldr (\<lambda>r. conc (langR r)) rs {[]}"

lemma star_NotDot: "star {[r] | r. r \<noteq> byte CHR ''.''} = {w. byte CHR ''.'' \<notin> set w}"
proof (intro set_eqI iffI)
  fix w assume "w \<in> star {[r] | r. r \<noteq> byte CHR ''.''}"
  then show "w \<in> {w. byte CHR ''.'' \<notin> set w}" by (induction rule: star.induct) auto
next
  fix w :: "nat list" assume "w \<in> {w. byte CHR ''.'' \<notin> set w}"
  then show "w \<in> star {[r] | r. r \<noteq> byte CHR ''.''}"
  proof (induction w)
    case (Cons c w)
    then have "[c] @ w \<in> star {[r] | r. r \<noteq> byte CHR ''.''}" by (intro star_append) auto
    then show ?case by simp
  qed (simp add: star_Nil)
qed

lemma escapeRunes_self: "byte c < 0x80 \<Longrightarrow> \<not> isAlnum c \<Longrightarrow> escapeRunes c = Some {byte c}"
  by (simp add: escapeRunes_def)

lemma quoted_chars: "list_all (\<lambda>c. byte c < 0x80 \<and> \<not> isAlnum c) [CHR ''<'', CHR ''>'', squote, CHR ''$'']"
  by code_simp

lemma quoted_self: "c \<in> {CHR ''<'', CHR ''>'', squote, CHR ''$''} \<Longrightarrow> escapeRunes c = Some {byte c}"
  using quoted_chars escapeRunes_self by auto

lemma langR_toRegex: "wfG g \<Longrightarrow> faithfulG g \<Longrightarrow> validR (toRegex g) \<and> langR (toRegex g) = langG g"
proof (induction g)
  case (GAlt gss)
  have m: "g \<in> set gs \<Longrightarrow> validR (toRegex g) \<and> langR (toRegex g) = langG g" if "gs \<in> set gss" for g gs
    using GAlt that by (auto simp: list_all_iff)
  have "foldr (\<lambda>r. conc (langR r)) (map toRegex gs) {[]} = foldr (\<lambda>g. conc (langG g)) gs {[]}"
    if "gs \<in> set gss" for gs
    using m [OF that] by (induction gs) auto
  with m GAlt.prems(1) show ?case by (auto simp: list_all_iff)
next
  case (GEsc c)
  then show ?case by (simp add: escapeRunes_self)
next
  case (GQuote c)
  then show ?case using quoted_self by simp
qed (simp_all add: star_NotDot [simplified])

lemma langRs_toRegex:
  "list_all wfG gs \<Longrightarrow> list_all faithfulG gs \<Longrightarrow> list_all validR (map toRegex gs) \<and> langRs (map toRegex gs) = langGs gs"
  by (induction gs) (simp_all add: langRs_def langGs_def langR_toRegex)

text \<open>An escaped letter is another matter: the glob \<open>\d\<close> means the letter, its regular expression a digit.\<close>

lemma escaped_letter_differs: "[48] \<in> langR (toRegex (GEsc CHR ''d''))" "[48] \<notin> langG (GEsc CHR ''d'')"
  by (simp_all add: escapeRunes_def isAlnum_def between_def)

subsection \<open>The state machine on a printed glob\<close>

definition advanced :: "globState \<Rightarrow> string \<Rightarrow> bool \<Rightarrow> globState \<Rightarrow> bool" where
  "advanced st p rx st' \<longleftrightarrow> buff (pattern st') = buff (pattern st) @ p \<and>
     groupStartStack st' = groupStartStack st \<and> regexed st' = (regexed st \<or> rx) \<and> \<not> escaping st'"

text \<open>
  \<open>reads b rs p rx\<close>: from every state outside an escape (inside braces, if \<open>b\<close>), the loop over
  the runes \<open>rs\<close> succeeds, writes \<open>p\<close>, restores the stack and sets the flag if \<open>rx\<close>.
\<close>

definition reads :: "bool \<Rightarrow> nat list \<Rightarrow> string \<Rightarrow> bool \<Rightarrow> bool" where
  "reads b rs p rx \<longleftrightarrow> (\<forall>G ps st. map snd ps = rs \<longrightarrow> \<not> escaping st \<longrightarrow>
     (b \<longrightarrow> last (groupStartStack st) = byte CHR ''{'') \<longrightarrow>
     (\<exists>st'. globLoop G ps st = Inr st' \<and> advanced st p rx st'))"

lemma readsI:
  assumes "\<And>G ps st. map snd ps = rs \<Longrightarrow> \<not> escaping st \<Longrightarrow>
     (b \<longrightarrow> last (groupStartStack st) = byte CHR ''{'') \<Longrightarrow>
     \<exists>st'. globLoop G ps st = Inr st' \<and> advanced st p rx st'"
  shows "reads b rs p rx"
  using assms by (simp add: reads_def)

lemma reads_weaken: "reads False rs p rx \<Longrightarrow> reads b rs p rx"
  by (simp add: reads_def)

lemma reads_Nil [simp]: "reads b [] [] False"
  by (auto simp: reads_def advanced_def)

lemma reads_append:
  assumes "reads b r1 p1 x1" "reads b r2 p2 x2"
  shows "reads b (r1 @ r2) (p1 @ p2) (x1 \<or> x2)"
proof (rule readsI)
  fix G and ps :: "(nat \<times> nat) list" and st :: globState
  assume ps: "map snd ps = r1 @ r2" and st: "\<not> escaping st"
    "b \<longrightarrow> last (groupStartStack st) = byte CHR ''{''"
  obtain ps1 ps2 :: "(nat \<times> nat) list" where eq: "ps = ps1 @ ps2" "map snd ps1 = r1" "map snd ps2 = r2"
    using ps by (auto simp: map_eq_append_conv)
  obtain st1 where st1: "globLoop G ps1 st = Inr st1" "advanced st p1 x1 st1"
    using assms(1) eq(2) st unfolding reads_def by blast
  obtain st2 where st2: "globLoop G ps2 st1 = Inr st2" "advanced st1 p2 x2 st2"
    using assms(2) eq(3) st st1(2) unfolding reads_def advanced_def by metis
  show "\<exists>st'. globLoop G ps st = Inr st' \<and> advanced st (p1 @ p2) (x1 \<or> x2) st'"
    using st1 st2 eq(1) by (auto simp: globLoop_append advanced_def)
qed

lemma encodeRune_byte [simp]: "byte c < 0x80 \<Longrightarrow> encodeRune (byte c) = [c]"
  by (simp add: encodeRune_def)

lemma validRune_byte: "validRune (byte c) \<longleftrightarrow> c \<in> set ValidIdentifierRunes"
  by (auto simp: validRune_def)

lemma ValidIdentifierRunes_bytes: "list_all (\<lambda>c. byte c < 0x80) ValidIdentifierRunes"
  by code_simp

lemma ValidIdentifierRunes_ascii: "c \<in> set ValidIdentifierRunes \<Longrightarrow> byte c < 0x80"
  using ValidIdentifierRunes_bytes by (auto simp: list_all_iff)

text \<open>The bytes the loop treats specially.\<close>

definition special :: "nat list" where
  "special = map of_char [bslash, CHR ''.'', CHR ''?'', CHR ''*'', CHR ''{'', CHR ''}'', CHR ''['', CHR '']'',
     CHR ''<'', CHR ''>'', squote, CHR ''$'', CHR ''|'', CHR '','']"

lemma special_eq: "special = [92, 46, 63, 42, 123, 125, 91, 93, 60, 62, 39, 36, 124, 44]"
  by (simp add: special_def)

lemma ValidIdentifierRunes_special:
  "list_all (\<lambda>c. c \<in> {CHR ''<'', CHR ''>'', squote, CHR ''$'', CHR ''|''} \<or> byte c \<notin> set special)
     ValidIdentifierRunes"
  by code_simp

lemma plainChar_cases:
  "plainChar c \<Longrightarrow> byte c < 0x80 \<and> c \<in> set ValidIdentifierRunes \<and> byte c \<notin> set special"
  using ValidIdentifierRunes_ascii [of c] ValidIdentifierRunes_special
  by (auto simp: plainChar_def list_all_iff)

lemma reads_oneI:
  assumes "\<And>G i st. \<not> escaping st \<Longrightarrow> (b \<longrightarrow> last (groupStartStack st) = byte CHR ''{'') \<Longrightarrow>
     \<exists>st'. globStep G i r st = Inr st' \<and> advanced st p rx st'"
  shows "reads b [r] p rx"
proof (rule readsI)
  fix G and ps :: "(nat \<times> nat) list" and st :: globState
  assume "map snd ps = [r]" and st: "\<not> escaping st"
    "b \<longrightarrow> last (groupStartStack st) = byte CHR ''{''"
  then obtain i where ps: "ps = [(i, r)]" by auto
  obtain st' where "globStep G i r st = Inr st'" "advanced st p rx st'"
    using assms st by blast
  then show "\<exists>st'. globLoop G ps st = Inr st' \<and> advanced st p rx st'" by (simp add: ps)
qed

lemma encodeRune_chars:
  "encodeRune 124 = ''|''" "encodeRune 92 = [bslash]" "encodeRune 91 = ''[''" "encodeRune 93 = '']''"
  "encodeRune 41 = '')''" "encodeRune 60 = ''<''" "encodeRune 62 = ''>''" "encodeRune 39 = [squote]"
  "encodeRune 36 = ''$''"
  by code_simp+

lemmas step_simps = globStep_def Let_def advanced_def WriteRune_def WriteString_def Evaluate_def
  validRune_byte byte_eq_iff

lemma reads_plain: "plainChar c \<Longrightarrow> reads b [byte c] [c] False"
  using plainChar_cases [of c] by (intro reads_oneI) (simp add: step_simps special_eq)

lemma reads_plains: "list_all plainChar cs \<Longrightarrow> reads b (map of_char cs) cs False"
proof (induction cs)
  case (Cons c cs)
  then show ?case using reads_append [of b "[byte c]" "[c]" False "map of_char cs" cs False]
    by (simp add: reads_plain)
qed simp

lemma reads_quest: "reads b [byte CHR ''?''] ''[^.]'' True"
  by (intro reads_oneI) (simp add: step_simps)

lemma reads_star: "reads b [byte CHR ''*''] ''[^.]*'' True"
  by (intro reads_oneI) (simp add: step_simps)

lemma reads_comma: "reads True [byte CHR '',''] ''|'' False"
  by (intro reads_oneI) (simp add: step_simps encodeRune_chars)

lemma reads_quote:
  "c \<in> {CHR ''<'', CHR ''>'', squote, CHR ''$''} \<Longrightarrow> reads b [byte c] [bslash, c] False"
  by (elim insertE emptyE; hypsubst; intro reads_oneI) (simp_all add: step_simps encodeRune_chars)

lemma reads_escaped:
  assumes "byte c < 0x80"
  shows "reads b [byte bslash, byte c] [bslash, c] False"
proof (rule readsI)
  fix G and ps :: "(nat \<times> nat) list" and st :: globState
  assume "map snd ps = [byte bslash, byte c]" and st: "\<not> escaping st"
  then obtain i j where ps: "ps = [(i, byte bslash), (j, byte c)]" by auto
  show "\<exists>st'. globLoop G ps st = Inr st' \<and> advanced st [bslash, c] False st'"
    using assms st unfolding ps by (simp add: step_simps encodeRune_chars)
qed

text \<open>A bracketed part: it is read with the open bracket on top of the stack.\<close>

lemma reads_bracket:
  assumes inner: "reads b rs p x"
    and opens: "\<And>G i st. \<not> escaping st \<Longrightarrow> \<exists>st'. globStep G i ob st = Inr st' \<and> \<not> escaping st' \<and>
      buff (pattern st') = buff (pattern st) @ po \<and> groupStartStack st' = groupStartStack st @ [ob] \<and> regexed st'"
    and closes: "\<And>G i st. \<not> escaping st \<Longrightarrow> last (groupStartStack st) = ob \<Longrightarrow>
      \<exists>st'. globStep G i cb st = Inr st' \<and> \<not> escaping st' \<and> regexed st' = regexed st \<and>
      buff (pattern st') = buff (pattern st) @ pc \<and> groupStartStack st' = butlast (groupStartStack st)"
    and top: "b \<longrightarrow> ob = byte CHR ''{''"
  shows "reads b' (ob # rs @ [cb]) (po @ p @ pc) True"
proof (rule readsI)
  fix G and ps :: "(nat \<times> nat) list" and st :: globState
  assume "map snd ps = ob # rs @ [cb]" and st: "\<not> escaping st"
  then obtain i ps1 j where ps: "ps = (i, ob) # ps1 @ [(j, cb)]" "map snd ps1 = rs"
    by (auto simp: map_eq_append_conv Cons_eq_append_conv map_eq_Cons_conv)
  obtain s1 where s1: "globStep G i ob st = Inr s1" "\<not> escaping s1" "regexed s1"
    "buff (pattern s1) = buff (pattern st) @ po" "groupStartStack s1 = groupStartStack st @ [ob]"
    using opens st by blast
  have "last (groupStartStack s1) = ob" using s1(5) by simp
  then obtain s2 where s2: "globLoop G ps1 s1 = Inr s2" "advanced s1 p x s2"
    using inner ps(2) s1(2) top unfolding reads_def by blast
  have "\<not> escaping s2" "last (groupStartStack s2) = ob" using s2(2) s1(5) by (simp_all add: advanced_def)
  then obtain s3 where s3: "globStep G j cb s2 = Inr s3" "\<not> escaping s3" "regexed s3 = regexed s2"
    "buff (pattern s3) = buff (pattern s2) @ pc" "groupStartStack s3 = butlast (groupStartStack s2)"
    using closes by blast
  show "\<exists>st'. globLoop G ps st = Inr st' \<and> advanced st (po @ p @ pc) True st'"
    using s1 s2 s3 by (simp add: ps(1) globLoop_append advanced_def)
qed

lemma reads_range:
  assumes "list_all plainChar cs"
  shows "reads b (map of_char (''['' @ cs @ '']'')) (''['' @ cs @ '']'') True"
  using reads_bracket [where b = False and b' = b, of "map of_char cs" cs False "byte CHR ''[''"
      "''[''" "byte CHR '']''" "'']''", OF reads_plains [OF assms]]
  by (simp add: step_simps encodeRune_chars)

lemma reads_braces:
  assumes "reads True rs p x"
  shows "reads b (byte CHR ''{'' # rs @ [byte CHR ''}'']) (''('' @ p @ '')'') True"
  by (rule reads_bracket [OF assms]) (simp_all add: step_simps encodeRune_chars)

subsection \<open>The translation of a printed glob\<close>

definition printGs :: "glob list \<Rightarrow> string" where
  "printGs gs = concat (map printG gs)"

definition printRs :: "regex list \<Rightarrow> string" where
  "printRs rs = concat (map printR rs)"

lemma reads_sequence:
  assumes "\<And>g. g \<in> set gs \<Longrightarrow> reads b (map of_char (printG g)) (printR (toRegex g)) (isPattern g)"
  shows "reads b (map of_char (printGs gs)) (printRs (map toRegex gs)) (list_ex isPattern gs)"
  using assms
proof (induction gs)
  case (Cons g gs)
  then show ?case
    using reads_append [of b "map of_char (printG g)" "printR (toRegex g)" "isPattern g"
        "map of_char (printGs gs)" "printRs (map toRegex gs)" "list_ex isPattern gs"]
    by (simp add: printGs_def printRs_def)
qed (simp add: printGs_def printRs_def)

lemma reads_alternatives:
  assumes "\<And>gs. gs \<in> set gss \<Longrightarrow> \<exists>x. reads True (map of_char (printGs gs)) (printRs (map toRegex gs)) x"
  shows "\<exists>x. reads True (map of_char (joinWith '','' (map printGs gss)))
           (joinWith ''|'' (map (\<lambda>gs. printRs (map toRegex gs)) gss)) x"
  using assms
proof (induction gss rule: induct_list012)
  case (2 gs)
  then show ?case by simp
next
  case (3 gs gs' gss)
  obtain x where x: "reads True (map of_char (printGs gs)) (printRs (map toRegex gs)) x"
    using "3.prems" by auto
  obtain y where y: "reads True (map of_char (joinWith '','' (map printGs (gs' # gss))))
      (joinWith ''|'' (map (\<lambda>gs. printRs (map toRegex gs)) (gs' # gss))) y"
    using "3.IH"(2) "3.prems" by auto
  show ?case using reads_append [OF x reads_append [OF reads_comma y]] by auto
qed (auto intro: reads_Nil)

lemma reads_glob:
  "wfG g \<Longrightarrow> reads b (map of_char (printG g)) (printR (toRegex g)) (isPattern g)"
proof (induction g arbitrary: b)
  case (GAlt gss)
  have "\<exists>x. reads True (map of_char (printGs gs)) (printRs (map toRegex gs)) x" if "gs \<in> set gss" for gs
    using GAlt that reads_sequence [of gs True] by (auto simp: list_all_iff)
  from reads_alternatives [OF this] obtain x where
    "reads True (map of_char (joinWith '','' (map printGs gss)))
       (joinWith ''|'' (map (\<lambda>gs. printRs (map toRegex gs)) gss)) x" by blast
  from reads_braces [OF this, of b] show ?case
    by (simp add: printGs_def [abs_def] printRs_def comp_def)
next
  case (GRange cs)
  then show ?case using reads_range [of cs b] by simp
qed (simp_all add: reads_plain [simplified] reads_quest [simplified] reads_star [simplified]
       reads_quote [simplified] reads_escaped [simplified])

lemma isAscii_printG: "wfG g \<Longrightarrow> isAscii (printG g)"
proof (induction g)
  case (GAlt gss)
  have "isAscii (concat (map printG gs))" if "gs \<in> set gss" for gs
    using GAlt that by (auto simp: isAscii_def list_all_iff)
  then show ?case
    using joinWith_set [of "'',''" "map (\<lambda>gs. concat (map printG gs)) gss"]
    by (fastforce simp: isAscii_def)
qed (auto simp: isAscii_def list_all_iff dest: plainChar_cases)

lemma isAscii_printGs: "list_all wfG gs \<Longrightarrow> isAscii (printGs gs)"
  using isAscii_printG by (auto simp: printGs_def isAscii_def list_all_iff)

lemma map_snd_rangeRunes: "isAscii s \<Longrightarrow> map snd (rangeRunes s) = map of_char s"
  by (simp add: rangeRunes_ascii)

lemma glob_translated:
  assumes "list_all wfG gs"
  shows "globToRegexPattern (printGs gs) = Inr (printRs (map toRegex gs), list_ex isPattern gs)"
proof -
  have "reads False (map of_char (printGs gs)) (printRs (map toRegex gs)) (list_ex isPattern gs)"
    using assms reads_glob by (intro reads_sequence) (auto simp: list_all_iff)
  moreover have "map snd (rangeRunes (printGs gs)) = map of_char (printGs gs)"
    by (simp add: map_snd_rangeRunes isAscii_printGs assms)
  ultimately obtain st where
    "globLoop (printGs gs) (rangeRunes (printGs gs)) initGlob = Inr st"
    "advanced initGlob (printRs (map toRegex gs)) (list_ex isPattern gs) st"
    unfolding reads_def by (metis (no_types, lifting) globState.select_convs(2) initGlob_def)
  then show ?thesis by (simp add: globToRegexPattern_def advanced_def initGlob_def emptyPattern_def)
qed

text \<open>C7: on every well-formed glob the state machine writes the regular expression of its syntax tree and says
  whether it is a pattern. If no letter or digit is escaped and no range inverted, the regular expression compiles and
  stands, in the syntax of Go's regular expressions, for the same names as the glob.\<close>

theorem globToRegexPattern_glob:
  assumes "list_all wfG gs"
  shows "globToRegexPattern (printGs gs) = Inr (printRs (map toRegex gs), list_ex isPattern gs) \<and>
    (list_all faithfulG gs \<longrightarrow> list_all validR (map toRegex gs) \<and> langRs (map toRegex gs) = langGs gs)"
  using glob_translated [OF assms] langRs_toRegex [OF assms] by blast

theorem globToRegexPattern_glob_witness:
  "\<exists>gs. globToRegexPattern ''a{b,c*}[x-z]?'' = Inr (''a(b|c[^.]*)[x-z][^.]'', True) \<and> printGs gs = ''a{b,c*}[x-z]?'' \<and>
     langRs (map toRegex gs) = langGs gs"
proof -
  let ?gs = "[GLit CHR ''a'', GAlt [[GLit CHR ''b''], [GLit CHR ''c'', GStar]], GRange ''x-z'', GQuest]"
  have "list_all wfG ?gs" by (simp add: plainChar_def ValidIdentifierRunes_def)
  moreover have "list_all faithfulG ?gs" by (simp add: validClass_def)
  ultimately have "globToRegexPattern (printGs ?gs) = Inr (printRs (map toRegex ?gs), True) \<and> langRs (map toRegex ?gs) = langGs ?gs"
    using globToRegexPattern_glob [of ?gs] by simp
  then show ?thesis by (intro exI [of _ ?gs]) (simp add: printGs_def printRs_def)
qed

text \<open>With an escaped letter they differ: the letter is copied behind the backslash and becomes a class of characters.\<close>

lemma escaped_letter_copied:
  "globToRegexPattern (bslash # ''d*'') = Inr (bslash # ''d[^.]*'', True)"
  "[48] \<in> langRs (map toRegex [GEsc CHR ''d'', GStar])" "[48] \<notin> langGs [GEsc CHR ''d'', GStar]"
proof -
  show "globToRegexPattern (bslash # ''d*'') = Inr (bslash # ''d[^.]*'', True)" by code_simp
  have e: "escapeRunes CHR ''d'' = Some {48..57}" by (simp add: escapeRunes_def isAlnum_def between_def)
  show "[48] \<in> langRs (map toRegex [GEsc CHR ''d'', GStar])"
    unfolding langRs_def conc_def by (simp add: e star_NotDot [simplified]) (rule exI [of _ "[48]"], simp)
  show "[48] \<notin> langGs [GEsc CHR ''d'', GStar]" by (auto simp: langGs_def conc_def)
qed

section \<open>Matching\<close>

text \<open>
  What a theorem about a query asks of the storage's regular expressions: that this one, which
  compiles, matches the values whose runes are in its language.
\<close>

definition readsRegex :: "(string \<Rightarrow> string \<Rightarrow> bool) \<Rightarrow> regex list \<Rightarrow> bool" where
  "readsRegex match rs \<longleftrightarrow> (\<forall>v. match (printRs rs) v \<longleftrightarrow> runesOf v \<in> langRs rs)"

end
