(* ===== verification/Converter.thy ===== *)
theory Converter
  imports Glob Ast
begin

text \<open>
  \<open>src/prometheus/converter.go\<close>: a Graphite path \<open>a.b.c\<close> is the metric \<open>a\<close> with the labels
  \<open>__a_g1__ = b\<close>, \<open>__a_g2__ = c\<close>; queries become label filters, and label sets become paths again.
\<close>

definition labelName :: "string \<Rightarrow> nat \<Rightarrow> string" where
  "labelName name i = ''__'' @ name @ ''_g'' @ Itoa (int i) @ ''__''"

text \<open>\<open>LabelFilters.Build\<close>. A negative regular expression is written as a positive one.\<close>

definition buildFilter :: "LabelFilter \<Rightarrow> string" where
  "buildFilter f =
     (if IsRegexp f then '','' @ Label f @ ''=~\"'' @ Value f @ [dquote]
      else if IsNegative f then '','' @ Label f @ ''!=\"'' @ Value f @ [dquote]
      else '','' @ Label f @ ''=\"'' @ Value f @ [dquote])"

definition Build :: "LabelFilter list \<Rightarrow> string \<Rightarrow> string" where
  "Build l name = ''{__name__=\"'' @ name @ [dquote] @ concat (map buildFilter l) @ ''}''"

definition graphiteName :: "string list \<Rightarrow> string" where
  "graphiteName nodes = ReplaceByte (nodes ! 0) CHR ''-'' CHR ''_''"

text \<open>The loop over the nodes from index \<open>i\<close>; \<open>None\<close> is the early return of \<open>"", nil\<close>.\<close>

fun convertNodes :: "string \<Rightarrow> nat \<Rightarrow> string list \<Rightarrow> LabelFilter list \<Rightarrow> LabelFilter list option" where
  "convertNodes name i [] filters = Some filters"
| "convertNodes name i (node # nodes) filters =
     (if node = ''*'' then convertNodes name (i + 1) nodes filters
      else case globToRegexPattern node of
        Inl e \<Rightarrow> None
      | Inr (value, isRegex) \<Rightarrow>
          convertNodes name (i + 1) nodes
            (filters @ [\<lparr>Label = labelName name i, Value = value, IsNegative = False, IsRegexp = isRegex\<rparr>]))"

definition ConvertGraphiteTarget :: "string \<Rightarrow> bool \<Rightarrow> string \<times> LabelFilter list option" where
  "ConvertGraphiteTarget query terminal =
     (let nodes = SplitByte query CHR ''.''; name = graphiteName nodes in
      case convertNodes name 1 (drop 1 nodes) [] of
        None \<Rightarrow> ([], None)
      | Some filters \<Rightarrow>
          (name, Some (if terminal then
              filters @ [\<lparr>Label = labelName name (length nodes), Value = [], IsNegative = False, IsRegexp = False\<rparr>]
            else filters)))"

definition ConvertQueryLabel :: "string \<Rightarrow> string \<times> string \<times> bool" where
  "ConvertQueryLabel query =
     (let nodes = SplitByte query CHR ''.''; name = graphiteName nodes in
      (name @ concat (map (\<lambda>node. ''.'' @ node) (take (length nodes - 2) (drop 1 nodes))) @ ''.'',
       labelName name (length nodes - 1), length nodes = 2))"

text \<open>A Go map is a list of pairs with distinct keys.\<close>

fun metricNodes :: "string \<Rightarrow> (string \<times> string) list \<Rightarrow> nat \<Rightarrow> nat \<Rightarrow> string" where
  "metricNodes name metric i 0 = []"
| "metricNodes name metric i (Suc k) =
     (case map_of metric (labelName name i) of None \<Rightarrow> [] | Some value \<Rightarrow> ''.'' @ value)
     @ metricNodes name metric (i + 1) k"

definition ConvertPrometheusMetric :: "string \<Rightarrow> (string \<times> string) list \<Rightarrow> string" where
  "ConvertPrometheusMetric name metric =
     (if (case map_of metric ''__name__'' of None \<Rightarrow> False | Some n \<Rightarrow> n \<noteq> name) then []
      else name @ metricNodes name metric 1 (length metric))"

section \<open>Label names\<close>

lemma labelName_inj [simp]: "labelName name i = labelName name j \<longleftrightarrow> i = j"
  by (simp add: labelName_def)

lemma labelName_not_name [simp]: "labelName name i \<noteq> ''__name__''"
proof
  assume "labelName name i = ''__name__''"
  then have e: "name @ ''_g'' @ natDec i = ''name''"
    by (simp add: labelName_def Itoa_of_nat)
  have r: "rev (natDec i) @ ''g_'' @ rev name = ''eman''" using arg_cong [OF e, of rev] by simp
  obtain c cs where c: "rev (natDec i) = c # cs" using natDec_not_Nil by (cases "rev (natDec i)") auto
  then have "c \<in> set (natDec i)" by (metis list.set_intros(1) set_rev)
  with r c natDec_digits [of c i] show False by (simp add: between_def)
qed

lemma labelName_not_name' [simp]: "''__name__'' \<noteq> labelName name i"
  using labelName_not_name by metis

section \<open>Series and queries\<close>

text \<open>
  A stored series: the metric name and one label per further node of its path. A label that a
  series does not have reads as the empty string, as in Prometheus.
\<close>

definition storedLabels :: "string \<Rightarrow> string list \<Rightarrow> (string \<times> string) list" where
  "storedLabels name vs = map (\<lambda>i. (labelName name (Suc i), vs ! i)) [0..<length vs]"

definition labelValue :: "(string \<times> string) list \<Rightarrow> string \<Rightarrow> string" where
  "labelValue labels l = (case map_of labels l of None \<Rightarrow> [] | Some v \<Rightarrow> v)"

definition nodeAt :: "string list \<Rightarrow> nat \<Rightarrow> string" where
  "nodeAt vs i = (if i < length vs then vs ! i else [])"

text \<open>\<open>reMatch p v\<close>: the anchored match of the storage's regular expressions.\<close>

definition filterMatches :: "(string \<Rightarrow> string \<Rightarrow> bool) \<Rightarrow> (string \<times> string) list \<Rightarrow> LabelFilter \<Rightarrow> bool" where
  "filterMatches reMatch labels f =
     ((if IsRegexp f then reMatch (Value f) (labelValue labels (Label f))
       else labelValue labels (Label f) = Value f) \<noteq> IsNegative f)"

lemma map_of_storedLabels:
  "map_of (storedLabels name vs) (labelName name (Suc i)) = (if i < length vs then Some (vs ! i) else None)"
proof -
  have "map_of (map (\<lambda>i. (labelName name (Suc i), vs ! i)) xs) (labelName name (Suc i)) =
      (if i \<in> set xs then Some (vs ! i) else None)" for xs
    by (induction xs) auto
  then show ?thesis by (simp add: storedLabels_def)
qed

lemma labelValue_storedLabels: "labelValue (storedLabels name vs) (labelName name (Suc i)) = nodeAt vs i"
  by (simp add: labelValue_def map_of_storedLabels nodeAt_def)

lemma map_of_storedLabels_name: "map_of (storedLabels name vs) ''__name__'' = None"
  by (auto simp: storedLabels_def map_of_eq_None_iff)

subsection \<open>From labels back to the path\<close>

lemma metricNodes_stored:
  assumes "\<And>i. i < length vs \<Longrightarrow> map_of metric (labelName name (Suc i)) = Some (vs ! i)"
    and "\<And>i. length vs \<le> i \<Longrightarrow> map_of metric (labelName name (Suc i)) = None"
  shows "j \<le> length vs \<Longrightarrow> length vs \<le> j + k \<Longrightarrow>
    metricNodes name metric (Suc j) k = concat (map (\<lambda>v. ''.'' @ v) (drop j vs))"
proof (induction k arbitrary: j)
  case (Suc k)
  show ?case
  proof (cases "j < length vs")
    case True
    then have "drop j vs = vs ! j # drop (Suc j) vs" by (simp add: Cons_nth_drop_Suc)
    with Suc True assms(1) [of j] show ?thesis by simp
  next
    case False
    have none: "metricNodes name metric (Suc i) k = []" if "length vs \<le> i" for i k
      using that assms(2) by (induction k arbitrary: i) simp_all
    from False none [of j "Suc k"] Suc.prems show ?thesis by simp
  qed
qed simp

lemma JoinByte_concat: "JoinByte c (x # xs) = x @ concat (map (\<lambda>v. c # v) xs)"
proof (induction xs arbitrary: x)
  case (Cons y ys)
  then show ?case by (simp add: JoinByte_Cons)
qed simp

lemma ConvertPrometheusMetric_stored:
  assumes "mapping = (''__name__'', name) # storedLabels name vs \<or> mapping = storedLabels name vs"
  shows "ConvertPrometheusMetric name mapping = JoinByte CHR ''.'' (name # vs)"
proof -
  have lk: "map_of mapping (labelName name (Suc i)) = (if i < length vs then Some (vs ! i) else None)" for i
    using assms by (auto simp: map_of_storedLabels)
  have "metricNodes name mapping (Suc 0) (length mapping) = concat (map (\<lambda>v. ''.'' @ v) (drop 0 vs))"
    using assms by (intro metricNodes_stored) (auto simp: lk storedLabels_def)
  moreover have "map_of mapping ''__name__'' \<in> {None, Some name}"
    using assms map_of_storedLabels_name by auto
  ultimately show ?thesis by (auto simp: ConvertPrometheusMetric_def JoinByte_concat)
qed

subsection \<open>What a query selects\<close>

text \<open>
  A query node is a glob: plain identifier characters (compared for equality) or a pattern, in
  which no letter or digit is escaped and no range inverted (see \<open>escaped_letter_copied\<close>).
  \<open>nodeAccepts\<close> is the meaning of a node on the value of its label; the node \<open>*\<close> adds no
  filter at all.
\<close>

definition wfNode :: "glob list \<Rightarrow> bool" where
  "wfNode gs \<longleftrightarrow> list_all wfG gs \<and> list_all faithfulG gs \<and>
     (list_ex isPattern gs \<or> list_all (\<lambda>g. case g of GLit c \<Rightarrow> True | _ \<Rightarrow> False) gs)"

definition nodeAccepts :: "glob list \<Rightarrow> string \<Rightarrow> bool" where
  "nodeAccepts gs v \<longleftrightarrow> printGs gs = ''*'' \<or> runesOf v \<in> langGs gs"

fun queryAccepts :: "glob list list \<Rightarrow> nat \<Rightarrow> string list \<Rightarrow> bool" where
  "queryAccepts [] i vs \<longleftrightarrow> True"
| "queryAccepts (gs # gss) i vs \<longleftrightarrow> nodeAccepts gs (nodeAt vs i) \<and> queryAccepts gss (Suc i) vs"

lemma literal_node:
  assumes "list_all (\<lambda>g. case g of GLit c \<Rightarrow> True | _ \<Rightarrow> False) gs"
  shows "langGs gs = {map of_char (printGs gs)}" "printRs (map toRegex gs) = printGs gs" "\<not> list_ex isPattern gs"
proof -
  obtain cs where gs: "gs = map GLit cs"
  proof -
    from assms have "\<exists>cs. gs = map GLit cs"
    proof (induction gs)
      case (Cons g gs)
      then obtain cs c where "gs = map GLit cs" "g = GLit c" by (auto split: glob.splits)
      then have "g # gs = map GLit (c # cs)" by simp
      then show ?case by (intro exI)
    qed simp
    with that show ?thesis by blast
  qed
  show "langGs gs = {map of_char (printGs gs)}" unfolding gs
    by (induction cs) (auto simp: langGs_def printGs_def conc_def)
  show "printRs (map toRegex gs) = printGs gs" unfolding gs
    by (simp add: printGs_def printRs_def comp_def)
  show "\<not> list_ex isPattern gs" unfolding gs by (induction cs) simp_all
qed

text \<open>The filter that one node contributes matches a series iff the node accepts its label.\<close>

definition nodeFilter :: "string \<Rightarrow> nat \<Rightarrow> glob list \<Rightarrow> LabelFilter" where
  "nodeFilter name i gs = \<lparr>Label = labelName name i, Value = printRs (map toRegex gs),
     IsNegative = False, IsRegexp = list_ex isPattern gs\<rparr>"

definition nodeFilters :: "string \<Rightarrow> nat \<Rightarrow> glob list \<Rightarrow> LabelFilter list" where
  "nodeFilters name i gs = (if printGs gs = ''*'' then [] else [nodeFilter name i gs])"

lemma convertNodes_globs:
  "list_all (list_all wfG) gss \<Longrightarrow> convertNodes name i (map printGs gss) acc =
     Some (acc @ concat (map (\<lambda>(k, gs). nodeFilters name k gs) (zip [i..<i + length gss] gss)))"
proof (induction gss arbitrary: i acc)
  case (Cons gs gss)
  have u: "[i..<i + length (gs # gss)] = i # [Suc i..<Suc i + length gss]"
    using upt_conv_Cons [of i "i + length (gs # gss)"] by simp
  show ?case
  proof (cases "printGs gs = ''*''")
    case True
    with Cons show ?thesis unfolding u by (simp add: nodeFilters_def del: upt_Suc)
  next
    case False
    with Cons glob_translated [of gs] show ?thesis
      unfolding u by (simp add: nodeFilters_def nodeFilter_def del: upt_Suc)
  qed
qed simp

lemma nodeFilters_match:
  assumes re: "list_ex isPattern gs \<Longrightarrow> readsRegex reMatch (map toRegex gs)"
    and wf: "wfNode gs"
  shows "list_all (filterMatches reMatch (storedLabels name vs)) (nodeFilters name (Suc i) gs)
    \<longleftrightarrow> nodeAccepts gs (nodeAt vs i)"
proof (cases "printGs gs = ''*''")
  case False
  note f = nodeFilters_def nodeFilter_def filterMatches_def labelValue_storedLabels nodeAccepts_def
  show ?thesis
  proof (cases "list_ex isPattern gs")
    case True
    from wf have "langRs (map toRegex gs) = langGs gs" using langRs_toRegex by (simp add: wfNode_def)
    with re True False show ?thesis by (simp add: f readsRegex_def)
  next
    case lit: False
    with wf have l: "list_all (\<lambda>g. case g of GLit c \<Rightarrow> True | _ \<Rightarrow> False) gs" by (simp add: wfNode_def)
    have "isAscii (printGs gs)" using wf by (simp add: wfNode_def isAscii_printGs)
    with literal_node(1,2) [OF l] lit False show ?thesis by (auto simp: f runesOf_ascii_iff)
  qed
qed (simp add: nodeFilters_def nodeAccepts_def)

lemma queryFilters_match:
  assumes "\<And>gs. gs \<in> set gss \<Longrightarrow> list_ex isPattern gs \<Longrightarrow> readsRegex reMatch (map toRegex gs)"
    and "list_all wfNode gss"
  shows "list_all (filterMatches reMatch (storedLabels name vs))
      (concat (map (\<lambda>(k, gs). nodeFilters name k gs) (zip [Suc i..<Suc i + length gss] gss)))
    \<longleftrightarrow> queryAccepts gss i vs"
  using assms
proof (induction gss arbitrary: i)
  case (Cons gs gss)
  have u: "[Suc i..<Suc i + length (gs # gss)] = Suc i # [Suc (Suc i)..<Suc (Suc i) + length gss]"
    using upt_conv_Cons [of "Suc i" "Suc i + length (gs # gss)"] by simp
  have "list_all (filterMatches reMatch (storedLabels name vs)) (nodeFilters name (Suc i) gs)
      \<longleftrightarrow> nodeAccepts gs (nodeAt vs i)"
    using Cons.prems by (intro nodeFilters_match) auto
  with Cons.IH [of "Suc i"] Cons.prems show ?case
    unfolding u by (simp del: upt_Suc)
qed simp

text \<open>All the filters of a query; a terminal query also requires that there is no further node.\<close>

definition pathFilters :: "string \<Rightarrow> glob list list \<Rightarrow> bool \<Rightarrow> LabelFilter list" where
  "pathFilters name gss terminal =
     concat (map (\<lambda>(k, gs). nodeFilters name k gs) (zip [Suc 0..<Suc 0 + length gss] gss)) @
     (if terminal then [\<lparr>Label = labelName name (Suc (length gss)), Value = [], IsNegative = False, IsRegexp = False\<rparr>]
      else [])"

lemma pathFilters_match:
  assumes re: "\<And>gs. gs \<in> set gss \<Longrightarrow> list_ex isPattern gs \<Longrightarrow> readsRegex reMatch (map toRegex gs)"
    and wf: "list_all wfNode gss"
  shows "list_all (filterMatches reMatch (storedLabels name vs)) (pathFilters name gss terminal) \<longleftrightarrow>
    queryAccepts gss 0 vs \<and> (terminal \<longrightarrow> nodeAt vs (length gss) = [])"
proof -
  have m: "list_all (filterMatches reMatch (storedLabels name vs))
      (concat (map (\<lambda>(k, gs). nodeFilters name k gs) (zip [Suc 0..<Suc 0 + length gss] gss))) \<longleftrightarrow> queryAccepts gss 0 vs"
    using queryFilters_match [OF re wf, where name = name and i = 0] by simp
  have t: "filterMatches reMatch (storedLabels name vs)
      \<lparr>Label = labelName name (Suc (length gss)), Value = [], IsNegative = False, IsRegexp = False\<rparr> \<longleftrightarrow> nodeAt vs (length gss) = []"
    by (simp add: filterMatches_def labelValue_storedLabels)
  show ?thesis using m t by (cases terminal) (simp_all add: pathFilters_def del: upt_Suc)
qed

lemma target_pathFilters:
  assumes wf: "list_all wfNode gss"
    and dots: "CHR ''.'' \<notin> set first" "\<forall>gs \<in> set gss. CHR ''.'' \<notin> set (printGs gs)"
    and name: "name = ReplaceByte first CHR ''-'' CHR ''_''"
  shows "ConvertGraphiteTarget (JoinByte CHR ''.'' (first # map printGs gss)) terminal = (name, Some (pathFilters name gss terminal))"
proof -
  have split: "SplitByte (JoinByte CHR ''.'' (first # map printGs gss)) CHR ''.'' = first # map printGs gss"
    using dots by (intro SplitByte_Join) auto
  have "list_all (list_all wfG) gss" using wf by (auto simp: list_all_iff wfNode_def)
  then have "convertNodes name 1 (map printGs gss) [] = Some (pathFilters name gss False)"
    using convertNodes_globs [of gss name 1 "[]"] by (simp add: pathFilters_def)
  then show ?thesis
    by (cases terminal) (simp_all add: ConvertGraphiteTarget_def split graphiteName_def name [symmetric] pathFilters_def del: upt_Suc)
qed

lemma target_filters_select:
  assumes re: "\<And>gs. gs \<in> set gss \<Longrightarrow> list_ex isPattern gs \<Longrightarrow> readsRegex reMatch (map toRegex gs)"
    and wf: "list_all wfNode gss"
    and dots: "CHR ''.'' \<notin> set first" "\<forall>gs \<in> set gss. CHR ''.'' \<notin> set (printGs gs)"
    and name: "name = ReplaceByte first CHR ''-'' CHR ''_''"
  shows "\<exists>fs. ConvertGraphiteTarget (JoinByte CHR ''.'' (first # map printGs gss)) terminal = (name, Some fs) \<and>
    (\<forall>vs. list_all (filterMatches reMatch (storedLabels name vs)) fs \<longleftrightarrow>
       queryAccepts gss 0 vs \<and> (terminal \<longrightarrow> nodeAt vs (length gss) = []))"
  using target_pathFilters [OF wf dots name, of terminal] pathFilters_match [OF re wf, where name = name and terminal = terminal]
  by blast

text \<open>The query \<open>a-b.x?.*.{c,d*}[0-9]\<close> of the witnesses, and a storage that reads its regular expressions.\<close>

definition sampleQuery :: "glob list list" where
  "sampleQuery = [[GLit CHR ''x'', GQuest], [GStar], [GAlt [[GLit CHR ''c''], [GLit CHR ''d'', GStar]], GRange ''0-9'']]"

definition witnessMatch :: "string \<Rightarrow> string \<Rightarrow> bool" where
  "witnessMatch p v \<longleftrightarrow> (\<exists>gs \<in> set sampleQuery. p = printRs (map toRegex gs) \<and> runesOf v \<in> langRs (map toRegex gs))"

lemma sampleQuery_text:
  "JoinByte CHR ''.'' (''a-b'' # map printGs sampleQuery) = ''a-b.x?.*.{c,d*}[0-9]''" "length sampleQuery = 3"
  "''a_b'' = ReplaceByte ''a-b'' CHR ''-'' CHR ''_''"
  by code_simp+

lemma sampleQuery_ok:
  "list_all wfNode sampleQuery" "sampleQuery \<noteq> []" "CHR ''.'' \<notin> set ''a-b''" "\<forall>gs \<in> set sampleQuery. CHR ''.'' \<notin> set (printGs gs)"
  by (simp_all add: sampleQuery_def wfNode_def plainChar_def ValidIdentifierRunes_def printGs_def validClass_def)

lemma sampleQuery_match: "gs \<in> set sampleQuery \<Longrightarrow> list_ex isPattern gs \<Longrightarrow> readsRegex witnessMatch (map toRegex gs)"
  by (auto simp: sampleQuery_def witnessMatch_def printRs_def readsRegex_def)



text \<open>C32: the labels stored for a path read back as its nodes, the first one with its dashes replaced.\<close>

theorem ConvertPrometheusMetric_path:
  assumes "CHR ''.'' \<notin> set first" "\<forall>v \<in> set vs. CHR ''.'' \<notin> set v"
    and "name = ReplaceByte first CHR ''-'' CHR ''_''"
  shows "SplitByte (ConvertPrometheusMetric name ((''__name__'', name) # storedLabels name vs)) CHR ''.'' = name # vs"
proof -
  have "CHR ''.'' \<notin> set name" using assms(1,3) by (auto simp: ReplaceByte_def)
  then have "SplitByte (JoinByte CHR ''.'' (name # vs)) CHR ''.'' = name # vs"
    using assms(2) by (intro SplitByte_Join) auto
  then show ?thesis
    using ConvertPrometheusMetric_stored [of "(''__name__'', name) # storedLabels name vs" name vs] by simp
qed

theorem ConvertPrometheusMetric_path_witness:
  "SplitByte (ConvertPrometheusMetric ''a_b'' ((''__name__'', ''a_b'') # storedLabels ''a_b'' [''x'', ''y'']))
     CHR ''.'' = [''a_b'', ''x'', ''y'']"
  using ConvertPrometheusMetric_path [of "''a-b''" "[''x'', ''y'']" "''a_b''"]
  by (simp add: ReplaceByte_def)

end
