(* ===== verification/MateQL.thy ===== *)
theory MateQL
  imports Simplify Converter
begin

text \<open>
  \<open>src/prometheus/mateql.go\<close>: the metric names of a parsed query that are Graphite paths become a
  metric name and label filters. \<open>covertExpr\<close> writes to the nodes it visits; a tree may hold one
  \<open>*MetricExpr\<close> several times, so the filters that were written are kept in a store under the
  node's identity and read back from there.
\<close>

section \<open>The conversion\<close>

type_synonym metricStore = "nat \<Rightarrow> LabelFilter list option"

definition loadFilters :: "metricStore \<Rightarrow> nat \<Rightarrow> LabelFilter list \<Rightarrow> LabelFilter list" where
  "loadFilters m r lfs = (case m r of None \<Rightarrow> lfs | Some lfs' \<Rightarrow> lfs')"

text \<open>One round of the loop over the filters: the metric name, and the node's filters.\<close>

definition covertFilter :: "bool \<Rightarrow> nat \<Rightarrow> string \<times> LabelFilter list \<Rightarrow> string \<times> LabelFilter list" where
  "covertFilter terminal i st =
     (case st of (name, lfs) \<Rightarrow>
        let filter = lfs ! i in
        if Label filter = ''__name__'' \<and> CHR ''.'' \<in> set (Value filter) then
          (case ConvertGraphiteTarget (Value filter) terminal of
             (name, None) \<Rightarrow> (name, lfs)
           | (name, Some filters) \<Rightarrow>
               if name = [] then (name, lfs)
               else (name, (lfs @ filters)[i := filter\<lparr>Value := name\<rparr>]))
        else (name, lfs[i := filter]))"

definition covertFilters :: "bool \<Rightarrow> string \<Rightarrow> LabelFilter list \<Rightarrow> string \<times> LabelFilter list" where
  "covertFilters terminal name lfs = fold (covertFilter terminal) [0..<length lfs] (name, lfs)"

definition covertModifierArg :: "string \<Rightarrow> string \<Rightarrow> string" where
  "covertModifierArg name arg =
     (if length arg > 1 \<and> arg ! 0 = CHR ''g'' \<and> length name > 0 then
        (case Atoi (drop 1 arg) of
           Inl e \<Rightarrow> arg
         | Inr gi \<Rightarrow> ''__'' @ name @ ''_g'' @ Itoa gi @ ''__'')
      else arg)"

fun covertExpr :: "bool \<Rightarrow> string \<Rightarrow> expr \<Rightarrow> metricStore \<Rightarrow> string \<times> expr \<times> metricStore"
  and covertArgs :: "bool \<Rightarrow> string \<Rightarrow> expr list \<Rightarrow> metricStore \<Rightarrow> string \<times> expr list \<times> metricStore" where
  "covertExpr terminal name (MetricExpr r lfs0 lfes) m =
     (let (name, lfs) = covertFilters terminal name (loadFilters m r lfs0) in
      (name, MetricExpr r lfs0 lfes, m(r := Some lfs)))"
| "covertExpr terminal name (RollupExpr e w off st ih) m =
     (let (name, e, m) = covertExpr terminal name e m in (name, RollupExpr e w off st ih, m))"
| "covertExpr terminal name (FuncExpr f args) m =
     (let (name, args, m) = covertArgs terminal name args m in (name, FuncExpr f args, m))"
| "covertExpr terminal name (AggrFuncExpr f args modifier limit) m =
     (let (name, args, m) = covertArgs terminal name args m in
      (name, AggrFuncExpr f args (modifier\<lparr>Args := map (covertModifierArg name) (Args modifier)\<rparr>) limit, m))"
| "covertExpr terminal name (BinaryOpExpr op b g j l r) m =
     (let (name, l, m) = covertExpr terminal name l m; (name, r, m) = covertExpr terminal name r m in
      (name, BinaryOpExpr op b g j l r, m))"
| "covertExpr terminal name e m = (name, e, m)"
| "covertArgs terminal name [] m = (name, [], m)"
| "covertArgs terminal name (e # es) m =
     (let (name, e, m) = covertExpr terminal name e m; (name, es, m) = covertArgs terminal name es m in
      (name, e # es, m))"

text \<open>The tree as it reads after the writes.\<close>

fun readBack :: "metricStore \<Rightarrow> expr \<Rightarrow> expr" where
  "readBack m (MetricExpr r lfs lfes) = MetricExpr r (loadFilters m r lfs) lfes"
| "readBack m (RollupExpr e w off st ih) = RollupExpr (readBack m e) w off st ih"
| "readBack m (FuncExpr f args) = FuncExpr f (map (readBack m) args)"
| "readBack m (AggrFuncExpr f args modifier limit) = AggrFuncExpr f (map (readBack m) args) modifier limit"
| "readBack m (BinaryOpExpr op b g j l r) = BinaryOpExpr op b g j (readBack m l) (readBack m r)"
| "readBack m (ParensExpr es) = ParensExpr (map (readBack m) es)"
| "readBack m e = e"

definition covert :: "bool \<Rightarrow> expr \<Rightarrow> expr" where
  "covert terminal e = (case covertExpr terminal [] e (\<lambda>_. None) of (name, e, m) \<Rightarrow> readBack m e)"

definition CovertMateQuery :: "golib \<Rightarrow> nat \<Rightarrow> string \<Rightarrow> bool \<Rightarrow> string result" where
  "CovertMateQuery L n query terminal =
     (case Parse L n query of Inl e \<Rightarrow> Inl e | Inr e \<Rightarrow> Inr (exprString L (covert terminal e)))"

section \<open>Without sharing the store is invisible\<close>

text \<open>The identities of the metric nodes of a tree, with their filters.\<close>

fun metricNodesOf :: "expr \<Rightarrow> (nat \<times> LabelFilter list) list" where
  "metricNodesOf (MetricExpr r lfs lfes) = [(r, lfs)]"
| "metricNodesOf (RollupExpr e w off st ih) = metricNodesOf e"
| "metricNodesOf (FuncExpr f args) = concat (map metricNodesOf args)"
| "metricNodesOf (AggrFuncExpr f args modifier limit) = concat (map metricNodesOf args)"
| "metricNodesOf (BinaryOpExpr op b g j l r) = metricNodesOf l @ metricNodesOf r"
| "metricNodesOf (ParensExpr es) = concat (map metricNodesOf es)"
| "metricNodesOf e = []"

abbreviation refs :: "expr \<Rightarrow> nat set" where "refs e \<equiv> fst ` set (metricNodesOf e)"

text \<open>The conversion on a tree whose nodes are not shared: each node is rewritten where it stands.\<close>

fun rewriteExpr :: "bool \<Rightarrow> string \<Rightarrow> expr \<Rightarrow> string \<times> expr"
  and rewriteArgs :: "bool \<Rightarrow> string \<Rightarrow> expr list \<Rightarrow> string \<times> expr list" where
  "rewriteExpr terminal name (MetricExpr r lfs lfes) =
     (let (name, lfs) = covertFilters terminal name lfs in (name, MetricExpr r lfs lfes))"
| "rewriteExpr terminal name (RollupExpr e w off st ih) =
     (let (name, e) = rewriteExpr terminal name e in (name, RollupExpr e w off st ih))"
| "rewriteExpr terminal name (FuncExpr f args) =
     (let (name, args) = rewriteArgs terminal name args in (name, FuncExpr f args))"
| "rewriteExpr terminal name (AggrFuncExpr f args modifier limit) =
     (let (name, args) = rewriteArgs terminal name args in
      (name, AggrFuncExpr f args (modifier\<lparr>Args := map (covertModifierArg name) (Args modifier)\<rparr>) limit))"
| "rewriteExpr terminal name (BinaryOpExpr op b g j l r) =
     (let (name, l) = rewriteExpr terminal name l; (name, r) = rewriteExpr terminal name r in
      (name, BinaryOpExpr op b g j l r))"
| "rewriteExpr terminal name e = (name, e)"
| "rewriteArgs terminal name [] = (name, [])"
| "rewriteArgs terminal name (e # es) =
     (let (name, e) = rewriteExpr terminal name e; (name, es) = rewriteArgs terminal name es in (name, e # es))"

lemma readBack_cong: "(\<And>r. r \<in> refs e \<Longrightarrow> m r = m' r) \<Longrightarrow> readBack m e = readBack m' e"
  by (induction e) (auto simp: loadFilters_def)

lemma readBack_None: "\<forall>r \<in> refs e. m r = None \<Longrightarrow> readBack m e = e"
  by (induction e) (auto simp: loadFilters_def image_UN image_Un intro!: map_idI)

lemma readBack_list:
  "\<forall>x \<in> set es. \<forall>y \<in> set (metricNodesOf x). m (fst y) = None \<Longrightarrow> map (readBack m) es = es"
  using readBack_None by (auto intro!: map_idI)

definition tracks :: "bool \<Rightarrow> string \<Rightarrow> expr \<Rightarrow> metricStore \<Rightarrow> bool" where
  "tracks t name e m \<longleftrightarrow> (case covertExpr t name e m of (name', e', m') \<Rightarrow>
     rewriteExpr t name e = (name', readBack m' e') \<and> (\<forall>r. r \<notin> refs e \<longrightarrow> m' r = m r) \<and> refs e' = refs e)"

abbreviation argRefs :: "expr list \<Rightarrow> nat list" where
  "argRefs es \<equiv> concat (map (\<lambda>e. map fst (metricNodesOf e)) es)"

lemma set_argRefs: "set (argRefs es) = (\<Union>e \<in> set es. refs e)"
  by auto

definition tracksArgs :: "bool \<Rightarrow> string \<Rightarrow> expr list \<Rightarrow> metricStore \<Rightarrow> bool" where
  "tracksArgs t name es m \<longleftrightarrow> (case covertArgs t name es m of (name', es', m') \<Rightarrow>
     rewriteArgs t name es = (name', map (readBack m') es') \<and> (\<forall>r. r \<notin> set (argRefs es) \<longrightarrow> m' r = m r) \<and>
     set (argRefs es') = set (argRefs es))"

lemma tracks_covert:
  "distinct (map fst (metricNodesOf e)) \<Longrightarrow> \<forall>r \<in> refs e. m r = None \<Longrightarrow> tracks t name e m"
  "distinct (argRefs es) \<Longrightarrow> \<forall>r \<in> set (argRefs es). m r = None \<Longrightarrow> tracksArgs t name es m"
proof (induction t name e m and t name es m rule: covertExpr_covertArgs.induct)
  case (1 t name r lfs0 lfes m)
  then show ?case by (simp add: tracks_def loadFilters_def split: prod.splits)
next
  case (2 t name e w off st ih m)
  then show ?case by (auto simp: tracks_def split: prod.splits)
next
  case (3 t name f args m)
  then have "tracksArgs t name args m" by (simp add: map_concat comp_def)
  then show ?case by (auto simp: tracks_def tracksArgs_def image_UN split: prod.splits)
next
  case (4 t name f args modifier limit m)
  then have "tracksArgs t name args m" by (simp add: map_concat comp_def)
  then show ?case by (auto simp: tracks_def tracksArgs_def image_UN split: prod.splits)
next
  case (5 t name op b g j l r m)
  obtain n1 l1 m1 where c1: "covertExpr t name l m = (n1, l1, m1)" using prod_cases3 by blast
  obtain n2 r2 m2 where c2: "covertExpr t n1 r m1 = (n2, r2, m2)" using prod_cases3 by blast
  have dj: "refs l \<inter> refs r = {}" using "5.prems"(1) by auto
  have tl: "tracks t name l m" using "5.IH"(1) "5.prems" by auto
  then have t1: "rewriteExpr t name l = (n1, readBack m1 l1)" "\<forall>x. x \<notin> refs l \<longrightarrow> m1 x = m x" "refs l1 = refs l"
    using c1 by (auto simp: tracks_def)
  have "\<forall>x \<in> refs r. m1 x = None"
  proof
    fix x assume x: "x \<in> refs r"
    with dj have "x \<notin> refs l" by blast
    moreover have "m x = None" using x "5.prems"(2) by auto
    ultimately show "m1 x = None" using t1(2) by simp
  qed
  then have "tracks t n1 r m1" using "5.IH"(2) [OF c1 [symmetric] refl] "5.prems"(1) by auto
  then have t2: "rewriteExpr t n1 r = (n2, readBack m2 r2)" "\<forall>x. x \<notin> refs r \<longrightarrow> m2 x = m1 x" "refs r2 = refs r"
    using c2 by (auto simp: tracks_def)
  have rb: "readBack m1 l1 = readBack m2 l1"
  proof (rule readBack_cong)
    fix x assume "x \<in> refs l1"
    then have "x \<notin> refs r" using t1(3) dj by blast
    then show "m1 x = m2 x" using t2(2) by simp
  qed
  have out: "\<forall>x. x \<notin> refs l \<union> refs r \<longrightarrow> m2 x = m x" using t1(2) t2(2) by simp
  show ?case using c1 c2 t1(1,3) t2(1,3) rb out by (simp add: tracks_def image_Un)
next
  case (8 t name e es m)
  obtain n1 e1 m1 where c1: "covertExpr t name e m = (n1, e1, m1)" using prod_cases3 by blast
  obtain n2 es2 m2 where c2: "covertArgs t n1 es m1 = (n2, es2, m2)" using prod_cases3 by blast
  have dj: "refs e \<inter> set (argRefs es) = {}" using "8.prems"(1) by auto
  have te: "tracks t name e m" using "8.IH"(1) "8.prems" by auto
  then have t1: "rewriteExpr t name e = (n1, readBack m1 e1)" "\<forall>x. x \<notin> refs e \<longrightarrow> m1 x = m x" "refs e1 = refs e"
    using c1 by (auto simp: tracks_def)
  have "\<forall>x \<in> set (argRefs es). m1 x = None"
  proof
    fix x assume x: "x \<in> set (argRefs es)"
    with dj have "x \<notin> refs e" by blast
    with t1(2) x "8.prems"(2) show "m1 x = None" by simp
  qed
  moreover have "distinct (argRefs es)" using "8.prems"(1) by simp
  ultimately have "tracksArgs t n1 es m1" using "8.IH"(2) [OF c1 [symmetric] refl] by blast
  then have t2: "rewriteArgs t n1 es = (n2, map (readBack m2) es2)"
    "\<forall>x. x \<notin> set (argRefs es) \<longrightarrow> m2 x = m1 x" "set (argRefs es2) = set (argRefs es)"
    using c2 unfolding tracksArgs_def by simp_all
  have rb: "readBack m1 e1 = readBack m2 e1"
  proof (rule readBack_cong)
    fix x assume "x \<in> refs e1"
    then have "x \<notin> set (argRefs es)" using t1(3) dj by blast
    then show "m1 x = m2 x" using t2(2) by simp
  qed
  have out: "\<forall>x. x \<notin> set (argRefs (e # es)) \<longrightarrow> m2 x = m x" using t1(2) t2(2) by simp
  have "set (argRefs (e1 # es2)) = set (argRefs (e # es))" using t1(3) t2(3) by simp
  then show ?case unfolding tracksArgs_def using c1 c2 t1(1) t2(1) rb out by simp
qed (simp_all add: tracks_def tracksArgs_def readBack_list)

lemma covert_rewrite:
  assumes "distinct (map fst (metricNodesOf e))"
  shows "covert terminal e = snd (rewriteExpr terminal [] e)"
proof -
  have "tracks terminal [] e (\<lambda>_. None)" using tracks_covert(1) assms by simp
  then show ?thesis by (auto simp: tracks_def covert_def split: prod.splits)
qed

section \<open>Queries without paths\<close>

definition pathFilter :: "LabelFilter \<Rightarrow> bool" where
  "pathFilter lf \<longleftrightarrow> Label lf = ''__name__'' \<and> CHR ''.'' \<in> set (Value lf)"

definition noPaths :: "expr \<Rightarrow> bool" where
  "noPaths e \<longleftrightarrow> (\<forall>(r, lfs) \<in> set (metricNodesOf e). \<not> list_ex pathFilter lfs)"

lemma covertFilters_plain:
  assumes "\<not> list_ex pathFilter lfs"
  shows "covertFilters terminal name lfs = (name, lfs)"
proof -
  have "fold (covertFilter terminal) is (name, lfs) = (name, lfs)" if "set is \<subseteq> {..<length lfs}" for "is"
    using that
  proof (induction "is")
    case (Cons i "is")
    then have "lfs ! i \<in> set lfs" by auto
    with assms have "\<not> pathFilter (lfs ! i)" by (auto simp: list_ex_iff)
    then have "covertFilter terminal i (name, lfs) = (name, lfs)"
      by (auto simp: covertFilter_def pathFilter_def)
    with Cons show ?case by simp
  qed simp
  moreover have "set [0..<length lfs] \<subseteq> {..<length lfs}" by auto
  ultimately show ?thesis unfolding covertFilters_def by blast
qed

lemma rewrite_plain:
  "noPaths e \<Longrightarrow> rewriteExpr terminal [] e = ([], e)"
  "\<forall>e \<in> set es. noPaths e \<Longrightarrow> rewriteArgs terminal [] es = ([], es)"
proof (induction terminal "[]::string" e and terminal "[]::string" es rule: rewriteExpr_rewriteArgs.induct)
  case (4 terminal f args modifier limit)
  have "map (covertModifierArg []) as = as" for as by (simp add: covertModifierArg_def map_idI)
  with 4 show ?case by (auto simp: noPaths_def)
qed (auto simp: noPaths_def covertFilters_plain)

text \<open>C8: on a tree that holds no metric node twice, writing to the nodes in place is the same as rewriting
  each node where it stands.\<close>

theorem covert_unshared:
  assumes "distinct (map fst (metricNodesOf e))"
  shows "covert terminal e = snd (rewriteExpr terminal [] e)"
  using assms by (rule covert_rewrite)

definition sampleTree :: expr where
  "sampleTree = AggrFuncExpr ''sum''
     [BinaryOpExpr ''+'' False noModifier noModifier
        (MetricExpr 0 [\<lparr>Label = ''__name__'', Value = ''a.b'', IsNegative = False, IsRegexp = False\<rparr>] [])
        (MetricExpr 1 [\<lparr>Label = ''__name__'', Value = ''c'', IsNegative = False, IsRegexp = False\<rparr>] [])]
     \<lparr>Op = ''by'', Args = [''g1'', ''x'']\<rparr> 0"

theorem covert_unshared_witness:
  "covert False sampleTree = snd (rewriteExpr False [] sampleTree) \<and>
     snd (rewriteExpr False [] sampleTree) = AggrFuncExpr ''sum''
     [BinaryOpExpr ''+'' False noModifier noModifier
        (MetricExpr 0 [\<lparr>Label = ''__name__'', Value = ''a'', IsNegative = False, IsRegexp = False\<rparr>,
           \<lparr>Label = ''__a_g1__'', Value = ''b'', IsNegative = False, IsRegexp = False\<rparr>] [])
        (MetricExpr 1 [\<lparr>Label = ''__name__'', Value = ''c'', IsNegative = False, IsRegexp = False\<rparr>] [])]
     \<lparr>Op = ''by'', Args = [''__a_g1__'', ''x'']\<rparr> 0"
proof
  show "covert False sampleTree = snd (rewriteExpr False [] sampleTree)"
    by (rule covert_unshared) (simp add: sampleTree_def)
qed code_simp

text \<open>
  On a tree that holds a metric node twice, as templates make them (here \<open>f(q, r) = q + r + q\<close>), the
  two differ: at its second visit the node is already converted, and the name that reaches the
  \<open>by\<close> clause is the one of the node in between.
\<close>

definition sharedTree :: expr where
  "sharedTree =
     (let q = MetricExpr 0 [\<lparr>Label = ''__name__'', Value = ''a.b'', IsNegative = False, IsRegexp = False\<rparr>] [];
          r = MetricExpr 1 [\<lparr>Label = ''__name__'', Value = ''c.d'', IsNegative = False, IsRegexp = False\<rparr>] [] in
      AggrFuncExpr ''sum'' [BinaryOpExpr ''+'' False noModifier noModifier
        (BinaryOpExpr ''+'' False noModifier noModifier q r) q] \<lparr>Op = ''by'', Args = [''g1'']\<rparr> 0)"

fun byLabels :: "expr \<Rightarrow> string list" where
  "byLabels (AggrFuncExpr f args modifier limit) = Args modifier"
| "byLabels e = []"

lemma covert_shared_differs:
  "byLabels (covert False sharedTree) = [''__c_g1__'']" "byLabels (snd (rewriteExpr False [] sharedTree)) = [''__a_g1__'']"
  by code_simp+

text \<open>A PromQL query without Graphite paths is left as it is.\<close>

lemma covert_noPaths:
  assumes "distinct (map fst (metricNodesOf e))" "noPaths e"
  shows "covert terminal e = e"
  using covert_rewrite [OF assms(1)] rewrite_plain(1) [OF assms(2)] by simp

section \<open>A path\<close>

lemma covert_path:
  assumes wf: "list_all wfNode gss" "gss \<noteq> []"
    and dots: "CHR ''.'' \<notin> set first" "\<forall>gs \<in> set gss. CHR ''.'' \<notin> set (printGs gs)" "first \<noteq> []"
    and name: "name = ReplaceByte first CHR ''-'' CHR ''_''"
    and lf: "lf = \<lparr>Label = ''__name__'', Value = JoinByte CHR ''.'' (first # map printGs gss),
                 IsNegative = False, IsRegexp = False\<rparr>"
  shows "covert terminal (MetricExpr r [lf] []) = MetricExpr r (lf\<lparr>Value := name\<rparr> # pathFilters name gss terminal) []"
proof -
  have "name \<noteq> []" using dots(3) name by (simp add: ReplaceByte_def)
  moreover have "CHR ''.'' \<in> set (JoinByte CHR ''.'' (first # map printGs gss))"
    using wf(2) by (cases gss) auto
  ultimately show ?thesis using target_pathFilters [OF wf(1) dots(1,2) name, of terminal]
    by (simp add: covert_def covertFilters_def covertFilter_def loadFilters_def lf)
qed



end
