(* ===== verification/MetricText.thy ===== *)
theory MetricText
  imports DefaultTemplates MateQL
begin

text \<open>
  A metric as text: what \<open>MetricExpr.AppendString\<close> prints is read back by \<open>Parse\<close> as the same filters
  (lexer, parser, expansion and simplification together).
\<close>

section \<open>Tokens of the printed pieces\<close>

text \<open>A quoted string ends at its own closing quote.\<close>

definition plainBytes :: "string \<Rightarrow> bool" where
  "plainBytes p \<longleftrightarrow> bslash \<notin> set p \<and> dquote \<notin> set p"

lemma strEnd_plain: "plainBytes p \<Longrightarrow> strEnd dquote False (p @ t) = map_option (\<lambda>k. length p + k) (strEnd dquote False t)"
  by (induction p; cases "strEnd dquote False t") (auto simp: plainBytes_def)

lemma strEnd_escaped:
  "plainBytes p \<Longrightarrow> strEnd dquote False ((bslash # x # p) @ t) = map_option (\<lambda>k. length (bslash # x # p) + k) (strEnd dquote False t)"
  using strEnd_plain [of p t] by (cases "strEnd dquote False t") simp_all

lemma plain_hexDigits: "plainBytes (hexDigits k r)"
proof (induction k arbitrary: r)
  case (Suc k)
  have "toHex (r mod 16) \<noteq> bslash" "toHex (r mod 16) \<noteq> dquote" by (rule toHex_not; simp)+
  with Suc.IH [of "r div 16"] show ?case by (auto simp: plainBytes_def)
qed (simp add: plainBytes_def)

lemma plain_encodeRune:
  assumes "r \<noteq> byte dquote" "r \<noteq> byte bslash"
  shows "plainBytes (encodeRune r)"
proof (cases "r < 0x80")
  case True
  then have "byte (char_of r) = r" by simp
  with assms have "char_of r \<noteq> dquote" "char_of r \<noteq> bslash" by metis+
  with True show ?thesis by (auto simp: plainBytes_def encodeRune_def)
next
  case False
  have "0x80 \<le> byte c" if "c \<in> set (encodeRune r)" for c by (rule encodeRune_high [OF _ that]) (use False in simp)
  from this [of bslash] this [of dquote] show ?thesis by (auto simp: plainBytes_def)
qed

definition pieceShape :: "string \<Rightarrow> bool" where
  "pieceShape q \<longleftrightarrow> (\<exists>x p. plainBytes p \<and> (q = p \<or> q = bslash # x # p))"

lemma pieceShape_escaped: "plainBytes p \<Longrightarrow> pieceShape (bslash # x # p)"
  by (auto simp: pieceShape_def)

lemma pieceShape_plain: "plainBytes p \<Longrightarrow> pieceShape p"
  by (auto simp: pieceShape_def)

lemma pieceShape_rune: "pieceShape (appendEscapedRune L r)"
proof (cases "r = byte dquote \<or> r = byte bslash")
  case True
  then show ?thesis by (simp add: appendEscapedRune_def pieceShape_escaped plainBytes_def)
next
  case False
  have "pieceShape (encodeRune r)" using False by (intro pieceShape_plain plain_encodeRune) auto
  moreover have "plainBytes []" by (simp add: plainBytes_def)
  ultimately show ?thesis unfolding appendEscapedRune_def if_not_P [OF False]
    by (simp add: pieceShape_escaped plain_hexDigits del: hexDigits.simps)
qed

lemma quotePiece_shape: "pieceShape (quotePiece L s)"
  by (simp add: quotePiece_def pieceShape_rune pieceShape_escaped plain_hexDigits del: hexDigits.simps split: prod.split)

lemma strEnd_quoteBody: "strEnd dquote False (quoteBody L s @ dquote # t) = Some (length (quoteBody L s))"
proof (induction L s rule: quoteBody.induct)
  case (1 L s)
  show ?case
  proof (cases "s = []")
    case True
    then show ?thesis by (simp add: quoteBody.simps)
  next
    case False
    obtain r w where d: "decodeRune s = (r, w)" by fastforce
    note q = quoteBody_Cons [OF False d, of L]
    have IH: "strEnd dquote False (quoteBody L (drop w s) @ dquote # t) = Some (length (quoteBody L (drop w s)))"
      using "1.IH" [OF False d [symmetric] refl] .
    obtain x p where "plainBytes p" "quotePiece L s = p \<or> quotePiece L s = bslash # x # p" using quotePiece_shape [of L s] by (auto simp: pieceShape_def)
    then have "strEnd dquote False (quotePiece L s @ u) = map_option (\<lambda>k. length (quotePiece L s) + k) (strEnd dquote False u)" for u
      using strEnd_plain strEnd_escaped by metis
    with IH show ?thesis unfolding q by simp
  qed
qed

lemma scanString_Quote: "scanString (Quote L s @ t) = Inr (Quote L s)"
proof -
  have q: "Quote L s @ t = dquote # quoteBody L s @ dquote # t" by (simp add: Quote_def)
  have "scanString (dquote # quoteBody L s @ dquote # t) = Inr (take (length (quoteBody L s) + 2) (dquote # quoteBody L s @ dquote # t))"
    using scanString_strEnd [of _ dquote "quoteBody L s @ dquote # t"] strEnd_quoteBody by auto
  then show ?thesis unfolding q by (simp add: Quote_def)
qed

text \<open>An escaped name ends before a brace too, when it has no dot.\<close>

lemma scanIdent_escChar_noDot:
  assumes "drop i w = escChar first c @ x" "c \<noteq> CHR ''.''"
  shows "scanIdent_loop w i g u = scanIdent_loop w (i + length (escChar first c)) g u"
proof -
  consider "escChar first c = [c]" "isIdentChar c" | "escChar first c = [bslash, c]" | "escChar first c = hexEsc c"
    by (metis escChar_def)
  then show ?thesis
  proof cases
    case 1
    with assms scanIdent_step_ident [of i w c x] show ?thesis by auto
  next
    case 2
    with assms scanIdent_step_bslash [of i w c x] show ?thesis by (auto simp: numeral_2_eq_2)
  next
    case 3
    have "length (hexEsc c) = 4" by (simp add: hexEsc_def)
    with scanIdent_hexEsc [of i w c x g u] assms(1) 3 show ?thesis by auto
  qed
qed

lemma scanIdent_loop_brace:
  "drop i w = esc first s @ CHR ''{'' # r \<Longrightarrow> CHR ''.'' \<notin> set s \<Longrightarrow>
     scanIdent_loop w i False u = (i + length (esc first s), False, u)"
proof (induction first s arbitrary: i rule: esc.induct)
  case (1 first)
  then have "i < length w" "w ! i = CHR ''{''" using drop_nth [of i w "CHR ''{''" r] by auto
  then show ?case using not_special
    by (simp add: scanIdent_loop.simps [of w i False u] isExtendGraphiteIdentChar_def)
next
  case (2 first c s)
  have "drop (i + length (escChar first c)) w = esc False s @ CHR ''{'' # r"
    using arg_cong [OF "2.prems"(1), of "drop (length (escChar first c))"] by (simp add: add.commute)
  then have "scanIdent_loop w (i + length (escChar first c)) False u = (i + length (escChar first c) + length (esc False s), False, u)"
    using "2.prems"(2) by (intro "2.IH") auto
  moreover have "scanIdent_loop w i False u = scanIdent_loop w (i + length (escChar first c)) False u"
    using "2.prems" by (intro scanIdent_escChar_noDot [where x = "esc False s @ CHR ''{'' # r"]) auto
  ultimately show ?case by (simp add: add.assoc)
qed

lemma scanIdent_brace:
  assumes "s \<noteq> []" "CHR ''.'' \<notin> set s"
  shows "scanIdent (esc True s @ CHR ''{'' # r) = Inr (esc True s)"
proof -
  have "esc True s \<noteq> []" using assms(1) escChar_not_Nil by (cases s) auto
  with scanIdent_loop_brace [of 0 "esc True s @ CHR ''{'' # r" True s r "-1"] assms(2) show ?thesis
    by (simp add: scanIdent_def)
qed

lemma identPrefix_esc: "s \<noteq> [] \<Longrightarrow> isIdentPrefix (esc True s @ r)"
proof (cases s)
  case (Cons c t)
  have "isFirstIdentChar c \<Longrightarrow> isIdentChar c" by (simp add: isIdentChar_def)
  then show ?thesis by (auto simp: Cons escChar_def hexEsc_def)
qed simp

lemma skip_none: "s = [] \<or> \<not> isSpaceChar (hd s) \<Longrightarrow> skipWhile isSpaceChar s 0 = 0"
  by (subst skipWhile.simps) (cases s; simp)

lemma next_token_Cons:
  assumes "\<not> isSpaceChar c" "c \<noteq> CHR ''#''"
  shows "next_token (c # r) =
    (if c \<in> set ''{}[](),'' then (Inr [c], r)
     else if isIdentPrefix (c # r) then tokenFound (c # r) (scanIdent (c # r))
     else if isStringPrefix (c # r) then tokenFound (c # r) (scanString (c # r))
     else if scanBinaryOpPrefix (c # r) > 0 then tokenFound (c # r) (Inr (take (scanBinaryOpPrefix (c # r)) (c # r)))
     else if scanTagFilterOpPrefix (c # r) > 0 then tokenFound (c # r) (Inr (take (nat (scanTagFilterOpPrefix (c # r))) (c # r)))
     else if scanDuration (c # r) False > 0 then tokenFound (c # r) (Inr (take (nat (scanDuration (c # r) False)) (c # r)))
     else if isPositiveNumberPrefix (c # r) then tokenFound (c # r) (scanPositiveNumber (c # r))
     else (Inl (Errorf ''cannot recognize %q'' [c # r]), c # r))"
proof -
  have "skipWhile isSpaceChar (c # r) 0 = 0" using assms by (intro skip_none) simp
  then show ?thesis using assms
    by (subst next_token.simps) (simp add: Let_def tokenFound_def del: isIdentPrefix.simps isStringPrefix.simps isPositiveNumberPrefix.simps)
qed

lemma next_ident:
  assumes "isIdentPrefix s" "scanIdent s = Inr t"
  shows "next_token s = (Inr t, drop (length t) s)"
proof (cases s)
  case (Cons c r)
  have "isFirstIdentChar c \<or> c = bslash" using assms(1) Cons by (auto split: if_splits)
  then have c: "\<not> isSpaceChar c" "c \<noteq> CHR ''#''" "c \<notin> set ''{}[](),''"
    by (auto simp: isFirstIdentChar_def between_def isSpaceChar_def)
  show ?thesis using assms c(3) unfolding Cons next_token_Cons [OF c(1,2)] tokenFound_def
    by (simp del: isIdentPrefix.simps isStringPrefix.simps isPositiveNumberPrefix.simps)
qed (use assms in simp)

lemma next_name: "s \<noteq> [] \<Longrightarrow> scanIdent (esc True s @ r) = Inr (esc True s) \<Longrightarrow> next_token (esc True s @ r) = (Inr (esc True s), r)"
  using next_ident [OF identPrefix_esc] by simp

lemma next_space: "next_token (CHR '' '' # s) = next_token s"
proof -
  have "skipWhile isSpaceChar (CHR '' '' # s) 0 = Suc (skipWhile isSpaceChar s 0)"
    by (simp add: skipWhile_takeWhile) (simp add: isSpaceChar_def)
  then have d: "drop (skipWhile isSpaceChar (CHR '' '' # s) 0) (CHR '' '' # s) = drop (skipWhile isSpaceChar s 0) s" by simp
  show ?thesis by (subst (1 2) next_token.simps) (simp only: d)
qed

lemma next_punct:
  assumes "c \<in> set ''{}[](),''"
  shows "next_token (c # s) = (Inr [c], s)"
proof -
  have "\<not> isSpaceChar c" "c \<noteq> CHR ''#''" using assms by (auto simp: isSpaceChar_def)
  from next_token_Cons [OF this] assms show ?thesis by simp
qed

lemma next_quoted: "next_token (Quote L s @ r) = (Inr (Quote L s), r)"
proof -
  have h: "Quote L s @ r = dquote # quoteBody L s @ dquote # r" by (simp add: Quote_def)
  have "next_token (Quote L s @ r) = tokenFound (Quote L s @ r) (scanString (Quote L s @ r))"
    unfolding h by (subst next_token_Cons) (simp_all add: isSpaceChar_def isFirstIdentChar_def between_def)
  then show ?thesis by (simp add: scanString_Quote tokenFound_def)
qed

lemma startsWithOp_head:
  assumes "startsWithOp (c # s) op" "byte c < 0x80"
  shows "op \<noteq> [] \<longrightarrow> hd op = toLowerByte c"
proof (cases op)
  case (Cons d u)
  have "c \<noteq> CHR 0xC4" "c \<noteq> CHR 0xE2" using assms(2) by auto
  with assms(1) Cons show ?thesis by (auto simp: startsWithOp_def)
qed simp

lemma scanBinaryOpPrefix_longest: "scanBinaryOpPrefix s = Max (insert 0 (length ` {op \<in> set binaryOps. startsWithOp s op}))"
  using scanBinaryOpPrefix_over_eq [OF refl] by (simp add: scanBinaryOpPrefix_def longestOp_def)

lemma equals_not_op:
  assumes "d = dquote \<or> d = CHR ''~''"
  shows "scanBinaryOpPrefix (CHR ''='' # d # x) = 0"
proof -
  have d: "d \<noteq> CHR 0xC4" "d \<noteq> CHR 0xE2" "toLowerByte d \<noteq> CHR ''=''" using assms
    by (auto simp: toLowerByte_def between_def)
  have "\<not> startsWithOp (CHR ''='' # d # x) op" if "op \<in> set binaryOps" for op
  proof
    assume s: "startsWithOp (CHR ''='' # d # x) op"
    from startsWithOp_head [OF this] that have "op = ''==''" by (auto simp: binaryOps_def toLowerByte_def between_def)
    with s d show False by (simp add: startsWithOp_def)
  qed
  then have e: "{op \<in> set binaryOps. startsWithOp (CHR ''='' # d # x) op} = {}" by blast
  show ?thesis unfolding scanBinaryOpPrefix_longest e by simp
qed

lemma bang_op: "scanBinaryOpPrefix (CHR ''!'' # CHR ''~'' # x) = 0" "scanBinaryOpPrefix (CHR ''!'' # CHR ''='' # x) = 2"
proof -
  have b: "op \<in> set binaryOps \<Longrightarrow> startsWithOp (CHR ''!'' # y) op \<Longrightarrow> op = ''!=''" for op y
    using startsWithOp_head [of "CHR ''!''" y op] by (auto simp: binaryOps_def toLowerByte_def between_def)
  have t: "toLowerByte CHR ''!'' = CHR ''!''" "toLowerByte CHR ''~'' = CHR ''~''" "toLowerByte CHR ''='' = CHR ''=''"
    by (simp_all add: toLowerByte_def between_def)
  have "\<not> startsWithOp (CHR ''!'' # CHR ''~'' # x) ''!=''" by (simp add: startsWithOp_def t)
  with b have e: "{op \<in> set binaryOps. startsWithOp (CHR ''!'' # CHR ''~'' # x) op} = {}" by blast
  show "scanBinaryOpPrefix (CHR ''!'' # CHR ''~'' # x) = 0" unfolding scanBinaryOpPrefix_longest e by simp
  have "startsWithOp (CHR ''!'' # CHR ''='' # x) ''!=''" by (simp add: startsWithOp_def t)
  moreover have "''!='' \<in> set binaryOps" by (simp add: binaryOps_def)
  ultimately have e: "{op \<in> set binaryOps. startsWithOp (CHR ''!'' # CHR ''='' # x) op} = {''!=''}" using b by blast
  show "scanBinaryOpPrefix (CHR ''!'' # CHR ''='' # x) = 2" unfolding scanBinaryOpPrefix_longest e by simp
qed

lemma next_filterOp: "next_token (filterOp lf @ dquote # r) = (Inr (filterOp lf), dquote # r)"
proof -
  have n: "\<not> isSpaceChar CHR ''=''" "\<not> isSpaceChar CHR ''!''" "\<not> isFirstIdentChar CHR ''=''" "\<not> isFirstIdentChar CHR ''!''"
    by (simp_all add: isSpaceChar_def isFirstIdentChar_def between_def)
  have e: "scanBinaryOpPrefix (CHR ''='' # dquote # r) = 0" "scanBinaryOpPrefix (CHR ''='' # CHR ''~'' # dquote # r) = 0"
    by (rule equals_not_op; simp)+
  have b: "scanBinaryOpPrefix (CHR ''!'' # CHR ''~'' # dquote # r) = 0" "scanBinaryOpPrefix (CHR ''!'' # CHR ''='' # dquote # r) = 2"
    by (rule bang_op)+
  show ?thesis
    by (cases "IsNegative lf"; cases "IsRegexp lf")
      (simp_all add: filterOp_def next_token_Cons n e b tokenFound_def scanTagFilterOpPrefix_def numeral_2_eq_2)
qed

section \<open>The tokens of a printed metric\<close>

definition filterTokens :: "golib \<Rightarrow> LabelFilter \<Rightarrow> string list" where
  "filterTokens L lf = [esc True (Label lf), filterOp lf, Quote L (Value lf)]"

fun listTokens :: "golib \<Rightarrow> LabelFilter list \<Rightarrow> string list" where
  "listTokens L [] = []"
| "listTokens L [lf] = filterTokens L lf"
| "listTokens L (lf # lfs) = filterTokens L lf @ '','' # listTokens L lfs"

lemma lexAll_step: "next_token s = (Inr t, r) \<Longrightarrow> t \<noteq> [] \<Longrightarrow> lexAll r = (ts, None) \<Longrightarrow> lexAll s = (t # ts, None)"
  by (subst lexAll.simps) simp

lemma esc_not_Nil: "s \<noteq> [] \<Longrightarrow> esc f s \<noteq> []"
  using escChar_not_Nil by (cases s) auto

definition readableLabel :: "string \<Rightarrow> bool" where
  "readableLabel s \<longleftrightarrow> s \<noteq> [] \<and> noDotDot s"

lemma lexAll_filter:
  assumes "readableLabel (Label lf)" "lexAll r = (ts, None)"
  shows "lexAll (filterString L lf @ r) = (filterTokens L lf @ ts, None)"
proof -
  have q: "lexAll (Quote L (Value lf) @ r) = (Quote L (Value lf) # ts, None)"
    by (rule lexAll_step [OF next_quoted _ assms(2)]) (simp add: Quote_def)
  then have o1: "lexAll (filterOp lf @ Quote L (Value lf) @ r) = (filterOp lf # Quote L (Value lf) # ts, None)"
    using lexAll_step [OF next_filterOp [of lf "quoteBody L (Value lf) @ dquote # r"]] by (simp add: Quote_def filterOp_def)
  have "identStop (filterOp lf @ Quote L (Value lf) @ r)"
    by (auto simp: identStop_def filterOp_def isIdentChar_def isFirstIdentChar_def isDecimalChar_def isExtendGraphiteIdentChar_def between_def)
  with assms(1) have "scanIdent (esc True (Label lf) @ filterOp lf @ Quote L (Value lf) @ r) = Inr (esc True (Label lf))"
    by (intro scanIdent_esc) (simp_all add: readableLabel_def)
  from lexAll_step [OF next_name [OF _ this] _ o1] assms(1) show ?thesis
    by (simp add: filterString_def filterTokens_def appendEscapedIdent_eq readableLabel_def esc_not_Nil)
qed

lemma lexAll_space: "lexAll (CHR '' '' # s) = lexAll s"
  by (subst (1 2) lexAll.simps) (simp add: next_space)

lemma lexAll_filters:
  assumes "list_all (\<lambda>lf. readableLabel (Label lf)) lfs" "lexAll r = (ts, None)"
  shows "lexAll (joinWith '', '' (map (filterString L) lfs) @ r) = (listTokens L lfs @ ts, None)"
  using assms(1)
proof (induction lfs rule: induct_list012)
  case 1
  then show ?case using assms(2) by simp
next
  case (2 lf)
  then show ?case using lexAll_filter [OF _ assms(2)] by simp
next
  case (3 lf1 lf2 lfs)
  let ?u = "joinWith '', '' (map (filterString L) (lf2 # lfs)) @ r"
  have "lexAll ?u = (listTokens L (lf2 # lfs) @ ts, None)" using 3 by simp
  then have "lexAll (CHR '','' # CHR '' '' # ?u) = ('','' # listTokens L (lf2 # lfs) @ ts, None)"
    by (intro lexAll_step [OF next_punct]) (simp_all add: lexAll_space)
  from lexAll_filter [OF _ this, of lf1 L] 3 show ?case by simp
qed

definition metricTokens :: "golib \<Rightarrow> LabelFilter list \<Rightarrow> string list" where
  "metricTokens L lfs =
     (let named = hasNonEmptyMetricGroup lfs; rest = (if named then drop 1 lfs else lfs) in
      (if named then [esc True (Value (lfs ! 0))] else []) @
      (if named \<and> rest = [] then [] else ''{'' # listTokens L rest @ [''}'']))"

definition readableName :: "string \<Rightarrow> bool" where
  "readableName s \<longleftrightarrow> s \<noteq> [] \<and> CHR ''.'' \<notin> set s"

lemma lexAll_metric:
  assumes "list_all (\<lambda>lf. readableLabel (Label lf)) lfs" "hasNonEmptyMetricGroup lfs \<Longrightarrow> readableName (Value (lfs ! 0))"
  shows "lexAll (metricString L lfs) = (metricTokens L lfs, None)"
proof -
  let ?n = "esc True (Value (lfs ! 0))"
  have braces: "lexAll (CHR ''{'' # joinWith '', '' (map (filterString L) ks) @ ''}'') = (''{'' # listTokens L ks @ [''}''], None)"
    if "list_all (\<lambda>lf. readableLabel (Label lf)) ks" for ks
  proof -
    have "lexAll ''}'' = ([''}''], None)" by code_simp
    from lexAll_filters [OF that this] show ?thesis by (intro lexAll_step [OF next_punct]) simp_all
  qed
  show ?thesis
  proof (cases "hasNonEmptyMetricGroup lfs")
    case False
    then have "metricString L lfs = CHR ''{'' # joinWith '', '' (map (filterString L) lfs) @ ''}''"
      by (auto simp: metricString_def hasNonEmptyMetricGroup_def Let_def)
    with False braces [OF assms(1)] show ?thesis by (simp add: metricTokens_def)
  next
    case True
    then obtain lf ks where l: "lfs = lf # ks" "isNameFilter lf" by (cases lfs) (auto simp: hasNonEmptyMetricGroup_def)
    from assms(2) [OF True] have n: "Value lf \<noteq> []" "CHR ''.'' \<notin> set (Value lf)" by (simp_all add: l readableName_def)
    show ?thesis
    proof (cases ks)
      case Nil
      have "noDotDot s" if "CHR ''.'' \<notin> set s" for s using that by (induction s rule: noDotDot.induct) auto
      with n have "scanIdent (esc True (Value lf) @ []) = Inr (esc True (Value lf))" by (intro scanIdent_esc) (auto simp: identStop_def)
      from next_name [OF n(1) this] have "lexAll (esc True (Value lf)) = ([esc True (Value lf)], None)"
        by (intro lexAll_step [OF _ _ lexAll_Nil]) (simp_all add: esc_not_Nil n)
      with True Nil l show ?thesis by (simp add: metricString_def metricTokens_def appendEscapedIdent_eq)
    next
      case (Cons k js)
      have "lexAll (esc True (Value lf) @ CHR ''{'' # joinWith '', '' (map (filterString L) ks) @ ''}'') =
          (esc True (Value lf) # ''{'' # listTokens L ks @ [''}''], None)"
        using assms(1) l braces [of ks] n
        by (intro lexAll_step [OF next_name [OF _ scanIdent_brace]]) (auto simp: esc_not_Nil)
      with True Cons l show ?thesis by (simp add: metricString_def metricTokens_def appendEscapedIdent_eq Let_def)
    qed
  qed
qed

section \<open>Parsing the tokens\<close>

text \<open>The tokens \<open>zs\<close> go on with the token \<open>u\<close>; at the end of the input the token is empty.\<close>

definition restIs :: "string \<Rightarrow> string list \<Rightarrow> string list \<Rightarrow> bool" where
  "restIs u us zs \<longleftrightarrow> zs = u # us \<or> zs = [] \<and> u = [] \<and> us = []"

lemma restIs_Cons [simp]: "restIs u us (u # us)"
  by (simp add: restIs_def)

lemma Next_rest: "restIs u us zs \<Longrightarrow> Next (lexerAt ps t zs) = (Inr (), lexerAt (t # ps) u us)"
  by (auto simp: restIs_def lexerAt_ops)

lemma nextTok_rest: "restIs u us zs \<Longrightarrow> nextTok (lexerAt ps t zs) = (Inr u, lexerAt (t # ps) u us)"
  by (simp add: nextTok_def andThen_at Next_rest lexerAt_ops)

lemma nextTok_Cons: "nextTok (lexerAt ps t (u # us)) = (Inr u, lexerAt (t # ps) u us)"
  by (rule nextTok_rest) simp

lemma some_lexer [simp]: "\<exists>qs. lexerAt ps u us = lexerAt qs u us"
  by blast

definition parsedFilter :: "golib \<Rightarrow> LabelFilter \<Rightarrow> labelFilterExpr" where
  "parsedFilter L lf = \<lparr>lfeLabel = esc True (Label lf), lfeValue = Some ([], [Quote L (Value lf)]),
     lfeIsRegexp = IsRegexp lf, lfeIsNegative = IsNegative lf\<rparr>"

definition parsedMetric :: "golib \<Rightarrow> LabelFilter list \<Rightarrow> labelFilterExpr list" where
  "parsedMetric L lfs =
     (if hasNonEmptyMetricGroup lfs then
        \<lparr>lfeLabel = ''__name__'', lfeValue = Some ([], [Quote L (esc True (Value (lfs ! 0)))]), lfeIsRegexp = False, lfeIsNegative = False\<rparr>
          # map (parsedFilter L) (drop 1 lfs)
      else map (parsedFilter L) lfs)"

lemma token_facts:
  "s \<noteq> [] \<Longrightarrow> isIdentPrefix (esc True s)" "isStringPrefix (Quote L s)" "\<not> isIdentPrefix (Quote L s)"
  using identPrefix_esc [of s "[]"] by (simp_all add: Quote_def isFirstIdentChar_def between_def)

lemma parseLabelFilter_at:
  assumes "Label lf \<noteq> []" "u = '','' \<or> u = ''}''"
  shows "parseLabelFilterExpr (Suc n) (lexerAt ps (esc True (Label lf)) (filterOp lf # Quote L (Value lf) # u # ts)) =
    (Inr (parsedFilter L lf), lexerAt (Quote L (Value lf) # filterOp lf # esc True (Label lf) # ps) u ts)"
proof -
  have o: "filterOp lf \<notin> {'','', ''}''}" "filterOp lf \<in> {''='', ''!='', ''=~'', ''!~''}"
    "(filterOp lf = ''=~'' \<or> filterOp lf = ''!~'') = IsRegexp lf" "(filterOp lf = ''!='' \<or> filterOp lf = ''!~'') = IsNegative lf"
    by (simp_all add: filterOp_def)
  have "u \<noteq> ''+''" using assms(2) by auto
  then show ?thesis using assms(1) o token_facts(1) [where s = "Label lf"] token_facts(2,3)
    by (simp add: parseLabelFilterExpr_def parseStringExpr_def nextTok_def andThen_at lexerAt_ops ret_def parsedFilter_def Let_def
        del: insert_iff)
qed

lemma esc_no_brace: "s \<noteq> [] \<Longrightarrow> esc True s \<noteq> ''}'' \<and> esc True s \<noteq> ''{''"
  using identPrefix_esc [of s "[]"] by (auto simp: isFirstIdentChar_def between_def)

lemma parseLabelFilters_at:
  "list_all (\<lambda>lf. Label lf \<noteq> []) lfs \<Longrightarrow> restIs v vs zs \<Longrightarrow>
   \<exists>qs. parseLabelFilters_loop (Suc (length lfs + n)) acc (lexerAt ps u (listTokens L lfs @ ''}'' # zs)) =
     (Inr (acc @ map (parsedFilter L) lfs), lexerAt qs v vs)"
proof (induction lfs arbitrary: acc ps u rule: induct_list012)
  case 1
  then show ?case by (simp add: nextTok_Cons andThen_at Next_rest ret_def)
next
  case (2 lf)
  with esc_no_brace [of "Label lf"] show ?case
    by (simp add: parseLabelFilter_at filterTokens_def Let_def nextTok_Cons andThen_at lexerAt_ops Next_rest ret_def)
next
  case (3 lf1 lf2 lfs)
  let ?ts = "listTokens L (lf2 # lfs) @ ''}'' # zs"
  let ?qs = "Quote L (Value lf1) # filterOp lf1 # esc True (Label lf1) # u # ps"
  have "list_all (\<lambda>lf. Label lf \<noteq> []) (lf2 # lfs)" using 3 by simp
  from "3.IH"(2) [OF this "3.prems"(2), of "acc @ [parsedFilter L lf1]" ?qs "'',''"] obtain qs' where
    ih: "parseLabelFilters_loop (Suc (length (lf2 # lfs) + n)) (acc @ [parsedFilter L lf1]) (lexerAt ?qs '','' ?ts) =
      (Inr ((acc @ [parsedFilter L lf1]) @ map (parsedFilter L) (lf2 # lfs)), lexerAt qs' v vs)" by blast
  have step: "parseLabelFilters_loop (Suc (length (lf1 # lf2 # lfs) + n)) acc (lexerAt ps u (listTokens L (lf1 # lf2 # lfs) @ ''}'' # zs)) =
      parseLabelFilters_loop (Suc (length (lf2 # lfs) + n)) (acc @ [parsedFilter L lf1]) (lexerAt ?qs '','' ?ts)"
    using 3 esc_no_brace [of "Label lf1"]
    by (subst parseLabelFilters_loop.simps)
      (simp add: parseLabelFilter_at filterTokens_def Let_def nextTok_Cons andThen_at lexerAt_ops ret_def del: parseLabelFilters_loop.simps)
  have "parseLabelFilters_loop (Suc (length (lf1 # lf2 # lfs) + n)) acc (lexerAt ps u (listTokens L (lf1 # lf2 # lfs) @ ''}'' # zs)) =
      (Inr (acc @ map (parsedFilter L) (lf1 # lf2 # lfs)), lexerAt qs' v vs)"
    unfolding step ih by simp
  then show ?case by blast
qed

lemma name_facts:
  assumes "s \<noteq> []"
  shows "\<not> isPositiveNumberPrefix (esc True s)" "\<not> isStringPrefix (esc True s)"
proof -
  from identPrefix_esc [OF assms, of "[]"] obtain c r where "esc True s = c # r" "c = bslash \<or> isFirstIdentChar c"
    by (cases "esc True s") (auto split: if_splits)
  then show "\<not> isPositiveNumberPrefix (esc True s)" "\<not> isStringPrefix (esc True s)"
    by (auto simp: isDecimalChar_def isFirstIdentChar_def between_def)
qed

lemma single_brace:
  "\<not> isPositiveNumberPrefix ''{''" "\<not> isInfOrNaN ''{''" "\<not> isStringPrefix ''{''" "\<not> isIdentPrefix ''{''" "\<not> isWith ''{''"
  "\<not> isOffset ''{''" "\<not> isBinaryOp ''{''" "\<not> isEOF ''{''"
  by code_simp+

text \<open>The whole metric, as the only expression of the input.\<close>

lemma parseExpr_metric:
  assumes "list_all (\<lambda>lf. Label lf \<noteq> []) lfs"
    and "hasNonEmptyMetricGroup lfs \<Longrightarrow> Value (lfs ! 0) \<noteq> [] \<and> \<not> isInfOrNaN (esc True (Value (lfs ! 0))) \<and> \<not> isWith (esc True (Value (lfs ! 0)))"
  shows "\<exists>qs. andThen Next (\<lambda>_. parseExpr L (Suc (Suc (length lfs + n)))) (lexerAt [] [] (metricTokens L lfs)) =
    (Inr (MetricExpr 0 [] (parsedMetric L lfs)), lexerAt qs [] [])"
proof (cases "hasNonEmptyMetricGroup lfs")
  case False
  obtain qs where "parseLabelFilters_loop (Suc (length lfs + n)) [] (lexerAt [[]] ''{'' (listTokens L lfs @ [''}''])) =
      (Inr (map (parsedFilter L) lfs), lexerAt qs [] [])"
    using parseLabelFilters_at [OF assms(1), of "[]" "[]" "[]" n "[]" "[[]]" "''{''"] by (auto simp: restIs_def)
  with False show ?thesis
    by (simp add: metricTokens_def parsedMetric_def andThen_at lexerAt_ops ret_def parseExpr_def parseExpr_with_def parseSingleExpr_body_def
        parseSingleExprWithoutRollupSuffix_def parseMetricExpr_def parseLabelFilters_def single_brace end_token
        del: parseLabelFilters_loop.simps isIdentPrefix.simps isStringPrefix.simps isPositiveNumberPrefix.simps)
next
  case True
  let ?v = "esc True (Value (lfs ! 0))"
  obtain lf ks where l: "lfs = lf # ks" using True by (cases lfs) (auto simp: hasNonEmptyMetricGroup_def)
  from assms(2) [OF True] have v: "isIdentPrefix ?v" "\<not> isPositiveNumberPrefix ?v" "\<not> isStringPrefix ?v" "\<not> isInfOrNaN ?v" "\<not> isWith ?v"
    by (simp_all add: token_facts name_facts)
  note eqs = metricTokens_def parsedMetric_def andThen_at lexerAt_ops ret_def parseExpr_def parseExpr_with_def parseSingleExpr_body_def
    parseSingleExprWithoutRollupSuffix_def parseMetricExpr_def parseIdentExpr_def parseLabelFilters_def nextTok_def Let_def single_brace end_token
  show ?thesis
  proof (cases ks)
    case Nil
    with True v show ?thesis unfolding l
      by (simp add: eqs del: isIdentPrefix.simps isStringPrefix.simps isPositiveNumberPrefix.simps)
  next
    case (Cons k js)
    have "list_all (\<lambda>lf. Label lf \<noteq> []) ks" using assms(1) l by simp
    from parseLabelFilters_at [OF this, of "[]" "[]" "[]" "Suc n" "[]" "[?v, []]" "''{''"] obtain qs where
      "parseLabelFilters_loop (Suc (length ks + Suc n)) [] (lexerAt [?v, []] ''{'' (listTokens L ks @ [''}''])) =
        (Inr (map (parsedFilter L) ks), lexerAt qs [] [])" by (auto simp: restIs_def)
    with True v Cons show ?thesis unfolding l
      by (simp add: eqs del: parseLabelFilters_loop.simps isIdentPrefix.simps isStringPrefix.simps isPositiveNumberPrefix.simps)
  qed
qed

lemma length_metricTokens: "length lfs \<le> length (metricTokens L lfs)"
proof -
  have l: "length ks \<le> length (listTokens L ks)" for ks
    by (induction L ks rule: listTokens.induct) (simp_all add: filterTokens_def)
  from l [of "drop 1 lfs"] l [of lfs] show ?thesis by (cases lfs) (auto simp: metricTokens_def Let_def)
qed

text \<open>A metric that the parser can read back: no reserved name, readable labels, regular expressions that compile.\<close>

definition readableFilter :: "golib \<Rightarrow> LabelFilter \<Rightarrow> bool" where
  "readableFilter L lf \<longleftrightarrow> readableLabel (Label lf) \<and> (IsRegexp lf \<longrightarrow> CompileRegexpAnchored L (Value lf) = None)"

definition readableMetric :: "golib \<Rightarrow> LabelFilter list \<Rightarrow> bool" where
  "readableMetric L lfs \<longleftrightarrow> list_all (readableFilter L) lfs \<and> distinct lfs \<and>
     (let named = hasNonEmptyMetricGroup lfs; name = Value (lfs ! 0) in
      list_all (\<lambda>lf. Label lf = ''__name__'' \<longrightarrow> bslash \<notin> set (Value lf)) (if named then drop 1 lfs else lfs) \<and>
      (named \<longrightarrow> readableName name \<and> \<not> isInfOrNaN (esc True name) \<and> \<not> isWith (esc True name) \<and> esc True name \<notin> set templateNames))"

lemma parseString_metric:
  assumes "readableMetric L lfs"
  shows "parseString L (metricString L lfs) = Inr (MetricExpr 0 [] (parsedMetric L lfs))"
proof -
  have labels: "list_all (\<lambda>lf. readableLabel (Label lf)) lfs" "list_all (\<lambda>lf. Label lf \<noteq> []) lfs"
    using assms by (auto simp: readableMetric_def readableFilter_def readableLabel_def list_all_iff)
  have name: "hasNonEmptyMetricGroup lfs \<Longrightarrow> readableName (Value (lfs ! 0)) \<and> \<not> isInfOrNaN (esc True (Value (lfs ! 0)))
      \<and> \<not> isWith (esc True (Value (lfs ! 0)))"
    using assms by (simp add: readableMetric_def Let_def)
  have l: "lexAll (metricString L lfs) = (metricTokens L lfs, None)" using labels(1) name by (intro lexAll_metric) auto
  obtain qs where "andThen Next (\<lambda>_. parseExpr L (Suc (Suc (length lfs + 0)))) (lexerAt [] [] (metricTokens L lfs)) =
      (Inr (MetricExpr 0 [] (parsedMetric L lfs)), lexerAt qs [] [])"
    using parseExpr_metric [OF labels(2), of L 0] name by (auto simp: readableName_def)
  moreover have "length lfs \<le> length (metricString L lfs)"
    using lexAll_length [of "metricString L lfs"] length_metricTokens [of lfs L] by (simp add: l)
  ultimately show ?thesis
    by (intro parseString_on_tokens [OF l]) (auto simp: parseFuel_def lexerAt_def tokenLexer_def isEOF_def)
qed

section \<open>Expanding the filters\<close>

lemma extract_Quote: "extractStringValue (Quote L s) = Inr s"
  using Unquote_Quote [of L s] by (simp add: extractStringValue_def token_facts) (simp add: Quote_def)

lemma expand_quoted: "expandWithExpr L (Suc n) was (StringExpr [] [Quote L s]) r = (Inr (StringExpr s []), r)"
  by (simp add: token_facts extract_Quote andThen_def liftResult_def ret_def)

lemma toLabelFilter_parsed:
  assumes "readableFilter L lf" "Label lf = ''__name__'' \<Longrightarrow> bslash \<notin> set (Value lf)"
  shows "toLabelFilter L ((parsedFilter L lf)\<lparr>lfeValue := Some (Value lf, [])\<rparr>) = Inr lf"
  using assms
  by (auto simp: toLabelFilter_def parsedFilter_def unescapeIdent_eq_unesc unesc_esc unesc_plain readableFilter_def Let_def)

lemma expandFilters_parsed:
  assumes "list_all (readableFilter L) lfs" "list_all (\<lambda>lf. Label lf = ''__name__'' \<longrightarrow> bslash \<notin> set (Value lf)) lfs"
  shows "expandFilters (expandWithExpr L (Suc n)) L was (map (parsedFilter L) lfs) acc r = (Inr (acc @ lfs), r)"
  using assms
proof (induction lfs arbitrary: acc)
  case (Cons lf lfs)
  have "lfeValue (parsedFilter L lf) = Some ([], [Quote L (Value lf)])" by (simp add: parsedFilter_def)
  moreover have "toLabelFilter L ((parsedFilter L lf)\<lparr>lfeValue := Some (Value lf, [])\<rparr>) = Inr lf"
    using Cons.prems by (intro toLabelFilter_parsed) auto
  ultimately show ?case using Cons
    by (simp add: andThen_at expand_quoted liftResult_def ret_def del: expandWithExpr.simps)
qed (simp add: ret_def)

lemma filterString_inj:
  assumes "readableLabel (Label lf)" "readableLabel (Label lf')" "filterString L lf = filterString L lf'"
  shows "lf = lf'"
proof -
  have "lexAll (filterString L lf @ []) = (filterTokens L lf @ [], None)" "lexAll (filterString L lf' @ []) = (filterTokens L lf' @ [], None)"
    using assms(1,2) lexAll_Nil by (intro lexAll_filter; simp)+
  with assms(3) have t: "filterTokens L lf = filterTokens L lf'" by simp
  then have "unesc (esc True (Label lf)) = unesc (esc True (Label lf'))" by (simp add: filterTokens_def)
  moreover have "Unquote (Quote L (Value lf)) = Unquote (Quote L (Value lf'))" using t by (simp add: filterTokens_def)
  moreover have "IsNegative lf = IsNegative lf' \<and> IsRegexp lf = IsRegexp lf'"
    using t by (auto simp: filterTokens_def filterOp_def split: if_splits)
  ultimately show ?thesis by (simp add: unesc_esc Unquote_Quote)
qed

lemma removeDuplicate_readable:
  assumes "list_all (readableFilter L) lfs" "distinct lfs"
  shows "removeDuplicateLabelFilters L lfs = lfs"
proof -
  have "removeDuplicate_loop L (map (filterString L) ms) ks = ks"
    if "list_all (\<lambda>lf. readableLabel (Label lf)) (ms @ ks)" "distinct ks" "set ms \<inter> set ks = {}" for ms ks
    using that
  proof (induction ks arbitrary: ms)
    case (Cons k ks)
    have "filterString L k \<notin> filterString L ` set ms"
      using filterString_inj [of k] Cons.prems by (auto simp: list_all_iff)
    moreover have "removeDuplicate_loop L (map (filterString L) (k # ms)) ks = ks" using Cons.prems by (intro Cons.IH) auto
    ultimately show ?case by (simp add: Let_def)
  qed simp
  from this [of "[]" lfs] assms show ?thesis by (auto simp: removeDuplicateLabelFilters_def readableFilter_def list_all_iff)
qed

lemma getWithArg_none: "name \<notin> waName ` set was \<Longrightarrow> getWithArgExpr was name = None"
proof -
  assume n: "name \<notin> waName ` set was"
  have "i \<le> length was \<Longrightarrow> getWithArgExpr_from was name i = None" for i
  proof (induction i)
    case (Suc i)
    then have "was ! i \<in> set was" by simp
    with Suc n show ?case by auto
  qed simp
  then show ?thesis by (simp add: getWithArgExpr_def)
qed

lemma expand_metric:
  assumes "readableMetric L lfs" "map waName was = templateNames"
  shows "expandWithExpr L (Suc (Suc n)) was (MetricExpr 0 [] (parsedMetric L lfs)) r = (Inr (MetricExpr r lfs []), Suc r)"
proof -
  note ok = assms(1) [unfolded readableMetric_def Let_def]
  let ?ew = "expandWithExpr L (Suc n)"
  have "expandFilters ?ew L was (parsedMetric L lfs) [] r = (Inr lfs, r)"
  proof (cases "hasNonEmptyMetricGroup lfs")
    case False
    with ok expandFilters_parsed [of L lfs n was "[]" r] show ?thesis by (simp add: parsedMetric_def)
  next
    case True
    then obtain lf ks where l: "lfs = lf # ks" "isNameFilter lf" by (cases lfs) (auto simp: hasNonEmptyMetricGroup_def)
    let ?e = "esc True (Value lf)"
    have "unesc ''__name__'' = ''__name__''" by (rule unesc_plain) simp
    with l(2) have lf: "toLabelFilter L \<lparr>lfeLabel = ''__name__'', lfeValue = Some (?e, []), lfeIsRegexp = False, lfeIsNegative = False\<rparr> = Inr lf"
      by (cases lf) (simp add: toLabelFilter_def unescapeIdent_eq_unesc unesc_esc isNameFilter_def)
    have "expandFilters ?ew L was (map (parsedFilter L) ks) [lf] r = (Inr ([lf] @ ks), r)"
      using ok True l by (intro expandFilters_parsed) auto
    with True l lf show ?thesis
      by (simp add: parsedMetric_def andThen_at expand_quoted liftResult_def ret_def del: expandWithExpr.simps)
  qed
  moreover have "removeDuplicateLabelFilters L lfs = lfs" using ok by (intro removeDuplicate_readable) auto
  moreover have "expandMetricName ?ew L was (MetricExpr r lfs []) lfs (Suc r) = (Inr (MetricExpr r lfs []), Suc r)"
  proof (cases "hasNonEmptyMetricGroup lfs")
    case False
    then show ?thesis by (simp add: expandMetricName_def ret_def)
  next
    case True
    with ok have "esc True (Value (lfs ! 0)) \<notin> set (map waName was)" by (simp add: assms(2))
    then have "getWithArgExpr was (esc True (Value (lfs ! 0))) = None" by (intro getWithArg_none) simp
    with True show ?thesis by (simp add: expandMetricName_def ret_def appendEscapedIdent_eq)
  qed
  ultimately show ?thesis
    by (simp add: andThen_at allocMetric_def Let_def)
qed

lemma Parse_readable:
  assumes "readableMetric L lfs"
  shows "Parse L (Suc (Suc n)) (metricString L lfs) = Inr (MetricExpr 0 lfs [])"
proof -
  obtain was where d: "getDefaultWithArgExprs L = Inr was" "map waName was = templateNames" using defaults_ok by blast
  show ?thesis
    using expand_metric [OF assms d(2), of n 0]
    unfolding Parse_def parseString_metric [OF assms] d(1)
    by (simp add: andThen_at wrapErr_def ret_def del: expandWithExpr.simps)
qed

end
