(* ===== verification/ExprLex.thy ===== *)
theory ExprLex
  imports MetricText
begin

text \<open>
  The text of an expression, token by token: for a class of printable expressions, the lexer reads
  what the \<open>AppendString\<close> methods of \<open>src/mateql/parser.go\<close> write as the tokens \<open>exprTokens\<close>.
\<close>

section \<open>Words, numbers, durations, operators\<close>

definition plainWord :: "string \<Rightarrow> bool" where
  "plainWord t \<longleftrightarrow> t \<noteq> [] \<and> isFirstIdentChar (hd t) \<and> list_all (\<lambda>c. isIdentChar c \<and> c \<noteq> CHR ''.'') t"

lemma esc_False_ident: "list_all isIdentChar t \<Longrightarrow> esc False t = t"
  by (induction t) (auto simp: escChar_def)

lemma plainWord_esc: "plainWord t \<Longrightarrow> esc True t = t"
proof (cases t)
  case (Cons c s)
  assume "plainWord t"
  then have "isFirstIdentChar c" "isIdentChar c" "list_all isIdentChar s" unfolding Cons plainWord_def list_all_iff by simp_all
  then show ?thesis using esc_False_ident [of s] by (simp add: Cons escChar_def)
qed (simp add: plainWord_def)

text \<open>What may follow a word: nothing, a blank or punctuation.\<close>

definition wordStop :: "string \<Rightarrow> bool" where
  "wordStop r \<longleftrightarrow> r = [] \<or> hd r \<in> set '' ()[]{},=!''"

lemma scanIdent_loop_stop:
  assumes "drop i w = r" "wordStop r"
  shows "scanIdent_loop w i False u = (i, False, u)"
proof (cases r)
  case Nil
  with assms(1) show ?thesis by (simp add: scanIdent_loop.simps [of w i False u])
next
  case (Cons c x)
  then have c: "i < length w" "w ! i = c" using drop_nth [of i w c x] assms(1) by auto
  have "c \<in> set '' ()[]{},=!''" using assms(2) Cons by (simp add: wordStop_def)
  then have "c \<noteq> CHR ''.''" "c \<noteq> bslash" "c \<noteq> CHR ''*''" "\<not> isIdentChar c" "\<not> isExtendGraphiteIdentChar c"
    by (auto simp: isIdentChar_def isFirstIdentChar_def isDecimalChar_def isExtendGraphiteIdentChar_def between_def)
  with c show ?thesis by (simp add: scanIdent_loop.simps [of w i False u])
qed

lemma scanIdent_loop_word:
  "drop i w = esc first s @ r \<Longrightarrow> CHR ''.'' \<notin> set s \<Longrightarrow> wordStop r \<Longrightarrow>
     scanIdent_loop w i False u = (i + length (esc first s), False, u)"
proof (induction first s arbitrary: i rule: esc.induct)
  case (1 first)
  then show ?case using scanIdent_loop_stop [of i w r u] by simp
next
  case (2 first c s)
  have "drop (i + length (escChar first c)) w = esc False s @ r"
    using arg_cong [OF "2.prems"(1), of "drop (length (escChar first c))"] by (simp add: add.commute)
  then have "scanIdent_loop w (i + length (escChar first c)) False u = (i + length (escChar first c) + length (esc False s), False, u)"
    using "2.prems"(2,3) by (intro "2.IH") auto
  moreover have "scanIdent_loop w i False u = scanIdent_loop w (i + length (escChar first c)) False u"
    using "2.prems" by (intro scanIdent_escChar_noDot [where x = "esc False s @ r"]) auto
  ultimately show ?case by (simp add: add.assoc)
qed

lemma scanIdent_word:
  assumes "s \<noteq> []" "CHR ''.'' \<notin> set s" "wordStop r"
  shows "scanIdent (esc True s @ r) = Inr (esc True s)"
  using scanIdent_loop_word [of 0 "esc True s @ r" True s r "-1"] assms esc_not_Nil [OF assms(1), of True]
  by (simp add: scanIdent_def)

lemma lexAll_name:
  assumes "s \<noteq> []" "CHR ''.'' \<notin> set s" "wordStop r" "lexAll r = (ts, None)"
  shows "lexAll (esc True s @ r) = (esc True s # ts, None)"
  by (rule lexAll_step [OF next_name [OF assms(1) scanIdent_word [OF assms(1-3)]] _ assms(4)]) (rule esc_not_Nil [OF assms(1)])

lemma lexAll_word:
  assumes "plainWord t" "wordStop r" "lexAll r = (ts, None)"
  shows "lexAll (t @ r) = (t # ts, None)"
proof -
  have "t \<noteq> []" "CHR ''.'' \<notin> set t" using assms(1) by (auto simp: plainWord_def list_all_iff)
  from lexAll_name [OF this assms(2,3)] show ?thesis by (simp add: plainWord_esc [OF assms(1)])
qed

lemma lexAll_punct:
  assumes "c \<in> set ''{}[](),''" "lexAll r = (ts, None)"
  shows "lexAll (c # r) = ([c] # ts, None)"
  by (rule lexAll_step [OF next_punct [OF assms(1)] _ assms(2)]) simp

lemma decimal_facts:
  assumes "isDecimalChar c"
  shows "\<not> isSpaceChar c" "c \<noteq> CHR ''#''" "c \<notin> set ''{}[](),''" "\<not> isFirstIdentChar c" "c \<noteq> bslash" "c \<noteq> dquote" "c \<noteq> squote" "c \<noteq> bquote"
    "scanBinaryOpPrefix (c # r) = 0" "scanTagFilterOpPrefix (c # r) = -1"
proof -
  show "\<not> isSpaceChar c" "c \<noteq> CHR ''#''" "c \<notin> set ''{}[](),''" "\<not> isFirstIdentChar c" "c \<noteq> bslash" "c \<noteq> dquote" "c \<noteq> squote" "c \<noteq> bquote"
    using assms by (auto simp: isDecimalChar_def isSpaceChar_def isFirstIdentChar_def between_def)
  have "byte c < 0x80" "toLowerByte c = c" using assms by (auto simp: isDecimalChar_def between_def toLowerByte_def)
  moreover have "op \<in> set binaryOps \<Longrightarrow> hd op \<noteq> c \<and> op \<noteq> []" for op
    using assms by (auto simp: binaryOps_def isDecimalChar_def between_def)
  ultimately have e: "{op \<in> set binaryOps. startsWithOp (c # r) op} = {}" using startsWithOp_head [of c r] by fastforce
  show "scanBinaryOpPrefix (c # r) = 0" unfolding scanBinaryOpPrefix_longest e by simp
  show "scanTagFilterOpPrefix (c # r) = -1"
    using assms by (auto simp: scanTagFilterOpPrefix_def isDecimalChar_def between_def)
qed

lemma next_decimal:
  assumes "isDecimalChar c"
  shows "next_token (c # r) =
    (if scanDuration (c # r) False > 0 then tokenFound (c # r) (Inr (take (nat (scanDuration (c # r) False)) (c # r)))
     else tokenFound (c # r) (scanPositiveNumber (c # r)))"
  using decimal_facts [OF assms] assms next_token_Cons [of c r] by simp

lemma lexAll_duration:
  assumes "isDurationLit t" "lexAll r = (ts, None)"
  shows "lexAll (t @ r) = (t # ts, None)"
proof -
  from assms(1) obtain c x where t: "t = c # x" "isDecimalChar c"
    unfolding isDurationLit_def digits_def by (metis append_Cons list.set_intros(1) neq_Nil_conv)
  have d: "scanDuration (t @ r) False = int (length t)" using scanDuration_iff [of "t @ r" "length t"] assms(1) by simp
  have "next_token (t @ r) = tokenFound (t @ r) (Inr (take (nat (scanDuration (t @ r) False)) (t @ r)))"
    using next_decimal [OF t(2), of "x @ r"] d t(1) by simp
  then have "next_token (t @ r) = (Inr t, r)" unfolding d by (simp add: tokenFound_def)
  from lexAll_step [OF this _ assms(2)] t(1) show ?thesis by simp
qed

text \<open>A number that begins with a digit: an integer, an optional fraction and an optional exponent.\<close>

definition exponentText :: "string \<Rightarrow> bool" where
  "exponentText x \<longleftrightarrow> x = [] \<or> (hd x \<in> set ''eE'' \<and>
     digits (if tl x \<noteq> [] \<and> hd (tl x) \<in> set ''+-'' then tl (tl x) else tl x))"

definition numberText :: "string \<Rightarrow> bool" where
  "numberText t \<longleftrightarrow> (let a = takeWhile isDecimalChar t; q = dropWhile isDecimalChar t in
     a \<noteq> [] \<and>
     (if q \<noteq> [] \<and> hd q = CHR ''.'' then digits (takeWhile isDecimalChar (tl q)) \<and> exponentText (dropWhile isDecimalChar (tl q))
      else exponentText q))"

definition exponentShape :: "string \<Rightarrow> bool" where
  "exponentShape x \<longleftrightarrow> x = [] \<or> (\<exists>e g d. x = e # g @ d \<and> e \<in> set ''eE'' \<and> g \<in> {[], ''+'', ''-''} \<and> digits d)"

lemma exponentText_shape: "exponentText x \<Longrightarrow> exponentShape x"
proof (cases x)
  case (Cons e q)
  assume x: "exponentText x"
  show ?thesis
  proof (cases "q \<noteq> [] \<and> hd q \<in> set ''+-''")
    case True
    then have "x = e # [hd q] @ tl q" "[hd q] \<in> {[], ''+'', ''-''}" using Cons by auto
    moreover have "e \<in> set ''eE''" "digits (tl q)" using x True Cons by (auto simp: exponentText_def)
    ultimately show ?thesis unfolding exponentShape_def by blast
  next
    case False
    then have "e \<in> set ''eE''" "digits q" using x Cons by (simp_all add: exponentText_def split: if_splits)
    moreover have "x = e # [] @ q" using Cons by simp
    ultimately show ?thesis unfolding exponentShape_def by blast
  qed
qed (simp add: exponentShape_def)

lemma numberText_parts:
  assumes "numberText t"
  obtains a f x where "t = a @ f @ x" "a \<noteq> []" "\<forall>c \<in> set a. isDecimalChar c" "f = [] \<or> (\<exists>d. f = CHR ''.'' # d \<and> digits d)" "exponentShape x"
proof -
  let ?a = "takeWhile isDecimalChar t" and ?q = "dropWhile isDecimalChar t"
  have a: "?a \<noteq> []" "\<forall>c \<in> set ?a. isDecimalChar c" using assms by (auto simp: numberText_def Let_def dest: set_takeWhileD)
  show thesis
  proof (cases "?q \<noteq> [] \<and> hd ?q = CHR ''.''")
    case True
    then have "?q = CHR ''.'' # tl ?q" by (metis list.collapse)
    then have "t = ?a @ (CHR ''.'' # takeWhile isDecimalChar (tl ?q)) @ dropWhile isDecimalChar (tl ?q)"
      by (metis append_Cons takeWhile_dropWhile_id)
    moreover have "digits (takeWhile isDecimalChar (tl ?q))" "exponentShape (dropWhile isDecimalChar (tl ?q))"
      using assms True exponentText_shape unfolding numberText_def Let_def by meson+
    ultimately show thesis using that a by blast
  next
    case False
    then have "exponentShape ?q" using assms exponentText_shape unfolding numberText_def Let_def by meson
    then show thesis using that [of ?a "[]" ?q] a by simp
  qed
qed

lemma wordStop_facts:
  assumes "wordStop r"
  shows "stopsDigits r" "r \<noteq> [] \<Longrightarrow> hd r \<noteq> CHR ''.'' \<and> hd r \<noteq> CHR ''e'' \<and> hd r \<noteq> CHR ''E'' \<and> hd r \<notin> set ''smhdwyi''"
  using assms by (auto simp: wordStop_def stopsDigits_def isDecimalChar_def between_def)

text \<open>What follows the digits of a number: an exponent or the end of the number.\<close>

lemma exponent_stop:
  assumes "exponentShape x" "wordStop r"
  shows "stopsDigits (x @ r)" "x @ r \<noteq> [] \<Longrightarrow> hd (x @ r) \<noteq> CHR ''.'' \<and> hd (x @ r) \<notin> set ''smhdwyi''"
    "x @ r \<noteq> [] \<Longrightarrow> (hd (x @ r) = CHR ''e'' \<or> hd (x @ r) = CHR ''E'') = (x \<noteq> [])"
  using assms(1) wordStop_facts [OF assms(2)] unfolding exponentShape_def
  by (auto simp: stopsDigits_def isDecimalChar_def between_def)

lemma scanExponent_text:
  assumes "exponentShape x" "x \<noteq> []" "wordStop r"
  shows "scanExponentPart (p @ x @ r) (Suc (length p)) = Inr (p @ x)"
proof -
  obtain e g d where x: "x = e # g @ d" "g \<in> {[], ''+'', ''-''}" "digits d" using assms(1,2) by (auto simp: exponentShape_def)
  have d: "d \<noteq> []" "\<forall>c \<in> set d. isDecimalChar c" using x(3) by (simp_all add: digits_def)
  then have hd: "hd d \<noteq> CHR ''-''" "hd d \<noteq> CHR ''+''" by (cases d; auto simp: isDecimalChar_def between_def)+
  let ?s = "p @ x @ r"
  have n: "?s ! Suc (length p) = hd (g @ d)" using d(1) by (cases "g @ d") (auto simp: x(1) nth_append)
  have i: "(if ?s ! Suc (length p) = CHR ''-'' \<or> ?s ! Suc (length p) = CHR ''+'' then Suc (length p) + 1 else Suc (length p)) = length (p @ e # g)"
    using x(2) hd unfolding n by auto
  have s: "?s = (p @ e # g) @ d @ r" by (simp add: x(1))
  have j: "skipWhile isDecimalChar ?s (length (p @ e # g)) = length ((p @ e # g) @ d)"
    unfolding s by (rule skipWhile_cut [OF refl d(2) wordStop_facts(1) [OF assms(3)]])
  have "Suc (length p) \<noteq> length ?s" using d(1) by (simp add: x(1))
  with d(1) show ?thesis unfolding scanExponentPart_def Let_def i j by (simp add: x(1))
qed

lemma scan_numberText:
  assumes "numberText t" "wordStop r"
  shows "scanPositiveNumber (t @ r) = Inr t" "scanDuration (t @ r) False = -1"
proof -
  obtain a f x where t: "t = a @ f @ x" "a \<noteq> []" "\<forall>c \<in> set a. isDecimalChar c"
    and f: "f = [] \<or> (\<exists>d. f = CHR ''.'' # d \<and> digits d)" and x: "exponentShape x"
    using numberText_parts [OF assms(1)] by blast
  note u = exponent_stop [OF x assms(2)]
  have "scanPositiveNumber (t @ r) = Inr t \<and> scanDuration (t @ r) False = -1"
    using f
  proof
    assume f: "f = []"
    let ?s = "a @ x @ r"
    have i: "skipWhile isDecimalChar ?s 0 = length a" using skipWhile_cut [of 0 "[]" a "x @ r"] t(3) u(1) by simp
    have n: "x @ r \<noteq> [] \<Longrightarrow> ?s ! length a = hd (x @ r)" using nth_append_length [of a "hd (x @ r)" "tl (x @ r)"] by simp
    have "scanPositiveNumber ?s = Inr (a @ x)"
    proof (cases "x = []")
      case True
      then show ?thesis using i n u t(2) by (cases "r = []") (simp_all add: scanPositiveNumber_def)
    next
      case False
      then have "?s ! length a \<noteq> CHR ''.''" "?s ! length a = CHR ''e'' \<or> ?s ! length a = CHR ''E''" using n u(2,3) by simp_all
      with False i scanExponent_text [OF x False assms(2), of a] show ?thesis by (auto simp: scanPositiveNumber_def)
    qed
    moreover have "scanDuration ?s False = -1"
      using scanDuration_cut [OF t(3), of "x @ r"] u(1,2) by (cases "x @ r = []") (simp_all add: stopsDigits_def del: set_simps)
    ultimately show ?thesis using t(1) f by simp
  next
    assume "\<exists>d. f = CHR ''.'' # d \<and> digits d"
    then obtain d where d: "f = CHR ''.'' # d" "d \<noteq> []" "\<forall>c \<in> set d. isDecimalChar c" by (auto simp: digits_def)
    let ?p = "a @ CHR ''.'' # d"
    let ?s = "?p @ x @ r"
    have i: "skipWhile isDecimalChar ?s 0 = length a"
      using skipWhile_cut [of 0 "[]" a "CHR ''.'' # d @ x @ r"] t(3) by (simp add: stopsDigits_def)
    have j: "skipWhile isDecimalChar ?s (length a + 1) = length ?p"
      using skipWhile_cut [of "length a + 1" "a @ ''.''" d "x @ r"] d(3) u(1) by simp
    have n: "?s ! length a = CHR ''.''" by simp
    have n2: "x @ r \<noteq> [] \<Longrightarrow> ?s ! length ?p = hd (x @ r)"
      using nth_append_length [of ?p "hd (x @ r)" "tl (x @ r)"] by simp
    have p: "length a \<noteq> length ?s" "length ?p \<noteq> length a + 1" using d(2) by simp_all
    have "scanPositiveNumber ?s = Inr (?p @ x)"
    proof (cases "x = []")
      case True
      then show ?thesis unfolding scanPositiveNumber_def Let_def i n
        using j n2 u(3) p by (cases "r = []") simp_all
    next
      case False
      then have e: "?s ! length ?p = CHR ''e'' \<or> ?s ! length ?p = CHR ''E''" "length ?p \<noteq> length ?s" using n2 u(3) by simp_all
      show ?thesis unfolding scanPositiveNumber_def Let_def i n
        using scanExponent_text [OF x False assms(2), of ?p] e p j by auto
    qed
    moreover have "scanDuration ?s False = -1"
    proof -
      have "dropWhile isDecimalChar (d @ x @ r) = x @ r"
        using d(3) u(1) by (cases "x @ r") (auto simp: dropWhile_append stopsDigits_def)
      with scanDuration_cut [OF t(3), of "CHR ''.'' # d @ x @ r"] t(2) u(2) show ?thesis by (simp add: Let_def del: set_simps)
    qed
    ultimately show ?thesis using t(1) d(1) by simp
  qed
  then show "scanPositiveNumber (t @ r) = Inr t" "scanDuration (t @ r) False = -1" by simp_all
qed

lemma lexAll_number:
  assumes "numberText t" "wordStop r" "lexAll r = (ts, None)"
  shows "lexAll (t @ r) = (t # ts, None)"
proof -
  obtain c x where t: "t = c # x" "isDecimalChar c"
    using numberText_parts [OF assms(1)] by (metis append_Cons list.set_intros(1) neq_Nil_conv)
  have "next_token (t @ r) = tokenFound (t @ r) (Inr t)"
    using next_decimal [OF t(2), of "x @ r"] scan_numberText [OF assms(1,2)] t(1) by simp
  then have "next_token (t @ r) = (Inr t, r)" by (simp add: tokenFound_def)
  from lexAll_step [OF this _ assms(3)] t(1) show ?thesis by simp
qed

lemma ToLower_ascii: "\<forall>c \<in> set p. byte c < 0x80 \<Longrightarrow> ToLower (p @ q) = map toLowerByte p @ ToLower q"
proof (induction p)
  case (Cons c p)
  then have "c \<noteq> CHR 0xC4" "c \<noteq> CHR 0xE2" by auto
  with Cons show ?case by simp
qed simp

definition symbols :: "string list" where
  "symbols = [''+'', ''-'', ''*'', ''/'', ''%'', ''^'', ''=='', ''!='', ''>'', ''<'', ''>='', ''<='']"

lemma symbol_facts:
  "list_all (\<lambda>op. op \<noteq> [] \<and> op \<in> set binaryOps \<and> map toLowerByte op = op \<and> list_all (\<lambda>c. byte c < 0x80) op \<and>
     \<not> isSpaceChar (hd op) \<and> hd op \<noteq> CHR ''#'' \<and> hd op \<notin> set ''{}[](),'' \<and> \<not> isIdentPrefix op \<and> \<not> isStringPrefix op) symbols"
  by code_simp

lemma scan_symbol:
  assumes "op \<in> set symbols" "byte c < 0x80" "list_all (\<lambda>op. toLowerByte c \<notin> set op) binaryOps"
  shows "scanBinaryOpPrefix (op @ c # r) = length op"
proof -
  let ?s = "op @ c # r"
  have op: "op \<in> set binaryOps" "map toLowerByte op = op" "\<forall>c \<in> set op. byte c < 0x80"
    using symbol_facts assms(1) by (auto simp: list_all_iff)
  have c: "c \<noteq> CHR 0xC4" "c \<noteq> CHR 0xE2" using assms(2) by auto
  have "ToLower op = op" using ToLower_ascii [OF op(3), of "[]"] op(2) by simp
  then have "startsWithOp ?s op" by (simp add: startsWithOp_def)
  moreover have "length op' \<le> length op" if o: "op' \<in> set binaryOps" "startsWithOp ?s op'" for op'
  proof (rule ccontr)
    assume "\<not> length op' \<le> length op"
    then obtain k where k: "length op' = length op + Suc k" by (metis add_Suc_right less_imp_Suc_add not_le)
    have "take (length op') ?s = op @ c # take k r" unfolding k by simp
    then have "ToLower (take (length op') ?s) = op @ ToLower (c # take k r)" using ToLower_ascii [OF op(3)] op(2) by simp
    then have "toLowerByte c \<in> set op'" using o(2) c by (auto simp: startsWithOp_def)
    with assms(3) o(1) show False by (auto simp: list_all_iff)
  qed
  ultimately show ?thesis unfolding scanBinaryOpPrefix_longest using op(1) by (intro Max_eqI) auto
qed

lemma next_symbol:
  assumes "op \<in> set symbols" "byte c < 0x80" "list_all (\<lambda>op. toLowerByte c \<notin> set op) binaryOps"
  shows "next_token (op @ c # r) = (Inr op, c # r)"
proof -
  have f: "op \<noteq> []" "\<not> isSpaceChar (hd op)" "hd op \<noteq> CHR ''#''" "hd op \<notin> set ''{}[](),''" "\<not> isIdentPrefix op" "\<not> isStringPrefix op"
    using symbol_facts assms(1) by (auto simp: list_all_iff simp del: isIdentPrefix.simps isStringPrefix.simps)
  obtain d x where op: "op = d # x" using f(1) by (cases op) auto
  have "scanBinaryOpPrefix (d # x @ c # r) = length op" using scan_symbol [OF assms, of r] op by simp
  then have "next_token (op @ c # r) = tokenFound (op @ c # r) (Inr (take (length op) (op @ c # r)))"
    using next_token_Cons [of d "x @ c # r"] f unfolding op by simp
  then show ?thesis by (simp add: tokenFound_def)
qed

lemma after_symbol:
  "byte CHR '' '' < 0x80 \<and> list_all (\<lambda>op. toLowerByte CHR '' '' \<notin> set op) binaryOps"
  "isDecimalChar c \<Longrightarrow> byte c < 0x80 \<and> list_all (\<lambda>op. toLowerByte c \<notin> set op) binaryOps"
proof -
  show "byte CHR '' '' < 0x80 \<and> list_all (\<lambda>op. toLowerByte CHR '' '' \<notin> set op) binaryOps" by code_simp
  have d: "list_all (list_all (\<lambda>c. \<not> isDecimalChar c)) binaryOps" by code_simp
  assume c: "isDecimalChar c"
  then have "toLowerByte c = c" "byte c < 0x80" by (auto simp: isDecimalChar_def between_def toLowerByte_def)
  with c d show "byte c < 0x80 \<and> list_all (\<lambda>op. toLowerByte c \<notin> set op) binaryOps" by (auto simp: list_all_iff)
qed

lemma binaryOps_words: "list_all (\<lambda>op. op \<in> set symbols \<or> plainWord op) binaryOps"
  by code_simp

lemma lexAll_op:
  assumes "op \<in> set binaryOps" "lexAll r = (ts, None)"
  shows "lexAll (op @ CHR '' '' # r) = (op # ts, None)"
proof -
  have r: "lexAll (CHR '' '' # r) = (ts, None)" using assms(2) by (simp add: lexAll_space)
  consider "op \<in> set symbols" | "plainWord op" using binaryOps_words assms(1) by (auto simp: list_all_iff)
  then show ?thesis
  proof cases
    case 1
    then have "op \<noteq> []" using symbol_facts by (auto simp: list_all_iff)
    from lexAll_step [OF next_symbol [OF 1 after_symbol(1) [THEN conjunct1] after_symbol(1) [THEN conjunct2]] this r] show ?thesis .
  next
    case 2
    from lexAll_word [OF 2 _ r] show ?thesis by (simp add: wordStop_def)
  qed
qed

section \<open>The tokens of an expression\<close>

fun joinTokens :: "string list list \<Rightarrow> string list" where
  "joinTokens [] = []"
| "joinTokens [xs] = xs"
| "joinTokens (xs # xss) = xs @ '','' # joinTokens xss"

definition modifierTokens :: "ModifierExpr \<Rightarrow> string list" where
  "modifierTokens m = Op m # ''('' # joinTokens (map (\<lambda>a. [a]) (Args m)) @ ['')'']"

definition offsetTokens :: "string \<Rightarrow> string list" where
  "offsetTokens off = (if HasPrefix off ''-'' then [''-'', tl off] else [off])"

definition suffixTokens :: "string \<Rightarrow> string \<Rightarrow> string \<Rightarrow> bool \<Rightarrow> string list" where
  "suffixTokens w off st ih =
     (if w \<noteq> [] \<or> ih \<or> st \<noteq> [] then
        ''['' # (if w \<noteq> [] then [w] else []) @ (if st \<noteq> [] then [CHR '':'' # st] else if ih then ['':''] else []) @ ['']'']
      else []) @
     (if off \<noteq> [] then ''offset'' # offsetTokens off else [])"

definition wrapTokens :: "bool \<Rightarrow> string list \<Rightarrow> string list" where
  "wrapTokens b ts = (if b then ''('' # ts @ ['')''] else ts)"

fun exprTokens :: "golib \<Rightarrow> expr \<Rightarrow> string list" where
  "exprTokens L (StringExpr s tokens) = [Quote L s]"
| "exprTokens L (NumberExpr n) = [AppendFloat n]"
| "exprTokens L (BinaryOpExpr op b g j l r) =
     wrapTokens (isBinaryOpExpr l) (exprTokens L l) @ op # (if b then [''bool''] else []) @
     (if Op g \<noteq> [] then modifierTokens g else []) @ (if Op j \<noteq> [] then modifierTokens j else []) @
     wrapTokens (isBinaryOpExpr r) (exprTokens L r)"
| "exprTokens L (FuncExpr f args) = f # ''('' # joinTokens (map (exprTokens L) args) @ ['')'']"
| "exprTokens L (AggrFuncExpr f args m lim) =
     f # ''('' # joinTokens (map (exprTokens L) args) @ '')'' # (if Op m \<noteq> [] then modifierTokens m else []) @
     (if lim > 0 then [''limit'', Itoa lim] else [])"
| "exprTokens L (RollupExpr e w off st ih) = wrapTokens (rollupNeedParens e) (exprTokens L e) @ suffixTokens w off st ih"
| "exprTokens L (MetricExpr r lfs lfes) = metricTokens L lfs"
| "exprTokens L e = []"

section \<open>Printable expressions\<close>

text \<open>A word that means nothing else to the parser.\<close>

definition freeWord :: "string \<Rightarrow> bool" where
  "freeWord t \<longleftrightarrow> \<not> isWith t \<and> \<not> isInfOrNaN t \<and> \<not> isOffset t \<and> \<not> isAggrFunc t \<and> \<not> isBinaryOp t \<and>
     \<not> isBinaryOpBoolModifier t \<and> \<not> isBinaryOpGroupModifier t \<and> \<not> isBinaryOpJoinModifier t \<and>
     \<not> isAggrFuncModifier t \<and> ToLower t \<noteq> ''limit'' \<and> t \<notin> set templateNames"

definition printableModifier :: "string list \<Rightarrow> ModifierExpr \<Rightarrow> bool" where
  "printableModifier ops m \<longleftrightarrow>
     (if Op m = [] then Args m = []
      else Op m \<in> set ops \<and> distinct (Args m) \<and> list_all (\<lambda>a. plainWord a \<and> a \<notin> set templateNames) (Args m))"

definition printableSuffix :: "string \<Rightarrow> string \<Rightarrow> string \<Rightarrow> bool \<Rightarrow> bool" where
  "printableSuffix w off st ih \<longleftrightarrow>
     (w \<noteq> [] \<or> off \<noteq> [] \<or> st \<noteq> [] \<or> ih) \<and> (w \<noteq> [] \<longrightarrow> isPositiveDuration w) \<and>
     (st \<noteq> [] \<longrightarrow> isPositiveDuration st \<and> CHR ''.'' \<notin> set st \<and> \<not> ih) \<and>
     (off \<noteq> [] \<longrightarrow> isPositiveDuration (if HasPrefix off ''-'' then tl off else off))"

fun isStringExpr :: "expr \<Rightarrow> bool" where
  "isStringExpr (StringExpr s tokens) = True"
| "isStringExpr _ = False"

fun printable :: "golib \<Rightarrow> expr \<Rightarrow> bool" where
  "printable L (StringExpr s tokens) \<longleftrightarrow> tokens = []"
| "printable L (NumberExpr x) \<longleftrightarrow> numberText (AppendFloat x) \<and> ParseFloat (AppendFloat x) = Inr x"
| "printable L (BinaryOpExpr op b g j l r) \<longleftrightarrow>
     op \<in> set binaryOps \<and> (b \<longrightarrow> IsBinaryOpCmp op) \<and>
     printableModifier [''on'', ''ignoring''] g \<and> printableModifier [''group_left'', ''group_right''] j \<and>
     (Op j \<noteq> [] \<longrightarrow> Op g \<noteq> [] \<and> \<not> isBinaryOpLogicalSet op) \<and> (op = ''+'' \<longrightarrow> \<not> isStringExpr l) \<and>
     printable L l \<and> printable L r"
| "printable L (FuncExpr f args) \<longleftrightarrow> plainWord f \<and> freeWord f \<and> (\<forall>e \<in> set args. printable L e)"
| "printable L (AggrFuncExpr f args m lim) \<longleftrightarrow>
     f \<in> set aggrFuncs \<and> (\<forall>e \<in> set args. printable L e) \<and> printableModifier [''by'', ''without''] m \<and> 0 \<le> lim \<and> lim < 2 ^ 63"
| "printable L (RollupExpr e w off st ih) \<longleftrightarrow> printable L e \<and> printableSuffix w off st ih"
| "printable L (MetricExpr r lfs lfes) \<longleftrightarrow>
     lfes = [] \<and> readableMetric L lfs \<and> (hasNonEmptyMetricGroup lfs \<longrightarrow> freeWord (esc True (Value (lfs ! 0))))"
| "printable L e \<longleftrightarrow> False"

section \<open>The lexer reads the text as the tokens\<close>

text \<open>Whatever stopping text follows, the text \<open>s\<close> is read as the tokens \<open>xs\<close>.\<close>

definition lexes :: "string \<Rightarrow> string list \<Rightarrow> bool" where
  "lexes s xs \<longleftrightarrow> (\<forall>r ts. wordStop r \<longrightarrow> lexAll r = (ts, None) \<longrightarrow> lexAll (s @ r) = (xs @ ts, None))"

named_theorems lexes_intros "texts and their tokens"

lemma lexes_Nil [lexes_intros]: "lexes [] []"
  by (simp add: lexes_def)

lemma lexes_append:
  assumes "lexes s xs" "lexes s' ys" "wordStop s'"
  shows "lexes (s @ s') (xs @ ys)"
proof -
  have "wordStop r \<Longrightarrow> wordStop (s' @ r)" for r using assms(3) by (cases s') (simp_all add: wordStop_def)
  with assms(1,2) show ?thesis unfolding lexes_def by simp
qed

lemma lexes_punct: "c \<in> set ''{}[](),'' \<Longrightarrow> lexes s xs \<Longrightarrow> lexes (c # s) ([c] # xs)"
  unfolding lexes_def append_Cons by (intro allI impI lexAll_punct) blast+

lemma lexes_brackets [lexes_intros]:
  "lexes s xs \<Longrightarrow> lexes (CHR ''('' # s) (''('' # xs)" "lexes s xs \<Longrightarrow> lexes (CHR '')'' # s) ('')'' # xs)"
  "lexes s xs \<Longrightarrow> lexes (CHR ''['' # s) (''['' # xs)" "lexes s xs \<Longrightarrow> lexes (CHR '']'' # s) ('']'' # xs)"
  "lexes s xs \<Longrightarrow> lexes (CHR ''{'' # s) (''{'' # xs)" "lexes s xs \<Longrightarrow> lexes (CHR ''}'' # s) (''}'' # xs)"
  "lexes s xs \<Longrightarrow> lexes (CHR '','' # s) ('','' # xs)"
  by (rule lexes_punct; simp)+

lemma lexes_space [lexes_intros]: "lexes s xs \<Longrightarrow> lexes (CHR '' '' # s) xs"
  unfolding lexes_def by (simp add: lexAll_space)

lemma lexes_op: "op \<in> set binaryOps \<Longrightarrow> lexes s xs \<Longrightarrow> lexes (op @ CHR '' '' # s) (op # xs)"
  unfolding lexes_def using lexAll_op by simp

lemma lexes_word: "plainWord t \<Longrightarrow> lexes t [t]"
  unfolding lexes_def using lexAll_word by simp

lemma lexes_name: "t \<noteq> [] \<Longrightarrow> CHR ''.'' \<notin> set t \<Longrightarrow> lexes (esc True t) [esc True t]"
  unfolding lexes_def using lexAll_name by simp

lemma lexes_number: "numberText t \<Longrightarrow> lexes t [t]"
  unfolding lexes_def using lexAll_number by simp

lemma lexes_duration: "isPositiveDuration t \<Longrightarrow> lexes t [t]"
proof -
  assume "isPositiveDuration t"
  then have "isDurationLit t" using scanDuration_iff [of t "length t"] by (simp add: isPositiveDuration_def)
  then show ?thesis unfolding lexes_def using lexAll_duration by simp
qed

lemma lexes_quoted: "lexes (Quote L s) [Quote L s]"
  unfolding lexes_def using lexAll_step [OF next_quoted] by (simp add: Quote_def)

lemma lexes_filter: "readableLabel (Label lf) \<Longrightarrow> lexes (filterString L lf) (filterTokens L lf)"
  unfolding lexes_def using lexAll_filter by simp

lemma lexes_join:
  assumes "\<And>x. x \<in> set xs \<Longrightarrow> lexes (f x) (g x)"
  shows "lexes (joinWith '', '' (map f xs)) (joinTokens (map g xs))"
  using assms
proof (induction xs rule: induct_list012)
  case (3 x y xs)
  then have "lexes ('', '' @ joinWith '', '' (map f (y # xs))) ('','' # joinTokens (map g (y # xs)))"
    by (simp add: lexes_intros)
  from lexes_append [OF _ this] 3 show ?case by (simp add: wordStop_def)
qed (simp_all add: lexes_Nil)

lemma joinTokens_filters: "joinTokens (map (filterTokens L) lfs) = listTokens L lfs"
  by (induction lfs rule: induct_list012) simp_all

lemma lexes_metric:
  assumes "readableMetric L lfs"
  shows "lexes (metricString L lfs) (metricTokens L lfs)"
proof -
  have lab: "\<forall>lf \<in> set lfs. readableLabel (Label lf)" using assms by (auto simp: readableMetric_def readableFilter_def list_all_iff)
  have braces: "lexes (CHR ''{'' # joinWith '', '' (map (filterString L) ks) @ ''}'') (''{'' # listTokens L ks @ [''}''])"
    if "set ks \<subseteq> set lfs" for ks
  proof -
    have "lexes (joinWith '', '' (map (filterString L) ks)) (listTokens L ks)"
      using lab that unfolding joinTokens_filters [symmetric] by (intro lexes_join lexes_filter) auto
    from lexes_append [OF this lexes_brackets(6) [OF lexes_Nil]] show ?thesis by (simp add: lexes_intros wordStop_def)
  qed
  show ?thesis
  proof (cases "hasNonEmptyMetricGroup lfs")
    case False
    then have "metricString L lfs = CHR ''{'' # joinWith '', '' (map (filterString L) lfs) @ ''}''"
      by (auto simp: metricString_def hasNonEmptyMetricGroup_def Let_def)
    with False braces [of lfs] show ?thesis by (simp add: metricTokens_def)
  next
    case True
    then obtain lf ks where l: "lfs = lf # ks" "isNameFilter lf" by (cases lfs) (auto simp: hasNonEmptyMetricGroup_def)
    have "Value lf \<noteq> []" "CHR ''.'' \<notin> set (Value lf)" using assms True by (auto simp: readableMetric_def readableName_def Let_def l)
    then have n: "lexes (esc True (Value lf)) [esc True (Value lf)]" by (rule lexes_name)
    show ?thesis
    proof (cases ks)
      case Nil
      with True l n show ?thesis by (simp add: metricString_def metricTokens_def appendEscapedIdent_eq)
    next
      case (Cons k js)
      have "lexes (CHR ''{'' # joinWith '', '' (map (filterString L) ks) @ ''}'') (''{'' # listTokens L ks @ [''}''])"
        using l by (intro braces) auto
      from lexes_append [OF n this] True Cons l show ?thesis
        by (simp add: metricString_def metricTokens_def appendEscapedIdent_eq wordStop_def Let_def)
    qed
  qed
qed

lemma lexes_modifier:
  assumes "printableModifier ops m" "Op m \<noteq> []" "list_all plainWord ops"
  shows "lexes (modifierString m) (modifierTokens m)"
proof -
  have op: "plainWord (Op m)" and args: "\<forall>a \<in> set (Args m). plainWord a"
    using assms by (auto simp: printableModifier_def list_all_iff)
  have "lexes (joinWith '', '' (map (\<lambda>a. a) (Args m))) (joinTokens (map (\<lambda>a. [a]) (Args m)))"
    using args by (intro lexes_join lexes_word) simp
  from lexes_append [OF this lexes_brackets(2) [OF lexes_Nil]]
  have "lexes (joinWith '', '' (Args m) @ '')'') (joinTokens (map (\<lambda>a. [a]) (Args m)) @ ['')''])" by (simp add: wordStop_def)
  then have "lexes ('' ('' @ joinWith '', '' (Args m) @ '')'') (''('' # joinTokens (map (\<lambda>a. [a]) (Args m)) @ ['')''])"
    by (simp add: lexes_intros)
  from lexes_append [OF lexes_word [OF op] this] show ?thesis by (simp add: modifierString_def modifierTokens_def wordStop_def)
qed

lemma lexes_optional: "(b \<Longrightarrow> lexes s xs) \<Longrightarrow> lexes (if b then CHR '' '' # s else []) (if b then xs else [])"
  by (simp add: lexes_intros)

lemma stop_optional [simp]: "wordStop (if b then CHR '' '' # s else [])" "wordStop (CHR '' '' # s)" "wordStop (CHR ''('' # s)" "wordStop (CHR '')'' # s)"
  "wordStop (CHR ''['' # s)" "wordStop (CHR '']'' # s)"
  by (simp_all add: wordStop_def)

lemma lexes_call:
  assumes "plainWord f" "\<And>e. e \<in> set args \<Longrightarrow> lexes (p e) (q e)" "lexes s xs" "wordStop s"
  shows "lexes (f @ argListString (map p args) @ s) (f # ''('' # joinTokens (map q args) @ '')'' # xs)"
proof -
  have "lexes (joinWith '', '' (map p args)) (joinTokens (map q args))" using assms(2) by (rule lexes_join)
  from lexes_append [OF this lexes_brackets(2) [OF assms(3)]]
  have "lexes (CHR ''('' # joinWith '', '' (map p args) @ CHR '')'' # s) (''('' # joinTokens (map q args) @ '')'' # xs)"
    by (simp add: lexes_intros)
  from lexes_append [OF lexes_word [OF assms(1)] this] show ?thesis by (simp add: argListString_def)
qed

lemma lexes_wrap:
  assumes "lexes s xs"
  shows "lexes (parenthesize b s) (wrapTokens b xs)"
proof (cases b)
  case True
  from lexes_append [OF assms lexes_brackets(2) [OF lexes_Nil]] True show ?thesis
    by (simp add: parenthesize_def wrapTokens_def lexes_intros)
qed (simp add: parenthesize_def wrapTokens_def assms)

lemma plainWords:
  "list_all plainWord [''on'', ''ignoring'']" "list_all plainWord [''group_left'', ''group_right'']" "list_all plainWord [''by'', ''without'']"
  "plainWord ''bool''" "plainWord ''limit''" "plainWord ''offset''" "list_all plainWord aggrFuncs" "plainWord '':''"
  by code_simp+

lemma durations_digits:
  assumes "isPositiveDuration t"
  shows "isDurationLit t" "t \<noteq> []" "isDecimalChar (hd t)"
proof -
  show l: "isDurationLit t" using scanDuration_iff [of t "length t"] assms by (simp add: isPositiveDuration_def)
  then show "t \<noteq> []" "isDecimalChar (hd t)"
    unfolding isDurationLit_def digits_def by (metis append_is_Nil_conv, metis hd_append2 hd_in_set)
qed

lemma lexes_duration_append: "isPositiveDuration w \<Longrightarrow> lexes s xs \<Longrightarrow> lexes (w @ s) (w # xs)"
  unfolding lexes_def using lexAll_duration [OF durations_digits(1)] by simp

lemma unit_ident: "c \<in> set ''smhdwyi'' \<Longrightarrow> isIdentChar c"
proof -
  have "list_all isIdentChar ''smhdwyi''" by code_simp
  then show "c \<in> set ''smhdwyi'' \<Longrightarrow> isIdentChar c" unfolding list_all_iff by blast
qed

lemma step_word:
  assumes "isPositiveDuration st" "CHR ''.'' \<notin> set st"
  shows "plainWord (CHR '':'' # st)"
proof -
  from durations_digits(1) [OF assms(1)] obtain a f u where st: "st = a @ f @ [u]" "\<forall>c \<in> set a. isDecimalChar c" "u \<in> set ''smhdwyi''"
    "f = [] \<or> (\<exists>d. f = CHR ''.'' # d)" by (auto simp: isDurationLit_def digits_def)
  have "f = []" using st(1,4) assms(2) by auto
  have "isIdentChar c \<and> c \<noteq> CHR ''.''" if "c \<in> set st" for c
    using that st(1,2) unit_ident [OF st(3)] assms(2) \<open>f = []\<close> by (auto simp: isIdentChar_def)
  then show ?thesis by (simp add: plainWord_def list_all_iff) (simp add: isIdentChar_def isFirstIdentChar_def)
qed

lemma lexes_offset:
  assumes "isPositiveDuration (if HasPrefix off ''-'' then tl off else off)"
  shows "lexes off (offsetTokens off)"
proof (cases "HasPrefix off ''-''")
  case True
  then have off: "off = CHR ''-'' # tl off" by (cases off) (auto simp: HasPrefix_def)
  have d: "isPositiveDuration (tl off)" using assms True by simp
  from durations_digits [OF d] obtain c x where t: "tl off = c # x" "isDecimalChar c" by (cases "tl off") auto
  have "''-'' \<in> set symbols" by (simp add: symbols_def)
  then have n: "next_token (CHR ''-'' # c # y) = (Inr ''-'', c # y)" for y
    using next_symbol [of "''-''" c y] after_symbol(2) [OF t(2)] by simp
  have "lexes (CHR ''-'' # tl off) [''-'', tl off]"
    unfolding lexes_def
  proof (intro allI impI)
    fix r ts
    assume r: "wordStop r" "lexAll r = (ts, None)"
    have "lexAll (tl off @ r) = ([tl off] @ ts, None)" using lexes_duration [OF d] r by (simp add: lexes_def)
    from lexAll_step [OF n _ this [unfolded t(1) append_Cons]] show "lexAll ((CHR ''-'' # tl off) @ r) = ([''-'', tl off] @ ts, None)"
      by (simp add: t(1))
  qed
  then show ?thesis using off True by (simp add: offsetTokens_def)
qed (use assms lexes_duration in \<open>simp add: offsetTokens_def\<close>)

lemma lexes_suffix:
  assumes "printableSuffix w off st ih"
  shows "lexes (rollupSuffix w off st ih) (suffixTokens w off st ih)" "wordStop (rollupSuffix w off st ih)"
proof -
  let ?off = "if off \<noteq> [] then '' offset '' @ off else []" and ?offT = "if off \<noteq> [] then ''offset'' # offsetTokens off else []"
  have o: "lexes ?off ?offT"
  proof (cases "off = []")
    case False
    then have "lexes off (offsetTokens off)" using assms by (intro lexes_offset) (simp add: printableSuffix_def)
    from lexes_append [OF lexes_word [OF plainWords(6)] lexes_space [OF this]] False show ?thesis
      by (simp add: lexes_intros)
  qed (simp add: lexes_Nil)
  let ?st = "if st \<noteq> [] then '':'' @ st else if ih then '':'' else []" and ?stT = "if st \<noteq> [] then [CHR '':'' # st] else if ih then ['':''] else []"
  have "lexes ?st ?stT"
    using assms step_word plainWords(8) by (auto simp: printableSuffix_def intro: lexes_word lexes_Nil)
  from lexes_append [OF this lexes_brackets(4) [OF o]]
  have s: "lexes (?st @ CHR '']'' # ?off) (?stT @ '']'' # ?offT)" by simp
  have "lexes (w @ ?st @ CHR '']'' # ?off) ((if w \<noteq> [] then [w] else []) @ ?stT @ '']'' # ?offT)"
    using lexes_duration_append [OF _ s, of w] s assms by (cases "w = []") (simp_all add: printableSuffix_def)
  from lexes_brackets(3) [OF this] o show "lexes (rollupSuffix w off st ih) (suffixTokens w off st ih)"
    by (cases "w \<noteq> [] \<or> ih \<or> st \<noteq> []") (auto simp: rollupSuffix_def suffixTokens_def)
  show "wordStop (rollupSuffix w off st ih)" by (auto simp: rollupSuffix_def wordStop_def)
qed

lemma Itoa_number: "0 \<le> i \<Longrightarrow> numberText (Itoa i)"
proof -
  assume "0 \<le> i"
  then have i: "Itoa i = natDec (nat i)" using Itoa_of_nat [of "nat i"] by simp
  have "\<forall>c \<in> set (natDec (nat i)). isDecimalChar c" using natDec_decimal by (simp add: list_all_iff)
  then have t: "takeWhile isDecimalChar (natDec (nat i)) = natDec (nat i)" and d: "dropWhile isDecimalChar (natDec (nat i)) = []"
    by (simp_all add: takeWhile_all)
  show ?thesis unfolding numberText_def i Let_def t d using natDec_not_Nil by (simp add: exponentText_def)
qed

lemma lexes_expr: "printable L e \<Longrightarrow> lexes (exprString L e) (exprTokens L e)"
proof (induction L e rule: printable.induct)
  case (1 L s tokens)
  then show ?case by (simp add: lexes_quoted)
next
  case (2 L x)
  then show ?case by (simp add: lexes_number)
next
  case (3 L op b g j l r)
  let ?R = "parenthesize (isBinaryOpExpr r) (exprString L r)" and ?rT = "wrapTokens (isBinaryOpExpr r) (exprTokens L r)"
  let ?J = "if Op j \<noteq> [] then CHR '' '' # modifierString j else []" and ?jT = "if Op j \<noteq> [] then modifierTokens j else []"
  let ?G = "if Op g \<noteq> [] then CHR '' '' # modifierString g else []" and ?gT = "if Op g \<noteq> [] then modifierTokens g else []"
  let ?B = "if b then CHR '' '' # ''bool'' else []" and ?bT = "if b then [''bool''] else []"
  have r: "lexes (CHR '' '' # ?R) ?rT" using 3 by (simp add: lexes_space lexes_wrap)
  have "lexes ?J ?jT" using 3 plainWords(2) by (intro lexes_optional lexes_modifier) auto
  from lexes_append [OF this r] have j: "lexes (?J @ CHR '' '' # ?R) (?jT @ ?rT)" by simp
  have "lexes ?G ?gT" using 3 plainWords(1) by (intro lexes_optional lexes_modifier) auto
  from lexes_append [OF this j] have g: "lexes (?G @ ?J @ CHR '' '' # ?R) (?gT @ ?jT @ ?rT)" by (simp add: wordStop_def)
  have "lexes ?B ?bT" using plainWords(4) by (intro lexes_optional lexes_word) 
  from lexes_append [OF this g] have b: "lexes (?B @ ?G @ ?J @ CHR '' '' # ?R) (?bT @ ?gT @ ?jT @ ?rT)" by (simp add: wordStop_def)
  have "\<exists>t. ?B @ ?G @ ?J @ CHR '' '' # ?R = CHR '' '' # t" by simp
  then obtain t where t: "?B @ ?G @ ?J @ CHR '' '' # ?R = CHR '' '' # t" by blast
  have "lexes t (?bT @ ?gT @ ?jT @ ?rT)" using b unfolding t by (simp add: lexes_def lexAll_space)
  from lexes_op [OF _ this] 3 have "lexes (op @ ?B @ ?G @ ?J @ CHR '' '' # ?R) (op # ?bT @ ?gT @ ?jT @ ?rT)"
    unfolding t by simp
  from lexes_space [OF this] have o: "lexes (CHR '' '' # op @ ?B @ ?G @ ?J @ CHR '' '' # ?R) (op # ?bT @ ?gT @ ?jT @ ?rT)" .
  have "lexes (parenthesize (isBinaryOpExpr l) (exprString L l)) (wrapTokens (isBinaryOpExpr l) (exprTokens L l))"
    using 3 by (intro lexes_wrap) simp
  from lexes_append [OF this o] show ?case
    by (simp only: exprString.simps exprTokens.simps append.simps append_assoc stop_optional if_distrib)
next
  case (4 L f args)
  then show ?case using lexes_call [of f args "exprString L" "exprTokens L" "[]" "[]"] by (simp add: lexes_Nil wordStop_def)
next
  case (5 L f args m lim)
  let ?L = "if lim > 0 then CHR '' '' # ''limit '' @ Itoa lim else []" and ?lT = "if lim > 0 then [''limit'', Itoa lim] else []"
  let ?M = "if Op m \<noteq> [] then CHR '' '' # modifierString m else []" and ?mT = "if Op m \<noteq> [] then modifierTokens m else []"
  have "lexes (Itoa lim) [Itoa lim]" using 5 by (intro lexes_number Itoa_number) simp
  from lexes_append [OF lexes_word [OF plainWords(5)] lexes_space [OF this]] have "lexes ?L ?lT" by (simp add: lexes_intros)
  moreover have "lexes ?M ?mT" using 5 plainWords(3) by (intro lexes_optional lexes_modifier) auto
  ultimately have "lexes (?M @ ?L) (?mT @ ?lT)" by (intro lexes_append) (simp_all add: wordStop_def)
  moreover have "wordStop (?M @ ?L)" by (simp add: wordStop_def)
  moreover have "plainWord f" using 5 plainWords(7) by (auto simp: list_all_iff)
  moreover have "e \<in> set args \<Longrightarrow> lexes (exprString L e) (exprTokens L e)" for e using 5 by simp
  ultimately have "lexes (f @ argListString (map (exprString L) args) @ ?M @ ?L) (f # ''('' # joinTokens (map (exprTokens L) args) @ '')'' # ?mT @ ?lT)"
    by (intro lexes_call)
  then show ?case by (simp only: exprString.simps exprTokens.simps append.simps append_assoc)
next
  case (6 L e w off st ih)
  then show ?case using lexes_append [OF lexes_wrap lexes_suffix] by simp
next
  case (7 L r lfs lfes)
  then show ?case by (simp add: lexes_metric)
qed simp_all

end
