(* ===== verification/ExprParse.thy ===== *)
theory ExprParse
  imports ExprLex
begin

text \<open>
  The tokens of a printable expression are parsed (\<open>src/mateql/parser.go\<close>) to the expression, with
  parentheses where the printer wrote them and with strings and filters not yet expanded.
\<close>

section \<open>Reading tokens with something behind them\<close>

text \<open>A parser reads the tokens \<open>xs\<close> as \<open>v\<close> and stops at the token behind them, when that token is in \<open>F\<close>.\<close>

definition parses :: "'a parser \<Rightarrow> string list \<Rightarrow> (string \<Rightarrow> bool) \<Rightarrow> 'a \<Rightarrow> bool" where
  "parses p xs F v \<longleftrightarrow> (\<forall>ps u us zs. F u \<longrightarrow> restIs u us zs \<longrightarrow>
     (\<exists>qs. p (lexerAt ps (hd xs) (tl xs @ zs)) = (Inr v, lexerAt qs u us)))"

lemma parsesI:
  "(\<And>ps u us zs. F u \<Longrightarrow> restIs u us zs \<Longrightarrow> \<exists>qs. p (lexerAt ps (hd xs) (tl xs @ zs)) = (Inr v, lexerAt qs u us)) \<Longrightarrow> parses p xs F v"
  by (simp add: parses_def)

lemma parsesE:
  assumes "parses p xs F v" "F u" "restIs u us zs"
  obtains qs where "p (lexerAt ps (hd xs) (tl xs @ zs)) = (Inr v, lexerAt qs u us)"
  using assms unfolding parses_def by blast

lemma parses_weaken: "parses p xs F v \<Longrightarrow> (\<And>u. G u \<Longrightarrow> F u) \<Longrightarrow> parses p xs G v"
  by (simp add: parses_def)

lemma nextTok_head: "xs \<noteq> [] \<Longrightarrow> nextTok (lexerAt ps t (xs @ zs)) = (Inr (hd xs), lexerAt (t # ps) (hd xs) (tl xs @ zs))"
  by (cases xs) (simp_all add: nextTok_Cons)

section \<open>Lists\<close>

lemma joinTokens_Cons: "xss \<noteq> [] \<Longrightarrow> joinTokens (xs # xss) = xs @ '','' # joinTokens xss"
  by (cases xss) simp_all

definition followExpr :: "string \<Rightarrow> bool" where
  "followExpr u \<longleftrightarrow> u = [] \<or> u = '')'' \<or> u = '',''"

lemma parses_args:
  assumes "\<And>e. e \<in> set args \<Longrightarrow> parses pe (q e) followExpr (v e) \<and> q e \<noteq> [] \<and> hd (q e) \<noteq> '')''" "length args < k" "restIs u us zs"
  shows "\<exists>qs. parseArgListExpr_loop k pe acc (lexerAt ps t (joinTokens (map q args) @ '')'' # zs)) =
    (Inr (acc @ map v args), lexerAt qs u us)"
  using assms
proof (induction args arbitrary: k acc ps t)
  case Nil
  then show ?case by (cases k) (auto simp: andThen_at nextTok_Cons Next_rest ret_def)
next
  case (Cons e es)
  obtain m where k: "k = Suc m" using Cons.prems(2) by (cases k) auto
  from Cons.prems(1) [of e] have e: "parses pe (q e) followExpr (v e)" "q e \<noteq> []" "hd (q e) \<noteq> '')''" by auto
  show ?case
  proof (cases "es = []")
    case True
    obtain qs where "pe (lexerAt (t # ps) (hd (q e)) (tl (q e) @ '')'' # zs)) = (Inr (v e), lexerAt qs '')'' zs)"
      using parsesE [OF e(1), of "'')''" zs "'')'' # zs"] by (auto simp: followExpr_def)
    with True e show ?thesis using Cons.prems(3)
      by (simp add: k andThen_at nextTok_head lexerAt_ops Next_rest ret_def Let_def)
  next
    case False
    obtain qs where p: "pe (lexerAt (t # ps) (hd (q e)) (tl (q e) @ '','' # joinTokens (map q es) @ '')'' # zs)) =
        (Inr (v e), lexerAt qs '','' (joinTokens (map q es) @ '')'' # zs))"
      using parsesE [OF e(1), of "'',''" "joinTokens (map q es) @ '')'' # zs" "'','' # joinTokens (map q es) @ '')'' # zs"]
      by (auto simp: followExpr_def)
    have "\<exists>qs'. parseArgListExpr_loop m pe (acc @ [v e]) (lexerAt qs '','' (joinTokens (map q es) @ '')'' # zs)) =
        (Inr ((acc @ [v e]) @ map v es), lexerAt qs' u us)"
      using Cons.prems k by (intro Cons.IH) auto
    with False e p show ?thesis by (simp add: k joinTokens_Cons andThen_at nextTok_head lexerAt_ops Let_def)
  qed
qed

lemma parses_idents:
  assumes "list_all plainWord args" "length args < k" "restIs u us zs"
  shows "\<exists>qs. parseIdentList_loop k acc (lexerAt ps t (joinTokens (map (\<lambda>a. [a]) args) @ '')'' # zs)) = (Inr (acc @ args), lexerAt qs u us)"
  using assms
proof (induction args arbitrary: k acc ps t)
  case Nil
  then show ?case by (cases k) (auto simp: andThen_at nextTok_Cons Next_rest ret_def)
next
  case (Cons a as)
  obtain m where k: "k = Suc m" using Cons.prems(2) by (cases k) auto
  have a: "isIdentPrefix a" "a \<noteq> '')''" using Cons.prems(1) by (cases a; auto simp: plainWord_def isFirstIdentChar_def between_def)+
  show ?case
  proof (cases "as = []")
    case True
    with a Cons.prems(3) show ?thesis by (simp add: k andThen_at nextTok_Cons Next_rest ret_def Let_def)
  next
    case False
    have "\<exists>qs'. parseIdentList_loop m (acc @ [a]) (lexerAt (a # t # ps) '','' (joinTokens (map (\<lambda>a. [a]) as) @ '')'' # zs)) =
        (Inr ((acc @ [a]) @ as), lexerAt qs' u us)"
      using Cons.prems k by (intro Cons.IH) auto
    with False a show ?thesis by (simp add: k joinTokens_Cons andThen_at nextTok_Cons Let_def)
  qed
qed

lemma parses_modifier:
  assumes "printableModifier ops m" "Op m \<noteq> []" "list_all (\<lambda>op. isIdentPrefix op \<and> ToLower op = op) ops" "length (Args m) < n"
  shows "parses (parseModifierExpr n) (modifierTokens m) (\<lambda>u. True) m"
proof (rule parsesI)
  fix ps u us zs
  assume "restIs u us zs"
  moreover have "list_all plainWord (Args m)" using assms(1,2) by (auto simp: printableModifier_def list_all_iff)
  ultimately obtain qs where "parseIdentList_loop n [] (lexerAt (Op m # ps) ''('' (joinTokens (map (\<lambda>a. [a]) (Args m)) @ '')'' # zs)) =
      (Inr (Args m), lexerAt qs u us)" using parses_idents [of "Args m" n u us zs "[]" "Op m # ps" "''(''"] assms(4) by auto
  moreover have "isIdentPrefix (Op m)" "ToLower (Op m) = Op m" using assms(1-3) by (auto simp: printableModifier_def list_all_iff)
  ultimately show "\<exists>qs. parseModifierExpr n (lexerAt ps (hd (modifierTokens m)) (tl (modifierTokens m) @ zs)) = (Inr m, lexerAt qs u us)"
    by (simp add: parseModifierExpr_def parseIdentList_def modifierTokens_def andThen_at lexerAt_ops nextTok_Cons ret_def Let_def)
qed

section \<open>Tokens at the ends\<close>

definition exprEnds :: "string list" where
  "exprEnds = [[], '')'', '','']"

definition suffixStarts :: "string list" where
  "suffixStarts = [''['', ''offset'']"

definition followBare :: "string \<Rightarrow> bool" where
  "followBare u \<longleftrightarrow> u \<in> set suffixStarts \<or> u \<in> set exprEnds \<or> u \<in> set binaryOps"

definition follow :: "string \<Rightarrow> bool" where
  "follow u \<longleftrightarrow> u \<in> set exprEnds \<or> u \<in> set binaryOps"

lemma followExpr_iff: "followExpr u \<longleftrightarrow> u \<in> set exprEnds"
  by (simp add: followExpr_def exprEnds_def)

definition quietToken :: "string \<Rightarrow> bool" where
  "quietToken u \<longleftrightarrow> u \<noteq> ''('' \<and> u \<noteq> ''{'' \<and> ToLower u = u \<and> \<not> isAggrFuncModifier u \<and> u \<noteq> ''limit'' \<and>
     (isEOF u \<or> isOffset u \<or> isIdentPrefix u \<or> isBinaryOp u \<or> u = ''['' \<or> u = '')'' \<or> u = '','')"

lemma follow_tokens:
  "list_all quietToken suffixStarts" "list_all quietToken exprEnds" "list_all quietToken binaryOps"
  "list_all (\<lambda>u. \<not> isOffset u \<and> u \<noteq> ''['' \<and> isBinaryOp u \<and> u \<noteq> '','' \<and> u \<noteq> '')'') binaryOps"
  "list_all (\<lambda>u. \<not> isOffset u \<and> u \<noteq> ''['' \<and> \<not> isBinaryOp u \<and> u \<noteq> ''+'') exprEnds"
  by code_simp+

lemma followBare_quiet: "followBare u \<Longrightarrow> quietToken u"
  using follow_tokens(1-3) unfolding list_all_iff followBare_def by blast

lemma follow_facts:
  "follow u \<Longrightarrow> \<not> isOffset u \<and> u \<noteq> ''['' \<and> followBare u" "followExpr u \<Longrightarrow> \<not> isBinaryOp u \<and> follow u \<and> u \<noteq> ''+''"
  using follow_tokens(4,5) unfolding list_all_iff follow_def followBare_def followExpr_iff by blast+

text \<open>A token that an expression starts with.\<close>

definition startToken :: "string \<Rightarrow> bool" where
  "startToken h \<longleftrightarrow> h \<noteq> [] \<and> h \<noteq> '')'' \<and> \<not> isWith h \<and> \<not> isBinaryOpBoolModifier h \<and> \<not> isBinaryOpGroupModifier h \<and> \<not> isBinaryOpJoinModifier h"

lemma no_word:
  assumes "byte c < 0x80" "toLowerByte c = c" "\<not> isFirstIdentChar c"
  shows "\<not> isInfOrNaN (c # x)" "c \<noteq> CHR '')'' \<Longrightarrow> startToken (c # x)"
proof -
  have "c \<noteq> CHR 0xC4" "c \<noteq> CHR 0xE2" using assms(1) by auto
  then have t: "ToLower (c # x) = c # ToLower x" using assms(2) by simp
  have "c \<noteq> CHR ''i''" "c \<noteq> CHR ''n''" "c \<noteq> CHR ''w''" "c \<noteq> CHR ''b''" "c \<noteq> CHR ''o''" "c \<noteq> CHR ''g''"
    using assms(3) by (auto simp: isFirstIdentChar_def between_def)
  then show "\<not> isInfOrNaN (c # x)" "c \<noteq> CHR '')'' \<Longrightarrow> startToken (c # x)"
    unfolding isInfOrNaN_def startToken_def isWith_def isBinaryOpBoolModifier_def isBinaryOpGroupModifier_def isBinaryOpJoinModifier_def t
    by (simp_all add: Let_def)
qed

lemma digit_no_word: "isDecimalChar c \<Longrightarrow> byte c < 0x80 \<and> toLowerByte c = c \<and> \<not> isFirstIdentChar c \<and> c \<noteq> CHR '')''"
  by (auto simp: isDecimalChar_def between_def toLowerByte_def isFirstIdentChar_def)

lemma quote_no_word: "byte dquote < 0x80 \<and> toLowerByte dquote = dquote \<and> \<not> isFirstIdentChar dquote"
  by code_simp

lemma quote_facts: "\<not> isInfOrNaN (Quote L s)" "startToken (Quote L s)" "\<not> isPositiveNumberPrefix (Quote L s)"
  using no_word [of dquote "quoteBody L s @ [dquote]"] quote_no_word by (simp_all add: Quote_def isDecimalChar_def between_def)

lemma number_facts:
  assumes "numberText t"
  shows "isPositiveNumberPrefix t" "startToken t"
proof -
  obtain c x where t: "t = c # x" "isDecimalChar c"
    using numberText_parts [OF assms] by (metis append_Cons list.set_intros(1) neq_Nil_conv)
  then show "isPositiveNumberPrefix t" "startToken t" using digit_no_word no_word(2) by auto
qed

lemma freeWord_start: "freeWord t \<Longrightarrow> t \<noteq> [] \<Longrightarrow> isIdentPrefix t \<Longrightarrow> startToken t"
  by (auto simp: freeWord_def startToken_def isFirstIdentChar_def between_def)

lemma aggr_tokens:
  "list_all (\<lambda>f. startToken f \<and> ToLower f = f \<and> isAggrFunc f \<and> isIdentPrefix f \<and> \<not> isPositiveNumberPrefix f \<and> \<not> isInfOrNaN f \<and>
     \<not> isStringPrefix f) aggrFuncs"
  by code_simp

lemma identPrefix_facts:
  assumes "isIdentPrefix t"
  shows "\<not> isPositiveNumberPrefix t" "\<not> isStringPrefix t" "t \<noteq> []"
proof -
  from assms obtain c r where "t = c # r" "c = bslash \<or> isFirstIdentChar c"
    by (cases t) (auto split: if_splits)
  then show "\<not> isPositiveNumberPrefix t" "\<not> isStringPrefix t" "t \<noteq> []"
    by (auto simp: isDecimalChar_def isFirstIdentChar_def between_def)
qed

lemma plainWord_prefix: "plainWord t \<Longrightarrow> isIdentPrefix t"
  by (cases t) (auto simp: plainWord_def)

lemma metricTokens_head:
  assumes "readableMetric L lfs" "hasNonEmptyMetricGroup lfs \<Longrightarrow> freeWord (esc True (Value (lfs ! 0)))"
  shows "metricTokens L lfs \<noteq> []" "startToken (hd (metricTokens L lfs))"
proof -
  have "startToken ''{''" by code_simp
  moreover have "startToken (esc True (Value (lfs ! 0)))" if h: "hasNonEmptyMetricGroup lfs"
  proof -
    have "Value (lfs ! 0) \<noteq> []" using assms(1) h by (simp add: readableMetric_def readableName_def Let_def)
    with assms(2) [OF h] show ?thesis by (intro freeWord_start) (simp_all add: esc_not_Nil token_facts(1) del: isIdentPrefix.simps)
  qed
  ultimately show "metricTokens L lfs \<noteq> []" "startToken (hd (metricTokens L lfs))"
    by (auto simp: metricTokens_def Let_def)
qed

lemma paren_start: "startToken ''(''"
  by code_simp

lemma exprTokens_head:
  "printable L e \<Longrightarrow> exprTokens L e \<noteq> [] \<and> startToken (hd (exprTokens L e))"
proof (induction L e rule: printable.induct)
  case (3 L op b g j l r)
  then show ?case using paren_start by (auto simp: wrapTokens_def)
next
  case (4 L f args)
  then show ?case using freeWord_start [of f] plainWord_prefix [of f] by (auto simp: plainWord_def)
next
  case (6 L e w off st ih)
  then show ?case using paren_start by (auto simp: wrapTokens_def)
next
  case (7 L r lfs lfes)
  then show ?case using metricTokens_head [of L lfs] by simp
qed (use quote_facts number_facts aggr_tokens in \<open>auto simp: list_all_iff\<close>)

lemma startToken_facts: "startToken h \<Longrightarrow> h \<noteq> '')'' \<and> \<not> isWith h"
  by (simp add: startToken_def)

section \<open>Strings, numbers and metrics\<close>

abbreviation single0 :: "golib \<Rightarrow> nat \<Rightarrow> expr parser" where
  "single0 L n \<equiv> parseSingleExprWithoutRollupSuffix L n (parseSingleExpr L n) (parseExpr L n)"

lemma parses_string: "parses (single0 L (Suc n)) [Quote L s] (\<lambda>u. u \<noteq> ''+'') (StringExpr [] [Quote L s])"
  by (rule parsesI)
    (simp add: parseSingleExprWithoutRollupSuffix_def parseStringExpr_def andThen_at lexerAt_ops nextTok_rest ret_def quote_facts token_facts Let_def)

lemma parses_number:
  assumes "numberText t" "ParseFloat t = Inr x"
  shows "parses (single0 L n) [t] (\<lambda>u. True) (NumberExpr x)"
  using number_facts(1) [OF assms(1)] assms(2)
  by (intro parsesI) (simp add: parseSingleExprWithoutRollupSuffix_def parsePositiveNumberExpr_def andThen_at lexerAt_ops Next_rest ret_def)

text \<open>A metric: its name, its filters, or both.\<close>

lemma metric_labels:
  "readableMetric L lfs \<Longrightarrow> list_all (\<lambda>lf. Label lf \<noteq> []) lfs"
  by (auto simp: readableMetric_def readableFilter_def readableLabel_def list_all_iff)

lemma parses_metric:
  assumes "readableMetric L lfs" "hasNonEmptyMetricGroup lfs \<Longrightarrow> freeWord (esc True (Value (lfs ! 0)))" "length lfs \<le> n"
  shows "parses (single0 L (Suc n)) (metricTokens L lfs) followBare (MetricExpr 0 [] (parsedMetric L lfs))"
proof (rule parsesI)
  fix ps v vs zs
  assume v: "followBare v" "restIs v vs zs"
  note labels = metric_labels [OF assms(1)]
  note eqs = metricTokens_def parsedMetric_def andThen_at lexerAt_ops ret_def nextTok_Cons nextTok_rest [OF v(2)] Next_rest [OF v(2)]
    parseSingleExprWithoutRollupSuffix_def parseMetricExpr_def parseIdentExpr_def parseLabelFilters_def Let_def single_brace
  show "\<exists>qs. single0 L (Suc n) (lexerAt ps (hd (metricTokens L lfs)) (tl (metricTokens L lfs) @ zs)) =
      (Inr (MetricExpr 0 [] (parsedMetric L lfs)), lexerAt qs v vs)"
  proof (cases "hasNonEmptyMetricGroup lfs")
    case False
    obtain k where "n = length lfs + k" using assms(3) le_Suc_ex by blast
    then obtain qs where "parseLabelFilters_loop (Suc n) [] (lexerAt ps ''{'' (listTokens L lfs @ ''}'' # zs)) =
        (Inr (map (parsedFilter L) lfs), lexerAt qs v vs)"
      using parseLabelFilters_at [OF labels v(2), of k "[]" ps "''{''"] by auto
    with False show ?thesis by (simp add: eqs del: parseLabelFilters_loop.simps isIdentPrefix.simps isStringPrefix.simps isPositiveNumberPrefix.simps)
  next
    case True
    let ?t = "esc True (Value (lfs ! 0))"
    obtain lf ks where l: "lfs = lf # ks" using True by (cases lfs) (auto simp: hasNonEmptyMetricGroup_def)
    have "Value (lfs ! 0) \<noteq> []" using assms(1) True by (simp add: readableMetric_def readableName_def Let_def)
    then have t: "isIdentPrefix ?t" "\<not> isPositiveNumberPrefix ?t" "\<not> isStringPrefix ?t" by (simp_all add: token_facts name_facts)
    have w: "\<not> isInfOrNaN ?t" "\<not> isAggrFunc ?t" using assms(2) [OF True] by (simp_all add: freeWord_def)
    show ?thesis
    proof (cases ks)
      case Nil
      from followBare_quiet [OF v(1)] have "isEOF v \<or> isOffset v \<or> isIdentPrefix v \<or> isBinaryOp v \<or> v = ''['' \<or> v = '')'' \<or> v = '',''"
        "v \<noteq> ''(''" "v \<noteq> ''{''" by (auto simp: quietToken_def simp del: isIdentPrefix.simps)
      with Nil True t w l show ?thesis by (simp add: eqs del: isIdentPrefix.simps isStringPrefix.simps isPositiveNumberPrefix.simps) blast
    next
      case (Cons k js)
      obtain i where "n = length ks + i" using assms(3) l le_Suc_ex [of "length ks" n] by auto
      moreover have "list_all (\<lambda>lf. Label lf \<noteq> []) ks" using labels l by simp
      ultimately obtain qs where "parseLabelFilters_loop (Suc n) [] (lexerAt (?t # ps) ''{'' (listTokens L ks @ ''}'' # zs)) =
          (Inr (map (parsedFilter L) ks), lexerAt qs v vs)"
        using parseLabelFilters_at [OF _ v(2), of ks i "[]" "?t # ps" "''{''"] by auto
      with Cons True t w l show ?thesis
        by (simp add: eqs del: parseLabelFilters_loop.simps isIdentPrefix.simps isStringPrefix.simps isPositiveNumberPrefix.simps)
    qed
  qed
qed

section \<open>Calls and parentheses\<close>

abbreviation readsArgs :: "expr parser \<Rightarrow> ('a \<Rightarrow> string list) \<Rightarrow> ('a \<Rightarrow> expr) \<Rightarrow> 'a list \<Rightarrow> bool" where
  "readsArgs pe q v args \<equiv> (\<forall>e \<in> set args. parses pe (q e) followExpr (v e) \<and> q e \<noteq> [] \<and> hd (q e) \<noteq> '')'')"

lemma parses_argList:
  assumes "readsArgs pe q v args" "length args < n" "restIs u us zs"
  shows "\<exists>qs. parseArgListExpr n pe (lexerAt ps ''('' (joinTokens (map q args) @ '')'' # zs)) = (Inr (map v args), lexerAt qs u us)"
  using parses_args [of args pe q v n u us zs "[]" ps "''(''"] assms
  by (simp add: parseArgListExpr_def andThen_at lexerAt_ops)

lemma parses_func:
  assumes "readsArgs (parseExpr L n) q v args" "length args < n" "isIdentPrefix f" "freeWord f"
  shows "parses (single0 L n) (f # ''('' # joinTokens (map q args) @ ['')'']) (\<lambda>u. True) (FuncExpr f (map v args))"
proof (rule parsesI)
  fix ps u us zs
  assume u: "restIs u us zs"
  from parses_argList [OF assms(1,2) u, of "f # ps"] obtain qs where
    "parseArgListExpr n (parseExpr L n) (lexerAt (f # ps) ''('' (joinTokens (map q args) @ '')'' # zs)) = (Inr (map v args), lexerAt qs u us)" by blast
  moreover have "\<not> isInfOrNaN f" "\<not> isAggrFunc f" using assms(4) by (simp_all add: freeWord_def)
  moreover have "\<not> isEOF ''(''" "\<not> isOffset ''(''" "\<not> isIdentPrefix ''(''" "\<not> isBinaryOp ''(''" by code_simp+
  ultimately show "\<exists>qs. single0 L n (lexerAt ps (hd (f # ''('' # joinTokens (map q args) @ ['')''])) (tl (f # ''('' # joinTokens (map q args) @ ['')'']) @ zs)) =
      (Inr (FuncExpr f (map v args)), lexerAt qs u us)"
    using identPrefix_facts [OF assms(3)] assms(3)
    by (simp add: parseSingleExprWithoutRollupSuffix_def parseIdentExpr_def parseFuncExpr_def andThen_at lexerAt_ops nextTok_Cons ret_def Let_def
        del: isIdentPrefix.simps isStringPrefix.simps isPositiveNumberPrefix.simps)
qed

lemma parses_parens:
  assumes "parses (parseExpr L (Suc n)) xs followExpr v" "xs \<noteq> []" "hd xs \<noteq> '')''"
  shows "parses (single0 L (Suc n)) (''('' # xs @ ['')'']) (\<lambda>u. True) (ParensExpr [v])"
proof (rule parsesI)
  fix ps u us zs
  assume u: "restIs u us zs"
  obtain qs where q: "parseExpr L (Suc n) (lexerAt (''('' # ps) (hd xs) (tl xs @ '')'' # zs)) = (Inr v, lexerAt qs '')'' zs)"
    using parsesE [OF assms(1), of "'')''" zs "'')'' # zs"] by (auto simp: followExpr_def)
  have "\<not> isPositiveNumberPrefix ''(''" "\<not> isInfOrNaN ''(''" "\<not> isStringPrefix ''(''" "\<not> isIdentPrefix ''(''" by code_simp+
  with assms(2,3) show "\<exists>qs. single0 L (Suc n) (lexerAt ps (hd (''('' # xs @ ['')''])) (tl (''('' # xs @ ['')'']) @ zs)) = (Inr (ParensExpr [v]), lexerAt qs u us)"
    by (simp add: parseSingleExprWithoutRollupSuffix_def parseParensExpr_def andThen_at lexerAt_ops nextTok_head q Next_rest [OF u] ret_def Let_def
        del: isIdentPrefix.simps isStringPrefix.simps isPositiveNumberPrefix.simps)
qed

text \<open>An aggregate, with its modifier and limit.\<close>

definition parseLimit :: "string \<Rightarrow> expr list \<Rightarrow> ModifierExpr \<Rightarrow> expr parser" where
  "parseLimit name args modifier =
     andThen tok (\<lambda>t.
     if ToLower t = ''limit'' then
       andThen nextTok (\<lambda>t.
       case Atoi t of
         Inl e \<Rightarrow> fail (Wrapf ''cannot parse limit %q: %s'' [t] e)
       | Inr limit \<Rightarrow> andThen Next (\<lambda>_. ret (AggrFuncExpr name args modifier limit)))
     else ret (AggrFuncExpr name args modifier 0))"

lemma parseAggrArgs_limit:
  "parseAggrArgs n pe name modifier =
     andThen (parseArgListExpr n pe) (\<lambda>args.
     andThen tok (\<lambda>t.
     andThen (if Op modifier = [] \<and> isAggrFuncModifier t then parseModifierExpr n else ret modifier) (parseLimit name args)))"
  unfolding parseAggrArgs_def parseLimit_def [abs_def] by (rule refl)

lemma limit_tokens: "quietToken ''limit'' = False" "ToLower ''limit'' = ''limit''" "\<not> isAggrFuncModifier ''limit''"
  by code_simp+

lemma Atoi_Itoa:
  assumes "0 \<le> i" "i < 2 ^ 63"
  shows "Atoi (Itoa i) = Inr i"
proof -
  have i: "Itoa i = natDec (nat i)" using assms(1) Itoa_of_nat [of "nat i"] by simp
  note d = natDec_decimal [of "nat i"]
  then have "natDec (nat i) ! 0 \<noteq> CHR ''-''" "natDec (nat i) ! 0 \<noteq> CHR ''+''"
    by (cases "natDec (nat i)"; auto simp: isDecimalChar_def between_def)+
  moreover have "decDigits (natDec (nat i)) 0 = i"
    using assms(1) by (simp add: decDigits_natDec)
  ultimately show ?thesis using d assms(2) unfolding i by (simp add: Atoi_def)
qed

lemma limit_at:
  assumes "0 \<le> lim" "lim < 2 ^ 63" "quietToken u" "restIs u us zs"
    and "restIs t ts ((if lim > 0 then [''limit'', Itoa lim] else []) @ zs)"
  shows "\<exists>qs. parseLimit name args m (lexerAt ps t ts) = (Inr (AggrFuncExpr name args m lim), lexerAt qs u us)"
proof (cases "lim > 0")
  case True
  with assms(5) have t: "t = ''limit''" "ts = Itoa lim # zs" by (auto simp: restIs_def)
  have "Atoi (Itoa lim) = Inr lim" using assms(1,2) by (rule Atoi_Itoa)
  then show ?thesis unfolding t
    by (simp add: parseLimit_def andThen_at lexerAt_ops limit_tokens nextTok_Cons Next_rest [OF assms(4)] ret_def del: ToLower.simps)
next
  case False
  with assms have "t = u" "ts = us" "lim = 0" by (auto simp: restIs_def)
  moreover have "ToLower u \<noteq> ''limit''" using assms(3) by (simp add: quietToken_def)
  ultimately show ?thesis by (simp add: parseLimit_def andThen_at lexerAt_ops ret_def)
qed

lemma aggr_tail:
  assumes m: "printableModifier [''by'', ''without''] m" "length (Args m) < n" and lim: "0 \<le> lim" "lim < 2 ^ 63"
    and u: "quietToken u" "restIs u us zs"
    and t: "restIs t ts ((if Op m \<noteq> [] then modifierTokens m else []) @ (if lim > 0 then [''limit'', Itoa lim] else []) @ zs)"
  shows "\<exists>qs. andThen tok (\<lambda>t. andThen (if Op noModifier = [] \<and> isAggrFuncModifier t then parseModifierExpr n else ret noModifier)
      (parseLimit name args)) (lexerAt ps t ts) = (Inr (AggrFuncExpr name args m lim), lexerAt qs u us)"
proof (cases "Op m = []")
  case True
  then have nm: "m = noModifier" using m(1) by (simp add: printableModifier_def noModifier_def)
  have t': "restIs t ts ((if lim > 0 then [''limit'', Itoa lim] else []) @ zs)" using t True by simp
  have "\<not> isAggrFuncModifier t"
    using t' u limit_tokens by (cases "lim > 0") (auto simp: restIs_def quietToken_def)
  with limit_at [OF lim u t', of name args m ps] nm show ?thesis by (simp add: andThen_at lexerAt_ops ret_def)
next
  case False
  have words: "list_all (\<lambda>op. isIdentPrefix op \<and> ToLower op = op) [''by'', ''without'']" "list_all isAggrFuncModifier [''by'', ''without'']" by code_simp+
  obtain t1 ts1 where t1: "restIs t1 ts1 ((if lim > 0 then [''limit'', Itoa lim] else []) @ zs)"
    using u(2) by (cases "lim > 0") (auto simp: restIs_def)
  have "isAggrFuncModifier (Op m)" using m(1) False words(2) by (auto simp: printableModifier_def)
  moreover have "t = hd (modifierTokens m)" "ts = tl (modifierTokens m) @ (if lim > 0 then [''limit'', Itoa lim] else []) @ zs"
    using t False by (auto simp: restIs_def modifierTokens_def)
  moreover obtain qs where "parseModifierExpr n (lexerAt ps (hd (modifierTokens m)) (tl (modifierTokens m) @ (if lim > 0 then [''limit'', Itoa lim] else []) @ zs)) =
      (Inr m, lexerAt qs t1 ts1)"
    using parsesE [OF parses_modifier [OF m(1) False words(1) m(2)] TrueI t1] by blast
  moreover obtain qs' where "parseLimit name args m (lexerAt qs t1 ts1) = (Inr (AggrFuncExpr name args m lim), lexerAt qs' u us)"
    using limit_at [OF lim u t1] by blast
  ultimately show ?thesis by (simp add: andThen_at lexerAt_ops noModifier_def modifierTokens_def)
qed

lemma parses_aggr:
  assumes args: "readsArgs (parseExpr L n) q v args" "length args < n"
    and m: "printableModifier [''by'', ''without''] m" "length (Args m) < n" and lim: "0 \<le> lim" "lim < 2 ^ 63"
    and f: "f \<in> set aggrFuncs"
  shows "parses (single0 L n) (f # ''('' # joinTokens (map q args) @ '')'' # (if Op m \<noteq> [] then modifierTokens m else []) @
      (if lim > 0 then [''limit'', Itoa lim] else [])) quietToken (AggrFuncExpr f (map v args) m lim)"
proof (rule parsesI)
  fix ps u us zs
  assume u: "quietToken u" "restIs u us zs"
  let ?tail = "(if Op m \<noteq> [] then modifierTokens m else []) @ (if lim > 0 then [''limit'', Itoa lim] else []) @ zs"
  obtain t ts where t: "restIs t ts ?tail"
    using u(2) by (cases "Op m = []"; cases "lim > 0") (auto simp: restIs_def modifierTokens_def)
  obtain qs where a: "parseArgListExpr n (parseExpr L n) (lexerAt (f # ps) ''('' (joinTokens (map q args) @ '')'' # ?tail)) = (Inr (map v args), lexerAt qs t ts)"
    using parses_argList [OF args t] by blast
  obtain qs' where l: "andThen tok (\<lambda>t. andThen (if Op noModifier = [] \<and> isAggrFuncModifier t then parseModifierExpr n else ret noModifier)
      (parseLimit f (map v args))) (lexerAt qs t ts) = (Inr (AggrFuncExpr f (map v args) m lim), lexerAt qs' u us)"
    using aggr_tail [OF m lim u t] by blast
  have "ToLower f = f" "isAggrFunc f" "isIdentPrefix f" "\<not> isPositiveNumberPrefix f" "\<not> isInfOrNaN f" "\<not> isStringPrefix f"
    using aggr_tokens f unfolding list_all_iff by blast+
  moreover have "\<not> isEOF ''(''" "\<not> isOffset ''(''" "\<not> isIdentPrefix ''(''" "\<not> isBinaryOp ''(''" by code_simp+
  moreover have "parseAggrArgs n (parseExpr L n) f noModifier (lexerAt (f # ps) ''('' (joinTokens (map q args) @ '')'' # ?tail)) =
      (Inr (AggrFuncExpr f (map v args) m lim), lexerAt qs' u us)"
    unfolding parseAggrArgs_limit andThen_at [of "parseArgListExpr n (parseExpr L n)"] a using l by simp
  ultimately show "\<exists>qs. single0 L n (lexerAt ps (hd (f # ''('' # joinTokens (map q args) @ '')'' # (if Op m \<noteq> [] then modifierTokens m else []) @
      (if lim > 0 then [''limit'', Itoa lim] else []))) (tl (f # ''('' # joinTokens (map q args) @ '')'' # (if Op m \<noteq> [] then modifierTokens m else []) @
      (if lim > 0 then [''limit'', Itoa lim] else [])) @ zs)) = (Inr (AggrFuncExpr f (map v args) m lim), lexerAt qs u us)"
    by (simp add: parseSingleExprWithoutRollupSuffix_def parseIdentExpr_def parseAggrFuncExpr_def andThen_at lexerAt_ops nextTok_Cons ret_def Let_def
        del: isIdentPrefix.simps isStringPrefix.simps isPositiveNumberPrefix.simps ToLower.simps)
qed

section \<open>Rollup suffixes\<close>

lemma duration_facts:
  assumes "isPositiveDuration d"
  shows "d \<noteq> []" "d \<noteq> ''-''" "\<not> HasPrefix d ''-''" "\<not> HasPrefix d '':''" "d \<noteq> '']''"
proof -
  obtain c x where "d = c # x" "isDecimalChar c" using durations_digits(2,3) [OF assms] by (cases d) auto
  then show "d \<noteq> []" "d \<noteq> ''-''" "\<not> HasPrefix d ''-''" "\<not> HasPrefix d '':''" "d \<noteq> '']''"
    by (auto simp: HasPrefix_def isDecimalChar_def between_def)
qed

lemma duration_at:
  assumes "isPositiveDuration d" "restIs u us zs"
  shows "parseDuration (lexerAt ps d zs) = (Inr d, lexerAt (d # ps) u us)"
  using duration_facts [OF assms(1)] assms(1)
  by (simp add: parseDuration_def andThen_at lexerAt_ops ret_def Next_rest [OF assms(2)])

lemma positiveDuration_at:
  assumes "isPositiveDuration d" "restIs u us zs"
  shows "parsePositiveDuration (lexerAt ps d zs) = (Inr d, lexerAt (d # ps) u us)"
  using duration_facts [OF assms(1)]
  by (simp add: parsePositiveDuration_def andThen_at duration_at [OF assms] ret_def)

lemma dropColon_at:
  "modifyS (\<lambda>lx. lx\<lparr>Token := drop 1 (Token lx)\<rparr>) (lexerAt ps t ts) = (Inr (), lexerAt ps (drop 1 t) ts)"
  by (simp add: modifyS_def lexerAt_def)

lemma offset_at:
  assumes "isPositiveDuration (if HasPrefix off ''-'' then tl off else off)" "off \<noteq> []" "restIs u us zs"
  shows "\<exists>qs. parseOffset (lexerAt ps ''offset'' (offsetTokens off @ zs)) = (Inr off, lexerAt qs u us)"
proof -
  have o: "isOffset ''offset''" by code_simp
  show ?thesis
  proof (cases "HasPrefix off ''-''")
    case True
    then have off: "''-'' @ tl off = off" by (cases off) (auto simp: HasPrefix_def)
    have d: "isPositiveDuration (tl off)" using assms(1) True by simp
    with True off o show ?thesis
      by (simp add: parseOffset_def parseDuration_def offsetTokens_def andThen_at lexerAt_ops ret_def Next_rest [OF assms(3)] Let_def)
  next
    case False
    with assms(1) have d: "isPositiveDuration off" by simp
    from False o show ?thesis
      by (simp add: parseOffset_def offsetTokens_def andThen_at lexerAt_ops duration_at [OF d assms(3)])
  qed
qed

lemma window_at:
  assumes "printableSuffix w off st ih" "w \<noteq> [] \<or> ih \<or> st \<noteq> []" "restIs u us zs"
  shows "\<exists>qs. parseWindowAndStep (lexerAt ps ''['' ((if w \<noteq> [] then [w] else []) @
      (if st \<noteq> [] then [CHR '':'' # st] else if ih then ['':''] else []) @ '']'' # zs)) = (Inr (w, st, ih), lexerAt qs u us)"
proof -
  let ?S = "if st \<noteq> [] then [CHR '':'' # st] else if ih then ['':''] else []"
  have p: "HasPrefix (CHR '':'' # x) '':''" "\<not> HasPrefix '']'' '':''" for x by (simp_all add: HasPrefix_def)
  have st: "st \<noteq> [] \<Longrightarrow> isPositiveDuration st \<and> \<not> ih" and w: "w \<noteq> [] \<Longrightarrow> isPositiveDuration w"
    using assms(1) by (simp_all add: printableSuffix_def)
  note eqs = andThen_at lexerAt_ops nextTok_Cons ret_def dropColon_at [unfolded One_nat_def] Next_rest [OF assms(3)] p
  define tail :: "string parser \<Rightarrow> (string \<times> string \<times> bool) parser" where
    "tail = (\<lambda>m. andThen m (\<lambda>window.
     andThen tok (\<lambda>t.
     andThen
       (if HasPrefix t '':'' then
          andThen (modifyS (\<lambda>lx. lx\<lparr>Token := drop 1 (Token lx)\<rparr>)) (\<lambda>_.
          andThen tok (\<lambda>t.
          andThen (if t = [] then andThen nextTok (\<lambda>t. ret (t = '']'')) else ret False) (\<lambda>inheritStep.
          andThen tok (\<lambda>t.
          andThen (if t \<noteq> '']'' then parsePositiveDuration else ret []) (\<lambda>step.
          ret (step, inheritStep))))))
        else ret ([], False)) (\<lambda>(step, inheritStep).
     andThen tok (\<lambda>t.
     if t \<noteq> '']'' then failf ''windowAndStep: unexpected token %q; want \"]\"'' [t]
     else andThen Next (\<lambda>_. ret (window, step, inheritStep)))))))"
  have step: "\<exists>qs. tail m s = (Inr (w, st, ih), lexerAt qs u us)" if "m s = (Inr w, lexerAt ps' t ts)" "t # ts = ?S @ '']'' # zs" for m s ps' t ts
  proof (cases "st = []")
    case False
    with that have t: "t = CHR '':'' # st" "ts = '']'' # zs" by simp_all
    from st [OF False] duration_facts(1,5) show ?thesis unfolding tail_def
      by (simp add: eqs that(1) t positiveDuration_at [OF _ restIs_Cons])
  next
    case True
    show ?thesis
    proof (cases ih)
      case ih: True
      with True that have t: "t = '':''" "ts = '']'' # zs" by simp_all
      show ?thesis unfolding tail_def by (simp add: eqs that(1) t True ih)
    next
      case ih: False
      with True that have t: "t = '']''" "ts = zs" by simp_all
      show ?thesis unfolding tail_def by (simp add: eqs that(1) t True ih)
    qed
  qed
  obtain t ts where t: "t # ts = ?S @ '']'' # zs" by (cases "?S @ '']'' # zs") auto
  have eq: "parseWindowAndStep (lexerAt ps ''['' (x # xs)) = tail (if \<not> HasPrefix x '':'' then parsePositiveDuration else ret []) (lexerAt (''['' # ps) x xs)" for x xs
    unfolding parseWindowAndStep_def tail_def by (simp add: andThen_at [of tok] andThen_at [of nextTok] lexerAt_ops nextTok_Cons)
  show ?thesis
  proof (cases "w = []")
    case True
    with assms(2) have "HasPrefix t '':''" using t p by (auto split: if_splits)
    then have "\<exists>qs. tail (if \<not> HasPrefix t '':'' then parsePositiveDuration else ret []) (lexerAt (''['' # ps) t ts) = (Inr (w, st, ih), lexerAt qs u us)"
      using True by (intro step [OF _ t]) (simp add: ret_def)
    then show ?thesis using True unfolding eq [symmetric] t by simp
  next
    case False
    from w [OF False] have wd: "isPositiveDuration w" .
    have "\<exists>qs. tail (if \<not> HasPrefix w '':'' then parsePositiveDuration else ret []) (lexerAt (''['' # ps) w (t # ts)) = (Inr (w, st, ih), lexerAt qs u us)"
      by (rule step [OF _ t]) (simp add: duration_facts(4) [OF wd] positiveDuration_at [OF wd restIs_Cons])
    then show ?thesis using False unfolding eq [symmetric] t by simp
  qed
qed

lemma suffix_at:
  assumes "printableSuffix w off st ih" "restIs u us zs" "\<not> isOffset u"
  shows "\<exists>qs. parseRollupExpr arg (lexerAt ps (hd (suffixTokens w off st ih)) (tl (suffixTokens w off st ih) @ zs)) =
    (Inr (RollupExpr arg w off st ih), lexerAt qs u us)"
proof -
  have o: "isOffset ''offset''" by code_simp
  let ?offT = "if off \<noteq> [] then ''offset'' # offsetTokens off else []"
  have off: "off \<noteq> [] \<Longrightarrow> isPositiveDuration (if HasPrefix off ''-'' then tl off else off)" using assms(1) by (simp add: printableSuffix_def)
  show ?thesis
  proof (cases "w \<noteq> [] \<or> ih \<or> st \<noteq> []")
    case True
    obtain t ts where t: "restIs t ts (?offT @ zs)" using assms(2) by (cases "off = []") (auto simp: restIs_def)
    define X where "X = (if w \<noteq> [] then [w] else []) @ (if st \<noteq> [] then [CHR '':'' # st] else if ih then ['':''] else []) @ '']'' # ?offT @ zs"
    obtain qs where q: "parseWindowAndStep (lexerAt ps ''['' X) = (Inr (w, st, ih), lexerAt qs t ts)"
      using window_at [OF assms(1) True t] unfolding X_def by blast
    have s: "hd (suffixTokens w off st ih) = ''[''" "tl (suffixTokens w off st ih) @ zs = X"
      using True by (simp_all add: suffixTokens_def X_def)
    show ?thesis
    proof (cases "off = []")
      case e: True
      then have "t = u" "ts = us" using t assms(2) by (auto simp: restIs_def)
      with assms(3) e show ?thesis unfolding s by (simp add: parseRollupExpr_def andThen_at lexerAt_ops q ret_def)
    next
      case False
      then have t': "t = ''offset''" "ts = offsetTokens off @ zs" using t by (auto simp: restIs_def)
      obtain qs' where "parseOffset (lexerAt qs ''offset'' (offsetTokens off @ zs)) = (Inr off, lexerAt qs' u us)"
        using offset_at [OF off [OF False] False assms(2)] by blast
      with o q show ?thesis unfolding s t' by (simp add: parseRollupExpr_def andThen_at lexerAt_ops ret_def)
    qed
  next
    case False
    then have e: "w = []" "\<not> ih" "st = []" "off \<noteq> []" using assms(1) by (auto simp: printableSuffix_def)
    obtain qs where "parseOffset (lexerAt ps ''offset'' (offsetTokens off @ zs)) = (Inr off, lexerAt qs u us)"
      using offset_at [OF off [OF e(4)] e(4) assms(2)] by blast
    with e show ?thesis by (simp add: suffixTokens_def parseRollupExpr_def andThen_at lexerAt_ops ret_def)
  qed
qed

lemma suffixTokens_head:
  assumes "printableSuffix w off st ih"
  shows "suffixTokens w off st ih \<noteq> []" "hd (suffixTokens w off st ih) = ''['' \<or> hd (suffixTokens w off st ih) = ''offset''"
  using assms by (auto simp: suffixTokens_def printableSuffix_def)

lemma parseSingleExpr_start:
  assumes "\<not> isWith t"
  shows "parseSingleExpr L (Suc n) (lexerAt ps t ts) =
    andThen (single0 L n) (\<lambda>e. andThen tok (\<lambda>t. if t \<noteq> ''['' \<and> \<not> isOffset t then ret e else parseRollupExpr e)) (lexerAt ps t ts)"
  using assms by (simp add: parseSingleExpr_body_def parseExpr_def [symmetric] andThen_at [of tok] andThen_at [of "ret False"] lexerAt_ops ret_def)

lemma parses_plain:
  assumes "parses (single0 L n) xs F v" "startToken (hd xs)"
  shows "parses (parseSingleExpr L (Suc n)) xs (\<lambda>u. F u \<and> u \<noteq> ''['' \<and> \<not> isOffset u) v"
proof (rule parsesI)
  fix ps u us zs
  assume u: "F u \<and> u \<noteq> ''['' \<and> \<not> isOffset u" "restIs u us zs"
  then obtain qs where q: "single0 L n (lexerAt ps (hd xs) (tl xs @ zs)) = (Inr v, lexerAt qs u us)"
    using parsesE [OF assms(1), of u us zs] by blast
  have "\<not> isWith (hd xs)" using assms(2) by (simp add: startToken_def)
  with u(1) show "\<exists>qs. parseSingleExpr L (Suc n) (lexerAt ps (hd xs) (tl xs @ zs)) = (Inr v, lexerAt qs u us)"
    by (simp add: parseSingleExpr_start andThen_at q lexerAt_ops ret_def del: parseSingleExpr.simps)
qed

lemma parses_rollup:
  assumes "parses (single0 L n) xs F v" "xs \<noteq> []" "startToken (hd xs)" "F ''[''" "F ''offset''" "printableSuffix w off st ih"
  shows "parses (parseSingleExpr L (Suc n)) (xs @ suffixTokens w off st ih) (\<lambda>u. \<not> isOffset u) (RollupExpr v w off st ih)"
proof (rule parsesI)
  fix ps u us zs
  assume u: "\<not> isOffset u" "restIs u us zs"
  let ?s = "suffixTokens w off st ih"
  note s = suffixTokens_head [OF assms(6)]
  have "F (hd ?s)" using s(2) assms(4,5) by metis
  moreover have "restIs (hd ?s) (tl ?s @ zs) (?s @ zs)" using s(1) by (simp add: restIs_def)
  ultimately obtain qs where q: "single0 L n (lexerAt ps (hd xs) (tl xs @ ?s @ zs)) = (Inr v, lexerAt qs (hd ?s) (tl ?s @ zs))"
    using parsesE [OF assms(1)] by blast
  obtain qs' where r: "parseRollupExpr v (lexerAt qs (hd ?s) (tl ?s @ zs)) = (Inr (RollupExpr v w off st ih), lexerAt qs' u us)"
    using suffix_at [OF assms(6) u(2,1)] by blast
  have "isOffset ''offset''" by code_simp
  then have "hd ?s = ''['' \<or> isOffset (hd ?s)" using s(2) by metis
  moreover have "\<not> isWith (hd xs)" using assms(3) by (simp add: startToken_def)
  ultimately show "\<exists>qs. parseSingleExpr L (Suc n) (lexerAt ps (hd (xs @ ?s)) (tl (xs @ ?s) @ zs)) = (Inr (RollupExpr v w off st ih), lexerAt qs u us)"
    using assms(2) by (auto simp add: parseSingleExpr_start andThen_at q lexerAt_ops r simp del: parseSingleExpr.simps)
qed

lemma parses_nonBinary:
  assumes "parses (parseSingleExpr L (Suc n)) xs F v" "\<And>u. followExpr u \<Longrightarrow> F u"
  shows "parses (parseExpr L (Suc n)) xs followExpr v"
proof (rule parsesI)
  fix ps u us zs
  assume u: "followExpr u" "restIs u us zs"
  then obtain qs where q: "parseSingleExpr L (Suc n) (lexerAt ps (hd xs) (tl xs @ zs)) = (Inr v, lexerAt qs u us)"
    using parsesE [OF assms(1)] assms(2) by blast
  have "\<not> isBinaryOp u" using follow_facts(2) u(1) by blast
  then show "\<exists>qs. parseExpr L (Suc n) (lexerAt ps (hd xs) (tl xs @ zs)) = (Inr v, lexerAt qs u us)"
    by (simp add: parseExpr_def parseExpr_with_def andThen_at q lexerAt_ops ret_def del: parseSingleExpr.simps)
qed

section \<open>Operators\<close>

lemma modifier_words:
  "list_all (\<lambda>op. isIdentPrefix op \<and> ToLower op = op) [''on'', ''ignoring'']" "list_all (\<lambda>op. isIdentPrefix op \<and> ToLower op = op) [''group_left'', ''group_right'']"
  "list_all (\<lambda>op. isBinaryOpGroupModifier op \<and> \<not> isBinaryOpBoolModifier op) [''on'', ''ignoring'']" "list_all isBinaryOpJoinModifier [''group_left'', ''group_right'']"
  "isBinaryOpBoolModifier ''bool''"
  by code_simp+

lemma no_modifier: "printableModifier ops m \<Longrightarrow> Op m = [] \<Longrightarrow> m = noModifier"
  by (simp add: printableModifier_def noModifier_def)

lemma modifier_op: "printableModifier ops m \<Longrightarrow> Op m \<noteq> [] \<Longrightarrow> list_all P ops \<Longrightarrow> P (Op m)"
  by (auto simp: printableModifier_def list_all_iff)

lemma modifierTokens_head: "modifierTokens m \<noteq> []" "hd (modifierTokens m) = Op m"
  by (simp_all add: modifierTokens_def)

text \<open>The second half of \<open>parseBinaryOpHead\<close>, in two steps.\<close>

definition headJoin :: "nat \<Rightarrow> string \<Rightarrow> bool \<Rightarrow> ModifierExpr \<Rightarrow> (string \<times> bool \<times> ModifierExpr \<times> ModifierExpr) parser" where
  "headJoin n op b g = andThen tok (\<lambda>t.
       if isBinaryOpJoinModifier t then
         if isBinaryOpLogicalSet op then failf ''modifier %q cannot be applied to %q'' [t, op]
         else andThen (parseModifierExpr n) (\<lambda>j. ret (op, b, g, j))
       else ret (op, b, g, noModifier))"

definition headModifiers :: "nat \<Rightarrow> string \<Rightarrow> bool \<Rightarrow> (string \<times> bool \<times> ModifierExpr \<times> ModifierExpr) parser" where
  "headModifiers n op b =
     andThen tok (\<lambda>t.
     if isBinaryOpGroupModifier t then andThen (parseModifierExpr n) (headJoin n op b)
     else ret (op, b, noModifier, noModifier))"

lemma parseBinaryOpHead_modifiers:
  "parseBinaryOpHead n =
     andThen tok (\<lambda>t. let op = ToLower t in
     andThen nextTok (\<lambda>t.
     andThen
       (if isBinaryOpBoolModifier t then
          if \<not> IsBinaryOpCmp op then failf ''bool modifier cannot be applied to %q'' [op]
          else andThen Next (\<lambda>_. ret True)
        else ret False) (headModifiers n op)))"
  unfolding parseBinaryOpHead_def headModifiers_def [abs_def] headJoin_def [abs_def] by (rule refl)

lemma join_at:
  assumes j: "printableModifier [''group_left'', ''group_right''] j" "length (Args j) < n" "Op j \<noteq> [] \<Longrightarrow> \<not> isBinaryOpLogicalSet op"
    and h: "startToken h"
  shows "\<exists>qs. headJoin n op b g (lexerAt ps (hd ((if Op j \<noteq> [] then modifierTokens j else []) @ h # hs)) (tl ((if Op j \<noteq> [] then modifierTokens j else []) @ h # hs))) =
     (Inr (op, b, g, j), lexerAt qs h hs)"
proof (cases "Op j = []")
  case True
  with no_modifier [OF j(1)] h show ?thesis by (simp add: headJoin_def andThen_at lexerAt_ops ret_def startToken_def)
next
  case False
  obtain qs where q: "parseModifierExpr n (lexerAt ps (hd (modifierTokens j)) (tl (modifierTokens j) @ h # hs)) = (Inr j, lexerAt qs h hs)"
    using parsesE [OF parses_modifier [OF j(1) False modifier_words(2) j(2)] TrueI restIs_Cons] by blast
  have "isBinaryOpJoinModifier (Op j)" using modifier_op [OF j(1) False modifier_words(4)] .
  with False j(3) q modifierTokens_head [of j] show ?thesis by (simp add: headJoin_def andThen_at lexerAt_ops ret_def)
qed

lemma binaryHead_at:
  assumes op: "op \<in> set binaryOps" "b \<Longrightarrow> IsBinaryOpCmp op"
    and g: "printableModifier [''on'', ''ignoring''] g" "length (Args g) < n"
    and j: "printableModifier [''group_left'', ''group_right''] j" "length (Args j) < n" "Op j \<noteq> [] \<Longrightarrow> Op g \<noteq> [] \<and> \<not> isBinaryOpLogicalSet op"
    and h: "startToken h"
  shows "\<exists>qs. parseBinaryOpHead n (lexerAt ps op ((if b then [''bool''] else []) @ (if Op g \<noteq> [] then modifierTokens g else []) @
      (if Op j \<noteq> [] then modifierTokens j else []) @ h # hs)) = (Inr (op, b, g, j), lexerAt qs h hs)"
proof -
  define J where "J = (if Op j \<noteq> [] then modifierTokens j else []) @ h # hs"
  define G where "G = (if Op g \<noteq> [] then modifierTokens g else []) @ J"
  have J: "J = hd J # tl J" "Op g = [] \<Longrightarrow> J = h # hs" using j(3) by (auto simp: J_def)
  have G: "G = hd G # tl G" using J(1) by (cases "Op g = []") (auto simp: G_def modifierTokens_def)
  have low: "ToLower op = op" using op(1) follow_tokens(3) unfolding list_all_iff quietToken_def by blast
  have rj: "\<exists>qs. headJoin n op b g (lexerAt ps' (hd J) (tl J)) = (Inr (op, b, g, j), lexerAt qs h hs)" for ps'
    unfolding J_def by (rule join_at [OF j(1,2) _ h]) (use j(3) in simp)
  have mods: "\<exists>qs. headModifiers n op b (lexerAt ps' (hd G) (tl G)) = (Inr (op, b, g, j), lexerAt qs h hs)" for ps'
  proof (cases "Op g = []")
    case True
    have "g = noModifier" "j = noModifier" using no_modifier [OF g(1) True] no_modifier [OF j(1)] j(3) True by auto
    with True J(2) h show ?thesis by (simp add: G_def headModifiers_def andThen_at lexerAt_ops ret_def startToken_def)
  next
    case False
    have "restIs (hd J) (tl J) J" using J(1) by (auto simp: restIs_def)
    then obtain qs where q: "parseModifierExpr n (lexerAt ps' (hd (modifierTokens g)) (tl (modifierTokens g) @ J)) = (Inr g, lexerAt qs (hd J) (tl J))"
      using parsesE [OF parses_modifier [OF g(1) False modifier_words(1) g(2)] TrueI] by blast
    have "isBinaryOpGroupModifier (Op g)" using modifier_op [OF g(1) False modifier_words(3)] by simp
    with False q rj [of qs] modifierTokens_head [of g] show ?thesis by (simp add: G_def headModifiers_def andThen_at lexerAt_ops)
  qed
  have nb: "\<not> isBinaryOpBoolModifier (hd G)"
  proof (cases "Op g = []")
    case True
    with J(2) h show ?thesis by (simp add: G_def startToken_def)
  next
    case False
    then show ?thesis using modifier_op [OF g(1) False modifier_words(3)] modifierTokens_head [of g] by (simp add: G_def)
  qed
  have "\<exists>qs. parseBinaryOpHead n (lexerAt ps op ((if b then [''bool''] else []) @ hd G # tl G)) = (Inr (op, b, g, j), lexerAt qs h hs)"
  proof (cases b)
    case True
    with op(2) low mods [of "''bool'' # op # ps"] modifier_words(5) show ?thesis
      by (simp add: parseBinaryOpHead_modifiers andThen_at lexerAt_ops nextTok_Cons ret_def Let_def del: ToLower.simps)
  next
    case False
    with nb low mods [of "op # ps"] show ?thesis
      by (simp add: parseBinaryOpHead_modifiers andThen_at lexerAt_ops nextTok_Cons ret_def Let_def del: ToLower.simps)
  qed
  with G show ?thesis unfolding G_def J_def by simp
qed

section \<open>The whole expression\<close>

definition wrapExpr :: "bool \<Rightarrow> expr \<Rightarrow> expr" where
  "wrapExpr b e = (if b then ParensExpr [e] else e)"

fun parsedTree :: "golib \<Rightarrow> expr \<Rightarrow> expr" where
  "parsedTree L (StringExpr s tokens) = StringExpr [] [Quote L s]"
| "parsedTree L (BinaryOpExpr op b g j l r) =
     BinaryOpExpr op b g j (wrapExpr (isBinaryOpExpr l) (parsedTree L l)) (wrapExpr (isBinaryOpExpr r) (parsedTree L r))"
| "parsedTree L (FuncExpr f args) = FuncExpr f (map (parsedTree L) args)"
| "parsedTree L (AggrFuncExpr f args m lim) = AggrFuncExpr f (map (parsedTree L) args) m lim"
| "parsedTree L (RollupExpr e w off st ih) = RollupExpr (wrapExpr (rollupNeedParens e) (parsedTree L e)) w off st ih"
| "parsedTree L (MetricExpr r lfs lfes) = MetricExpr 0 [] (parsedMetric L lfs)"
| "parsedTree L e = e"

text \<open>A depth that suffices for the parser and the expansion.\<close>

fun need :: "expr \<Rightarrow> nat" where
  "need (BinaryOpExpr op b g j l r) = need l + need r + length (Args g) + length (Args j) + 6"
| "need (FuncExpr f args) = sum_list (map need args) + length args + 3"
| "need (AggrFuncExpr f args m lim) = sum_list (map need args) + length args + length (Args m) + 3"
| "need (RollupExpr e w off st ih) = need e + 6"
| "need (MetricExpr r lfs lfes) = length lfs + 3"
| "need e = 3"

lemma need_arg: "e \<in> set args \<Longrightarrow> need e \<le> sum_list (map need args)"
  by (induction args) auto

lemma parses_binary:
  assumes l: "parses (parseSingleExpr L (Suc (Suc n))) ls (\<lambda>u. follow u \<and> lok u) l'" "lok op" "\<not> isBinaryOpExpr l'"
    and r: "parses (parseSingleExpr L (Suc (Suc n))) rs (\<lambda>u. follow u \<and> rok u) r'" "\<And>u. followExpr u \<Longrightarrow> rok u" "rs \<noteq> []" "startToken (hd rs)"
    and op: "op \<in> set binaryOps" "b \<Longrightarrow> IsBinaryOpCmp op"
    and g: "printableModifier [''on'', ''ignoring''] g" "length (Args g) < Suc (Suc n)"
    and j: "printableModifier [''group_left'', ''group_right''] j" "length (Args j) < Suc (Suc n)" "Op j \<noteq> [] \<Longrightarrow> Op g \<noteq> [] \<and> \<not> isBinaryOpLogicalSet op"
    and ls: "ls \<noteq> []"
  shows "parses (parseExpr L (Suc (Suc n))) (ls @ op # (if b then [''bool''] else []) @ (if Op g \<noteq> [] then modifierTokens g else []) @
      (if Op j \<noteq> [] then modifierTokens j else []) @ rs) followExpr (BinaryOpExpr op b g j l' r')"
proof (rule parsesI)
  fix ps u us zs
  assume u: "followExpr u" "restIs u us zs"
  let ?h = "(if b then [''bool''] else []) @ (if Op g \<noteq> [] then modifierTokens g else []) @ (if Op j \<noteq> [] then modifierTokens j else [])"
  have fo: "follow op" "isBinaryOp op" using op(1) follow_tokens(4) by (auto simp: follow_def list_all_iff)
  obtain qs where ql: "parseSingleExpr L (Suc (Suc n)) (lexerAt ps (hd ls) (tl ls @ op # ?h @ rs @ zs)) = (Inr l', lexerAt qs op (?h @ rs @ zs))"
    using parsesE [OF l(1), of op "?h @ rs @ zs" "op # ?h @ rs @ zs"] fo(1) l(2) by auto
  have rs: "rs @ zs = hd rs # tl rs @ zs" using r(3) by simp
  obtain qs2 where qh: "parseBinaryOpHead (Suc (Suc n)) (lexerAt qs op (?h @ rs @ zs)) = (Inr (op, b, g, j), lexerAt qs2 (hd rs) (tl rs @ zs))"
    using binaryHead_at [OF op g j r(4), where ps = qs and hs = "tl rs @ zs"] unfolding rs append_assoc by blast
  obtain qs3 where qr: "parseSingleExpr L (Suc (Suc n)) (lexerAt qs2 (hd rs) (tl rs @ zs)) = (Inr r', lexerAt qs3 u us)"
    using parsesE [OF r(1) _ u(2)] u(1) follow_facts(2) r(2) by blast
  have nb: "\<not> isBinaryOp u" using follow_facts(2) u(1) by blast
  have bal: "balanceBinaryOp (BinaryOpExpr op b g j l' r') = BinaryOpExpr op b g j l' r'" using l(3) by (cases l') simp_all
  show "\<exists>qs. parseExpr L (Suc (Suc n)) (lexerAt ps (hd (ls @ op # (if b then [''bool''] else []) @ (if Op g \<noteq> [] then modifierTokens g else []) @
      (if Op j \<noteq> [] then modifierTokens j else []) @ rs)) (tl (ls @ op # (if b then [''bool''] else []) @ (if Op g \<noteq> [] then modifierTokens g else []) @
      (if Op j \<noteq> [] then modifierTokens j else []) @ rs) @ zs)) = (Inr (BinaryOpExpr op b g j l' r'), lexerAt qs u us)"
    using ls ql [unfolded append_assoc] qh [unfolded append_assoc] qr nb bal fo(2)
    by (simp add: parseExpr_def parseExpr_with_def andThen_at lexerAt_ops ret_def del: parseSingleExpr.simps balanceBinaryOp.simps)
qed

definition stringOk :: "expr \<Rightarrow> string \<Rightarrow> bool" where
  "stringOk e u \<longleftrightarrow> (isStringExpr e \<longrightarrow> u \<noteq> ''+'')"

fun isRollupExpr :: "expr \<Rightarrow> bool" where
  "isRollupExpr (RollupExpr e w off st ih) = True"
| "isRollupExpr _ = False"

text \<open>As an expression, as an operand without operators, and without a rollup suffix.\<close>

definition readable :: "golib \<Rightarrow> expr \<Rightarrow> bool" where
  "readable L e \<longleftrightarrow> (\<forall>n \<ge> need e.
     parses (parseExpr L (Suc (Suc n))) (exprTokens L e) followExpr (parsedTree L e) \<and>
     (\<not> isBinaryOpExpr e \<longrightarrow> parses (parseSingleExpr L (Suc (Suc n))) (exprTokens L e) (\<lambda>u. follow u \<and> stringOk e u) (parsedTree L e)) \<and>
     (\<not> isBinaryOpExpr e \<and> \<not> isRollupExpr e \<longrightarrow>
       parses (single0 L (Suc n)) (exprTokens L e) (\<lambda>u. followBare u \<and> stringOk e u) (parsedTree L e)))"

lemma readable_single:
  assumes "\<And>n. need e \<le> n \<Longrightarrow> parses (parseSingleExpr L (Suc (Suc n))) (exprTokens L e) (\<lambda>u. follow u \<and> stringOk e u) (parsedTree L e)"
    and "\<And>n. \<not> isRollupExpr e \<Longrightarrow> need e \<le> n \<Longrightarrow> parses (single0 L (Suc n)) (exprTokens L e) (\<lambda>u. followBare u \<and> stringOk e u) (parsedTree L e)"
  shows "readable L e"
  unfolding readable_def
proof (intro allI impI conjI)
  fix n
  assume n: "need e \<le> n"
  show "parses (parseExpr L (Suc (Suc n))) (exprTokens L e) followExpr (parsedTree L e)"
    by (rule parses_nonBinary [OF assms(1) [OF n]]) (use follow_facts(2) in \<open>auto simp: stringOk_def\<close>)
qed (use assms in blast)+

lemma readable_bare:
  assumes "printable L e" "\<not> isRollupExpr e"
    and "\<And>n. need e \<le> n \<Longrightarrow> parses (single0 L (Suc n)) (exprTokens L e) (\<lambda>u. followBare u \<and> stringOk e u) (parsedTree L e)"
  shows "readable L e"
proof (rule readable_single)
  fix n
  assume "need e \<le> n"
  from parses_plain [OF assms(3) [OF this]] exprTokens_head [OF assms(1)]
  have "parses (parseSingleExpr L (Suc (Suc n))) (exprTokens L e) (\<lambda>u. (followBare u \<and> stringOk e u) \<and> u \<noteq> ''['' \<and> \<not> isOffset u) (parsedTree L e)" by blast
  then show "parses (parseSingleExpr L (Suc (Suc n))) (exprTokens L e) (\<lambda>u. follow u \<and> stringOk e u) (parsedTree L e)"
    by (rule parses_weaken) (use follow_facts(1) in blast)
qed (use assms(3) in blast)

lemma readable_parens:
  assumes "readable L e" "printable L e" "need e < n"
  shows "parses (single0 L (Suc n)) (''('' # exprTokens L e @ ['')'']) (\<lambda>u. True) (ParensExpr [parsedTree L e])"
proof -
  obtain k where n: "n = Suc k" using assms(3) by (cases n) auto
  have "parses (parseExpr L (Suc n)) (exprTokens L e) followExpr (parsedTree L e)"
    using assms(1,3) unfolding n readable_def by auto
  then show ?thesis using exprTokens_head [OF assms(2)] startToken_facts by (intro parses_parens) auto
qed

lemma readable_operand:
  assumes "readable L e" "printable L e" "need e < n"
  shows "parses (parseSingleExpr L (Suc (Suc n))) (wrapTokens (isBinaryOpExpr e) (exprTokens L e)) (\<lambda>u. follow u \<and> stringOk e u)
    (wrapExpr (isBinaryOpExpr e) (parsedTree L e))"
proof (cases "isBinaryOpExpr e")
  case True
  from parses_plain [OF readable_parens [OF assms]] paren_start
  have "parses (parseSingleExpr L (Suc (Suc n))) (''('' # exprTokens L e @ ['')'']) (\<lambda>u. True \<and> u \<noteq> ''['' \<and> \<not> isOffset u) (ParensExpr [parsedTree L e])"
    by simp
  then have "parses (parseSingleExpr L (Suc (Suc n))) (''('' # exprTokens L e @ ['')'']) (\<lambda>u. follow u \<and> stringOk e u) (ParensExpr [parsedTree L e])"
    by (rule parses_weaken) (use follow_facts(1) in blast)
  with True show ?thesis by (simp add: wrapTokens_def wrapExpr_def)
next
  case False
  with assms show ?thesis by (simp add: wrapTokens_def wrapExpr_def readable_def)
qed

lemma readable_args:
  assumes "\<And>e. e \<in> set args \<Longrightarrow> readable L e \<and> printable L e" "sum_list (map need args) < n"
  shows "readsArgs (parseExpr L (Suc n)) (exprTokens L) (parsedTree L) args"
proof
  fix e
  assume e: "e \<in> set args"
  obtain k where n: "n = Suc k" using assms(2) by (cases n) auto
  have "need e \<le> k" using need_arg [OF e] assms(2) n by simp
  then have "parses (parseExpr L (Suc n)) (exprTokens L e) followExpr (parsedTree L e)"
    using assms(1) [OF e] unfolding n readable_def by blast
  with exprTokens_head [of L e] assms(1) [OF e] startToken_facts
  show "parses (parseExpr L (Suc n)) (exprTokens L e) followExpr (parsedTree L e) \<and> exprTokens L e \<noteq> [] \<and> hd (exprTokens L e) \<noteq> '')''" by blast
qed

lemma wrap_start:
  assumes "printable L e"
  shows "wrapTokens b (exprTokens L e) \<noteq> []" "startToken (hd (wrapTokens b (exprTokens L e)))"
  using exprTokens_head [OF assms] paren_start by (auto simp: wrapTokens_def)

lemma follow_suffix: "followBare ''[''" "followBare ''offset''"
  by (simp_all add: followBare_def suffixStarts_def)

lemma parsedTree_binary: "isBinaryOpExpr (parsedTree L e) = isBinaryOpExpr e"
  by (cases e) simp_all

lemma readable_expr: "printable L e \<Longrightarrow> readable L e"
proof (induction L e rule: printable.induct)
  case (1 L s tokens)
  show ?case
    by (rule readable_bare [OF "1"]) (auto intro: parses_weaken [OF parses_string] simp: stringOk_def)
next
  case (2 L x)
  then show ?case
    by (intro readable_bare [OF "2"]) (auto intro: parses_weaken [OF parses_number])
next
  case (3 L op b g j l r)
  have pr: "readable L l" "readable L r" "printable L l" "printable L r" using 3 by auto
  have lnb: "\<not> isBinaryOpExpr (wrapExpr (isBinaryOpExpr l) (parsedTree L l))"
    by (simp add: wrapExpr_def parsedTree_binary)
  have "parses (parseExpr L (Suc (Suc n))) (exprTokens L (BinaryOpExpr op b g j l r)) followExpr (parsedTree L (BinaryOpExpr op b g j l r))"
    if n: "need (BinaryOpExpr op b g j l r) \<le> n" for n
    unfolding exprTokens.simps parsedTree.simps
  proof (rule parses_binary)
    show "parses (parseSingleExpr L (Suc (Suc n))) (wrapTokens (isBinaryOpExpr l) (exprTokens L l)) (\<lambda>u. follow u \<and> stringOk l u)
        (wrapExpr (isBinaryOpExpr l) (parsedTree L l))" by (rule readable_operand [OF pr(1,3)]) (use n in simp)
    show "parses (parseSingleExpr L (Suc (Suc n))) (wrapTokens (isBinaryOpExpr r) (exprTokens L r)) (\<lambda>u. follow u \<and> stringOk r u)
        (wrapExpr (isBinaryOpExpr r) (parsedTree L r))" by (rule readable_operand [OF pr(2,4)]) (use n in simp)
  qed (use 3 n pr wrap_start lnb follow_facts(2) in \<open>auto simp: stringOk_def\<close>)
  then show ?case by (simp add: readable_def)
next
  case (4 L f args)
  have a: "e \<in> set args \<Longrightarrow> readable L e \<and> printable L e" for e using 4 by simp
  have "parses (single0 L (Suc n)) (exprTokens L (FuncExpr f args)) (\<lambda>u. True) (parsedTree L (FuncExpr f args))"
    if "need (FuncExpr f args) \<le> n" for n
    using that 4 plainWord_prefix [of f] unfolding exprTokens.simps parsedTree.simps by (intro parses_func readable_args [OF a]) auto
  then show ?case by (intro readable_bare [OF "4.prems"]) (auto intro: parses_weaken)
next
  case (5 L f args m lim)
  have a: "e \<in> set args \<Longrightarrow> readable L e \<and> printable L e" for e using 5 by simp
  have p: "parses (single0 L (Suc n)) (exprTokens L (AggrFuncExpr f args m lim)) quietToken (parsedTree L (AggrFuncExpr f args m lim))"
    if "need (AggrFuncExpr f args m lim) \<le> n" for n
    using that 5 unfolding exprTokens.simps parsedTree.simps by (intro parses_aggr readable_args [OF a]) auto
  show ?case
    by (rule readable_bare [OF "5.prems"], simp, rule parses_weaken [OF p]) (use followBare_quiet in blast)+
next
  case (6 L e w off st ih)
  have pr: "readable L e" "printable L e" "printableSuffix w off st ih" using 6 by auto
  show ?case
  proof (rule readable_single)
    fix n
    assume n: "need (RollupExpr e w off st ih) \<le> n"
    have "parses (single0 L (Suc n)) (wrapTokens (rollupNeedParens e) (exprTokens L e)) (\<lambda>u. followBare u \<and> stringOk e u)
        (wrapExpr (rollupNeedParens e) (parsedTree L e))"
    proof (cases "rollupNeedParens e")
      case True
      have "parses (single0 L (Suc n)) (''('' # exprTokens L e @ ['')'']) (\<lambda>u. True) (ParensExpr [parsedTree L e])"
        using n by (intro readable_parens [OF pr(1,2)]) simp
      with True show ?thesis by (auto simp: wrapTokens_def wrapExpr_def intro: parses_weaken)
    next
      case False
      then have "\<not> isBinaryOpExpr e" "\<not> isRollupExpr e" by (cases e; simp add: rollupNeedParens_def)+
      with pr(1) n False show ?thesis by (simp add: wrapTokens_def wrapExpr_def readable_def)
    qed
    from parses_rollup [OF this wrap_start [OF pr(2)] _ _ pr(3)] follow_suffix
    have "parses (parseSingleExpr L (Suc (Suc n))) (exprTokens L (RollupExpr e w off st ih)) (\<lambda>u. \<not> isOffset u) (parsedTree L (RollupExpr e w off st ih))"
      by (simp add: stringOk_def)
    then show "parses (parseSingleExpr L (Suc (Suc n))) (exprTokens L (RollupExpr e w off st ih)) (\<lambda>u. follow u \<and> stringOk (RollupExpr e w off st ih) u)
        (parsedTree L (RollupExpr e w off st ih))" by (rule parses_weaken) (use follow_facts(1) in blast)
  qed simp
next
  case (7 L r lfs lfes)
  then show ?case by (intro readable_bare [OF "7"]) (auto intro!: parses_weaken [OF parses_metric])
qed simp_all

end
