(* ===== verification/ExprText.thy ===== *)
theory ExprText
  imports ExprParse
begin

text \<open>
  Printing and parsing a whole expression (\<open>AppendString\<close>, \<open>Parse\<close> and \<open>ExpandWithExprs\<close> of
  \<open>src/mateql\<close>): the text of a printable expression is parsed, expanded and simplified to the same
  expression, up to the identities of its metric nodes.
\<close>

section \<open>Parsing the text\<close>

lemma parseString_from_tokens:
  assumes "lexAll s = (ts, None)" "andThen Next (\<lambda>_. parseExpr L n) (tokenLexer ts) = (Inr e, lx')" "isEOF (Token lx')" "parseFuel s \<le> n"
  shows "parseString L s = Inr e"
proof -
  let ?p = "andThen Next (\<lambda>_. parseExpr L n)"
  have "tokenwise ?p" by (intro tokenwise)
  then have "sameResult (?p (tokenLexer ts)) (?p (Init s emptyLexer))" by (rule tokenwiseD [OF _ sameTokens_tokenLexer [OF assms(1)]])
  with assms(2) obtain ly where ly: "?p (Init s emptyLexer) = (Inr e, ly)" "sameTokens lx' ly"
    by (cases "?p (Init s emptyLexer)") (auto simp: sameResult_def)
  from ly(1) obtain lx where lx: "Next (Init s emptyLexer) = (Inr (), lx)" "parseExpr L n lx = (Inr e, ly)"
    by (auto simp: andThen_def split: prod.splits sum.splits)
  have "lexErr lx = None" "weight lx < parseFuel s" using lexer_start [OF lx(1)] by (simp_all add: parseFuel_def)
  from parseExpr_bound [OF this assms(4), of L] lx(2) have "parseExpr L (parseFuel s) lx = (Inr e, ly)" by metis
  moreover have "isEOF (Token ly)" using ly(2) assms(3) by (simp add: sameTokens_def)
  ultimately show ?thesis using lx(1) by (simp add: parseString_def)
qed

lemma parseString_printable:
  assumes "printable L e"
  shows "parseString L (exprString L e) = Inr (parsedTree L e)"
proof -
  have l: "lexAll (exprString L e) = (exprTokens L e, None)"
    using lexes_expr [OF assms] lexAll_Nil unfolding lexes_def wordStop_def by (metis append_Nil2)
  obtain t ts where ts: "exprTokens L e = t # ts" using exprTokens_head [OF assms] by (cases "exprTokens L e") auto
  let ?n = "need e + parseFuel (exprString L e)"
  have p: "parses (parseExpr L (Suc (Suc ?n))) (exprTokens L e) followExpr (parsedTree L e)"
    using readable_expr [OF assms] unfolding readable_def by (metis le_add1)
  have "followExpr []" "restIs [] [] []" by (simp_all add: followExpr_def restIs_def)
  from parsesE [OF p this] obtain qs where "parseExpr L (Suc (Suc ?n)) (lexerAt [[]] t ts) = (Inr (parsedTree L e), lexerAt qs [] [])"
    unfolding ts by (metis append_Nil2 list.sel(1,3))
  moreover have "Next (tokenLexer (exprTokens L e)) = (Inr (), lexerAt [[]] t ts)"
    using lexerAt_ops(1) [of "[]" "[]" t ts] unfolding ts by (simp add: lexerAt_def tokenLexer_def)
  ultimately have "andThen Next (\<lambda>_. parseExpr L (Suc (Suc ?n))) (tokenLexer (exprTokens L e)) = (Inr (parsedTree L e), lexerAt qs [] [])"
    by (simp add: andThen_at)
  then show ?thesis by (rule parseString_from_tokens [OF l]) (simp_all add: lexerAt_def isEOF_def)
qed

section \<open>Expressions up to identities\<close>

fun forgetRefs :: "expr \<Rightarrow> expr" where
  "forgetRefs (MetricExpr r lfs lfes) = MetricExpr 0 lfs lfes"
| "forgetRefs (ParensExpr es) = ParensExpr (map forgetRefs es)"
| "forgetRefs (BinaryOpExpr op b g j l r) = BinaryOpExpr op b g j (forgetRefs l) (forgetRefs r)"
| "forgetRefs (FuncExpr f args) = FuncExpr f (map forgetRefs args)"
| "forgetRefs (AggrFuncExpr f args m lim) = AggrFuncExpr f (map forgetRefs args) m lim"
| "forgetRefs (RollupExpr e w off st ih) = RollupExpr (forgetRefs e) w off st ih"
| "forgetRefs e = e"

lemma forget_kind:
  "isBinaryOpExpr (forgetRefs e) = isBinaryOpExpr e" "rollupNeedParens (forgetRefs e) = rollupNeedParens e" "isNumber (forgetRefs e) = isNumber e"
  "isStringExpr (forgetRefs e) = isStringExpr e"
  by (cases e; simp add: rollupNeedParens_def)+

lemma exprString_forget: "exprString L (forgetRefs e) = exprString L e"
  by (induction e rule: forgetRefs.induct) (simp_all add: forget_kind comp_def cong: map_cong)

lemma plain_forget: "plainExpr (forgetRefs e) = plainExpr e"
  by (induction e rule: forgetRefs.induct) auto

lemma folded_forget: "folded (forgetRefs e) = folded e"
  by (induction e rule: forgetRefs.induct) (auto simp: forget_kind)

lemma printable_forget: "printable L (forgetRefs e) = printable L e"
  by (induction e rule: forgetRefs.induct) (auto simp: forget_kind)

lemma printable_plain: "printable L e \<Longrightarrow> plainExpr e"
  by (induction L e rule: printable.induct) auto

section \<open>Expanding the parsed tree\<close>

definition expandsTo :: "expr \<Rightarrow> expr \<Rightarrow> bool" where
  "expandsTo e e' \<longleftrightarrow> forgetRefs (removeParensExpr e') = forgetRefs e \<and> (isStringExpr e' \<longrightarrow> isStringExpr e)"

lemma mapM_expands:
  assumes "\<And>e r. e \<in> set args \<Longrightarrow> \<exists>e' r'. ew (t e) r = (Inr e', r') \<and> expandsTo e e'"
  shows "\<exists>es' r'. mapM ew (map t args) r = (Inr es', r') \<and> list_all2 expandsTo args es'"
  using assms
proof (induction args arbitrary: r)
  case (Cons e es)
  obtain e' r1 where e: "ew (t e) r = (Inr e', r1)" "expandsTo e e'" using Cons.prems [of e r] by auto
  obtain es' r2 where "mapM ew (map t es) r1 = (Inr es', r2)" "list_all2 expandsTo es es'" using Cons.IH [of r1] Cons.prems by auto
  with e show ?case by (auto simp: andThen_def ret_def)
qed (simp add: ret_def)

lemma expandsTo_args: "list_all2 expandsTo args es \<Longrightarrow> map (\<lambda>e. forgetRefs (removeParensExpr e)) es = map forgetRefs args"
  by (induction rule: list_all2_induct) (simp_all add: expandsTo_def)

lemma filterNew_distinct: "distinct as \<Longrightarrow> set m \<inter> set as = {} \<Longrightarrow> filterNew m as = as"
  by (induction m as rule: filterNew.induct) auto

lemma expandModifier_printable:
  assumes "printableModifier ops m" "map waName was = templateNames"
  shows "expandModifierArgs L was (Args m) = Inr (Args m)"
proof -
  have names: "waName ` set was = set templateNames" using assms(2) by (metis list.set_map)
  have a: "distinct (Args m)" "\<forall>a \<in> set (Args m). a \<notin> waName ` set was"
    using assms(1) unfolding names by (simp_all add: printableModifier_def list_all_iff split: if_splits)
  have "expandModifierArgs_loop L was args0 as = Inr as" if "\<forall>a \<in> set as. a \<notin> waName ` set was" for args0 as
    using that by (induction as) (simp_all add: expandModifierArg_def getWithArg_none)
  with a show ?thesis by (simp add: expandModifierArgs_def filterNew_distinct)
qed

lemma expand_wrap:
  assumes "\<And>r. \<exists>e' r'. expandWithExpr L n was t r = (Inr e', r') \<and> expandsTo e e'"
    and "\<And>r. \<exists>e' r'. expandWithExpr L (Suc n) was t r = (Inr e', r') \<and> expandsTo e e'"
  shows "\<exists>e' r'. expandWithExpr L (Suc n) was (wrapExpr b t) r = (Inr e', r') \<and> expandsTo e e'"
proof (cases b)
  case True
  obtain e' r' where "expandWithExpr L n was t r = (Inr e', r')" "expandsTo e e'" using assms(1) by blast
  with True show ?thesis by (simp add: wrapExpr_def andThen_def ret_def expandsTo_def)
next
  case False
  with assms(2) show ?thesis by (simp add: wrapExpr_def del: expandWithExpr.simps)
qed

lemma expand_binary:
  assumes "expandWithExpr L m was l r = (Inr l', r1)" "expandWithExpr L m was r0 r1 = (Inr r', r2)"
    and "expandModifierArgs L was (Args g) = Inr (Args g)" "expandModifierArgs L was (Args j) = Inr (Args j)" "op = ''+'' \<longrightarrow> \<not> isStringExpr l'"
  shows "expandWithExpr L (Suc m) was (BinaryOpExpr op b g j l r0) r = (Inr (ParensExpr [BinaryOpExpr op b g j l' r']), r2)"
  using assms by (cases l') (simp_all add: andThen_at liftResult_def ret_def Let_def)

lemma expand_rollup:
  "expandWithExpr L m was e r = (Inr e', r') \<Longrightarrow> expandWithExpr L (Suc m) was (RollupExpr e w off st ih) r = (Inr (RollupExpr e' w off st ih), r')"
  by (simp add: andThen_at ret_def)

lemma expand_printable:
  assumes was: "map waName was = templateNames"
  shows "printable L e \<Longrightarrow> need e \<le> n \<Longrightarrow> \<exists>e' r'. expandWithExpr L n was (parsedTree L e) r = (Inr e', r') \<and> expandsTo e e'"
proof (induction L e arbitrary: n r rule: printable.induct)
  case (1 L s tokens)
  obtain k where "n = Suc (Suc k)" using "1.prems"(2) by (cases n; cases "n - 1") auto
  then show ?case using "1.prems"(1) expand_quoted [of L "Suc k" was s r] by (simp add: expandsTo_def del: expandWithExpr.simps)
next
  case (2 L x)
  then obtain k where "n = Suc k" by (cases n) auto
  then show ?case by (simp add: ret_def expandsTo_def)
next
  case (3 L op b g j l r0)
  obtain k where n: "n = Suc (Suc (Suc k))" "need l \<le> k" "need r0 \<le> k"
    using "3.prems"(2) that [of "n - 3"] by simp
  have pr: "printable L l" "printable L r0" using "3.prems"(1) by auto
  have l: "\<exists>e' r'. expandWithExpr L (Suc (Suc k)) was (wrapExpr (isBinaryOpExpr l) (parsedTree L l)) r = (Inr e', r') \<and> expandsTo l e'" for r
    using "3.IH"(1) [OF pr(1)] n(2) by (intro expand_wrap) (simp_all del: expandWithExpr.simps)
  have rr: "\<exists>e' r'. expandWithExpr L (Suc (Suc k)) was (wrapExpr (isBinaryOpExpr r0) (parsedTree L r0)) r = (Inr e', r') \<and> expandsTo r0 e'" for r
    using "3.IH"(2) [OF pr(2)] n(3) by (intro expand_wrap) (simp_all del: expandWithExpr.simps)
  obtain l' r1 where l': "expandWithExpr L (Suc (Suc k)) was (wrapExpr (isBinaryOpExpr l) (parsedTree L l)) r = (Inr l', r1)" "expandsTo l l'" using l by blast
  obtain r' r2 where r': "expandWithExpr L (Suc (Suc k)) was (wrapExpr (isBinaryOpExpr r0) (parsedTree L r0)) r1 = (Inr r', r2)" "expandsTo r0 r'" using rr by blast
  have m: "expandModifierArgs L was (Args g) = Inr (Args g)" "expandModifierArgs L was (Args j) = Inr (Args j)"
    using "3.prems"(1) expandModifier_printable [OF _ was] by auto
  have plus: "op = ''+'' \<longrightarrow> \<not> isStringExpr l'" using "3.prems"(1) l'(2) by (auto simp: expandsTo_def)
  have "expandWithExpr L n was (parsedTree L (BinaryOpExpr op b g j l r0)) r = (Inr (ParensExpr [BinaryOpExpr op b g j l' r']), r2)"
    unfolding n(1) parsedTree.simps by (rule expand_binary [OF l'(1) r'(1) m plus])
  with l'(2) r'(2) show ?case by (auto simp: expandsTo_def)
next
  case (4 L f args)
  obtain k where n: "n = Suc k" using "4.prems"(2) by (cases n) auto
  have "\<exists>e' r'. expandWithExpr L k was (parsedTree L e) r = (Inr e', r') \<and> expandsTo e e'" if "e \<in> set args" for e r
    using that "4.prems" need_arg [OF that] n by (intro "4.IH") auto
  then obtain es' r' where es: "mapM (expandWithExpr L k was) (map (parsedTree L) args) r = (Inr es', r')" "list_all2 expandsTo args es'"
    using mapM_expands [of args "expandWithExpr L k was" "parsedTree L" r] by blast
  have names: "waName ` set was = set templateNames" using was by (metis list.set_map)
  have "getWithArgExpr was f = None"
    using "4.prems"(1) names by (intro getWithArg_none) (simp add: freeWord_def)
  with es expandsTo_args [OF es(2)] show ?case unfolding n by (simp add: andThen_at ret_def expandsTo_def comp_def)
next
  case (5 L f args m lim)
  obtain k where n: "n = Suc k" using "5.prems"(2) by (cases n) auto
  have "\<exists>e' r'. expandWithExpr L k was (parsedTree L e) r = (Inr e', r') \<and> expandsTo e e'" if "e \<in> set args" for e r
    using that "5.prems" need_arg [OF that] n by (intro "5.IH") auto
  then obtain es' r' where es: "mapM (expandWithExpr L k was) (map (parsedTree L) args) r = (Inr es', r')" "list_all2 expandsTo args es'"
    using mapM_expands [of args "expandWithExpr L k was" "parsedTree L" r] by blast
  have "expandModifierArgs L was (Args m) = Inr (Args m)" using "5.prems"(1) expandModifier_printable [OF _ was] by auto
  with es expandsTo_args [OF es(2)] show ?case unfolding n by (simp add: andThen_at ret_def liftResult_def expandsTo_def comp_def)
next
  case (6 L e w off st ih)
  obtain k where n: "n = Suc (Suc (Suc k))" "need e \<le> k" using "6.prems"(2) that [of "n - 3"] by simp
  have "\<exists>e' r'. expandWithExpr L (Suc (Suc k)) was (wrapExpr (rollupNeedParens e) (parsedTree L e)) r = (Inr e', r') \<and> expandsTo e e'"
    using "6.IH" "6.prems"(1) n(2) by (intro expand_wrap) (simp_all del: expandWithExpr.simps)
  then obtain e' r' where "expandWithExpr L (Suc (Suc k)) was (wrapExpr (rollupNeedParens e) (parsedTree L e)) r = (Inr e', r')" "expandsTo e e'" by blast
  from expand_rollup [OF this(1), of w off st ih] this(2) show ?case unfolding n(1) parsedTree.simps by (auto simp: expandsTo_def)
next
  case (7 L r0 lfs lfes)
  obtain k where n: "n = Suc (Suc k)" using "7.prems"(2) that [of "n - 2"] by simp
  from "7.prems"(1) have m: "readableMetric L lfs" "lfes = []" by auto
  from expand_metric [OF m(1) was, of k r] m(2) show ?case unfolding n by (simp add: expandsTo_def del: expandWithExpr.simps)
qed simp_all

section \<open>The round trip\<close>

lemma Parse_printable:
  assumes "printable L e" "folded e"
  shows "\<exists>e'. Parse L (need e + n) (exprString L e) = Inr e' \<and> forgetRefs e' = forgetRefs e"
proof -
  obtain was where d: "getDefaultWithArgExprs L = Inr was" "map waName was = templateNames" using defaults_ok by blast
  obtain e1 r where e1: "expandWithExpr L (need e + n) was (parsedTree L e) 0 = (Inr e1, r)" "expandsTo e e1"
    using expand_printable [OF d(2) assms(1)] le_add1 by blast
  let ?e = "removeParensExpr e1"
  have f: "forgetRefs ?e = forgetRefs e" using e1(2) by (simp add: expandsTo_def)
  then have "plainExpr ?e" "folded ?e"
    using plain_forget [of ?e] folded_forget [of ?e] plain_forget [of e] folded_forget [of e] printable_plain [OF assms(1)] assms(2) by simp_all
  from simplify_folded [OF this] have "simplifyConstants L ?e r = (Inr ?e, r)" .
  then have "Parse L (need e + n) (exprString L e) = Inr ?e"
    unfolding Parse_def parseString_printable [OF assms(1)] d(1)
    by (simp add: andThen_at wrapErr_def e1(1) del: expandWithExpr.simps)
  with f show ?thesis by blast
qed


definition sampleExpr :: expr where
  "sampleExpr =
     BinaryOpExpr ''/'' False \<lparr>Op = ''on'', Args = [''host'']\<rparr> \<lparr>Op = ''group_left'', Args = []\<rparr>
       (AggrFuncExpr ''sum''
         [RollupExpr (MetricExpr 0 [\<lparr>Label = ''__name__'', Value = ''a b'', IsNegative = False, IsRegexp = False\<rparr>,
            \<lparr>Label = ''l-1'', Value = [bslash, dquote, CHR 0x0A, CHR 0xFF], IsNegative = True, IsRegexp = False\<rparr>] [])
            ''5m'' ''-1h'' ''30s'' False] \<lparr>Op = ''by'', Args = [''host'']\<rparr> 3)
       (FuncExpr ''label_join'' [MetricExpr 1 [] [], StringExpr ''it's \"x\"'' [], NumberExpr (floatOf ''2500000'')])"


lemma Parse_again:
  assumes "Parse L n q = Inr e" "printable L e"
  shows "\<exists>e'. Parse L (need e + m) (exprString L e) = Inr e' \<and> forgetRefs e' = forgetRefs e \<and> exprString L e' = exprString L e"
proof -
  obtain was where "getDefaultWithArgExprs L = Inr was" using defaults_ok by blast
  from Parse_result [OF this assms(1)] Parse_printable [OF assms(2), of m] exprString_forget [of L] show ?thesis by metis
qed

text \<open>C23: expanding a query gives a text that expanding leaves as it is: when the expanded expression is printable,
  \<open>ExpandWithExprs\<close> succeeds on its own result and returns it unchanged.\<close>

theorem ExpandWithExprs_idempotent:
  assumes "Parse L n q = Inr e" "printable L e"
  shows "\<exists>s. ExpandWithExprs L n q = Inr s \<and> ExpandWithExprs L (need e + m) s = Inr s"
proof -
  obtain e' where "Parse L (need e + m) (exprString L e) = Inr e'" "exprString L e' = exprString L e" using Parse_again [OF assms] by blast
  then show ?thesis by (simp add: ExpandWithExprs_def assms(1))
qed

text \<open>A query whose text changes: the parentheses go, and blanks come around the operator.\<close>

definition bareMetric :: "string \<Rightarrow> LabelFilter list" where
  "bareMetric s = [\<lparr>Label = ''__name__'', Value = s, IsNegative = False, IsRegexp = False\<rparr>]"

definition sampleQuotient :: "expr" where
  "sampleQuotient = BinaryOpExpr ''/'' False noModifier noModifier (MetricExpr 0 (bareMetric ''m'') []) (MetricExpr 1 (bareMetric ''q'') [])"

lemma bareMetric_readable: "readableMetric L (bareMetric ''m'')" "readableMetric L (bareMetric ''q'')"
proof -
  have e: "esc True ''m'' = ''m''" "esc True ''q'' = ''q''" by code_simp+
  show "readableMetric L (bareMetric ''m'')" "readableMetric L (bareMetric ''q'')"
    by (simp_all add: readableMetric_def readableFilter_def readableLabel_def readableName_def e bareMetric_def
        hasNonEmptyMetricGroup_def isNameFilter_def isInfOrNaN_def isWith_def templateNames_def toLowerByte_def between_def del: esc.simps)
qed

lemma sample_quotient: "Parse L 5 ''(m)/(q)'' = Inr sampleQuotient"
proof -
  let ?ts = "[''('', ''m'', '')'', ''/'', ''('', ''q'', '')'']"
  let ?m = "\<lambda>s. ParensExpr [MetricExpr 0 [] (parsedMetric L (bareMetric s))]"
  let ?e = "BinaryOpExpr ''/'' False noModifier noModifier (?m ''m'') (?m ''q'')"
  have e: "esc True ''m'' = ''m''" "esc True ''q'' = ''q''" by code_simp+
  have l: "lexAll ''(m)/(q)'' = (?ts, None)" by code_simp
  have f: "plainToken ''m''" "plainToken ''q''" "plainToken ''/''" "isBinaryOp ''/''" "\<not> isPositiveNumberPrefix ''/''" "\<not> isBinaryOp ''m''" "\<not> isBinaryOp ''q''"
    by code_simp+
  have "\<exists>qs. andThen Next (\<lambda>_. parseExpr L 4) (lexerAt [] [] ?ts) = (Inr ?e, lexerAt qs [] [])"
    by (simp add: f [unfolded plainToken_def] eval_nat_numeral andThen_at apply_cases parser_equations operatorFacts end_token tokenFacts
        parsedMetric_def bareMetric_def e hasNonEmptyMetricGroup_def isNameFilter_def
        del: ToLower.simps(2) isIdentPrefix.simps(2) isPositiveNumberPrefix.simps(2) parseParensExpr_loop.simps parseExpr_loop.simps esc.simps
        cong: lazy_congs)
  then obtain qs where "andThen Next (\<lambda>_. parseExpr L 4) (lexerAt [] [] ?ts) = (Inr ?e, lexerAt qs [] [])" by blast
  then have p: "parseString L ''(m)/(q)'' = Inr ?e"
    by (intro parseString_on_tokens [OF l]) (auto simp: parseFuel_def lexerAt_def tokenLexer_def isEOF_def)
  obtain was where d: "getDefaultWithArgExprs L = Inr was" "map waName was = templateNames" using defaults_ok by blast
  have m: "expandWithExpr L 4 was (?m s) r = (Inr (ParensExpr [MetricExpr r (bareMetric s) []]), Suc r)" if "readableMetric L (bareMetric s)" for s r
    using expand_metric [OF that d(2), of 1 r] by (simp add: eval_nat_numeral andThen_at ret_def del: expandWithExpr.simps(2)) (simp add: andThen_at ret_def)
  have "expandWithExpr L (Suc 4) was ?e 0 =
     (Inr (ParensExpr [BinaryOpExpr ''/'' False noModifier noModifier (ParensExpr [MetricExpr 0 (bareMetric ''m'') []]) (ParensExpr [MetricExpr 1 (bareMetric ''q'') []])]), 2)"
    by (rule expand_binary) (use m [OF bareMetric_readable(1)] m [OF bareMetric_readable(2)] in \<open>simp_all add: noModifier_def expandModifierArgs_def\<close>)
  then show ?thesis
    unfolding Parse_def p d(1)
    by (simp add: eval_nat_numeral andThen_at wrapErr_def ret_def sampleQuotient_def del: expandWithExpr.simps)
qed

theorem ExpandWithExprs_idempotent_witness:
  "\<forall>L. ExpandWithExprs L 5 ''(m)/(q)'' = Inr ''m / q'' \<and> ExpandWithExprs L 14 ''m / q'' = Inr ''m / q''"
proof
  fix L :: golib
  have e: "esc True ''m'' = ''m''" "esc True ''q'' = ''q''" by code_simp+
  have f: "freeWord ''m''" "freeWord ''q''" "''/'' \<in> set binaryOps" by code_simp+
  have "printable L sampleQuotient"
    using bareMetric_readable f
    by (simp add: sampleQuotient_def printableModifier_def noModifier_def bareMetric_def e hasNonEmptyMetricGroup_def isNameFilter_def del: esc.simps)
  moreover have "need sampleQuotient = 14" by code_simp
  moreover have s: "exprString L sampleQuotient = ''m / q''"
    by (simp add: sampleQuotient_def noModifier_def bareMetric_def metricString_def hasNonEmptyMetricGroup_def isNameFilter_def appendEscapedIdent_eq e parenthesize_def del: esc.simps)
  ultimately show "ExpandWithExprs L 5 ''(m)/(q)'' = Inr ''m / q'' \<and> ExpandWithExprs L 14 ''m / q'' = Inr ''m / q''"
    using ExpandWithExprs_idempotent [OF sample_quotient, of L 0] by (simp add: ExpandWithExprs_def [of L 5] sample_quotient)
qed

end
