(* ===== verification/PathText.thy ===== *)
theory PathText
  imports ExprText
begin

text \<open>
  \<open>src/prometheus/mateql.go\<close> from text to text: a query that is one Graphite path goes through
  \<open>CovertMateQuery\<close> (lexer, parser, expansion, conversion, printing); what comes out is read back by
  \<open>Parse\<close> as a metric whose filters select what the path selects. For every query with a printable
  conversion, the text that is sent on is read back as the converted tree.
\<close>

section \<open>A metric name as the whole query\<close>

definition nameLabel :: "string \<Rightarrow> LabelFilter" where
  "nameLabel p = \<lparr>Label = ''__name__'', Value = p, IsNegative = False, IsRegexp = False\<rparr>"

definition nameExpr :: "golib \<Rightarrow> string \<Rightarrow> labelFilterExpr" where
  "nameExpr L t = \<lparr>lfeLabel = ''__name__'', lfeValue = Some ([], [Quote L t]), lfeIsRegexp = False, lfeIsNegative = False\<rparr>"

text \<open>The lexer takes the whole of \<open>p\<close> as one identifier, a path without escapes.\<close>

definition readablePath :: "string \<Rightarrow> bool" where
  "readablePath p \<longleftrightarrow> isIdentPrefix p \<and> scanIdent p = Inr p \<and> CHR ''.'' \<in> set p \<and> bslash \<notin> set p"

lemma dot_ToLower: "CHR ''.'' \<in> set s \<Longrightarrow> CHR ''.'' \<in> set (ToLower s)"
proof (induction s rule: ToLower.induct)
  case (2 c cs)
  consider (i) "c = CHR 0xC4 \<and> cs \<noteq> [] \<and> hd cs = CHR 0xB0" | (k) "c = CHR 0xE2 \<and> take 2 cs = [CHR 0x84, CHR 0xAA]"
    | (b) "\<not> (c = CHR 0xC4 \<and> cs \<noteq> [] \<and> hd cs = CHR 0xB0)" "\<not> (c = CHR 0xE2 \<and> take 2 cs = [CHR 0x84, CHR 0xAA])"
    by blast
  then show ?case
  proof cases
    case i
    then have "CHR ''.'' \<in> set (tl cs)" using "2.prems" by (cases cs) auto
    with "2.IH"(1) i show ?thesis by simp
  next
    case k
    have "set cs = set (take 2 cs) \<union> set (drop 2 cs)" by (metis append_take_drop_id set_append)
    then have "CHR ''.'' \<in> set (drop 2 cs)" using "2.prems" k by auto
    with "2.IH"(2) k show ?thesis by simp
  next
    case b
    have "toLowerByte CHR ''.'' = CHR ''.''" by (simp add: toLowerByte_def between_def)
    then show ?thesis using "2.IH"(3) [OF b] "2.prems" unfolding ToLower.simps if_not_P [OF b(1)] if_not_P [OF b(2)] by auto
  qed
qed simp

lemma dot_not_word:
  assumes "CHR ''.'' \<in> set s"
  shows "\<not> isInfOrNaN s" "\<not> isWith s" "s \<notin> set templateNames"
  using dot_ToLower [OF assms] assms by (auto simp: isInfOrNaN_def isWith_def Let_def templateNames_def)

lemma dot_esc: "CHR ''.'' \<in> set s \<Longrightarrow> CHR ''.'' \<in> set (esc False s)"
  by (induction s) (auto simp: escChar_def)

lemma readablePath_dot: "readablePath p \<Longrightarrow> CHR ''.'' \<in> set (esc True p)"
  by (cases p) (auto simp: readablePath_def isFirstIdentChar_def between_def intro: dot_esc)

lemma hd_dot_ident: "\<not> isIdentPrefix (CHR ''.'' # s)"
  by (simp add: isFirstIdentChar_def between_def)

lemma parseExpr_name:
  assumes "isIdentPrefix t" "\<not> isInfOrNaN t" "\<not> isWith t"
  shows "\<exists>qs. andThen Next (\<lambda>_. parseExpr L (Suc (Suc n))) (lexerAt [] [] [t]) =
    (Inr (MetricExpr 0 [] [nameExpr L t]), lexerAt qs [] [])"
  using assms identPrefix_facts [OF assms(1)]
  by (simp add: andThen_at lexerAt_ops ret_def parseExpr_def parseExpr_with_def parseSingleExpr_body_def nameExpr_def
      parseSingleExprWithoutRollupSuffix_def parseMetricExpr_def parseIdentExpr_def parseLabelFilters_def nextTok_def Let_def end_token
      del: isIdentPrefix.simps isStringPrefix.simps isPositiveNumberPrefix.simps)

lemma parseString_path:
  assumes "readablePath p"
  shows "parseString L p = Inr (MetricExpr 0 [] [nameExpr L p])"
proof -
  have p: "isIdentPrefix p" "scanIdent p = Inr p" "CHR ''.'' \<in> set p" "p \<noteq> []"
    using assms identPrefix_facts(3) by (auto simp: readablePath_def simp del: isIdentPrefix.simps)
  have l: "lexAll p = ([p], None)" using next_ident [OF p(1,2)] p(4) by (intro lexAll_step [OF _ _ lexAll_Nil]) simp_all
  obtain qs where "andThen Next (\<lambda>_. parseExpr L (Suc (Suc 0))) (lexerAt [] [] [p]) = (Inr (MetricExpr 0 [] [nameExpr L p]), lexerAt qs [] [])"
    using parseExpr_name [OF p(1) dot_not_word(1,2) [OF p(3)]] by blast
  then show ?thesis
    by (intro parseString_on_tokens [OF l]) (auto simp: parseFuel_def lexerAt_def tokenLexer_def isEOF_def)
qed

lemma expand_name:
  assumes "p \<noteq> []" "bslash \<notin> set p" "esc True p \<notin> waName ` set was"
  shows "expandWithExpr L (Suc (Suc n)) was (MetricExpr 0 [] [nameExpr L p]) 0 = (Inr (MetricExpr 0 [nameLabel p] []), 1)"
proof -
  have "unesc ''__name__'' = ''__name__''" by (rule unesc_plain) simp
  then have lf: "toLabelFilter L ((nameExpr L p)\<lparr>lfeValue := Some (p, [])\<rparr>) = Inr (nameLabel p)"
    using assms(2) by (simp add: toLabelFilter_def unescapeIdent_eq_unesc unesc_plain nameExpr_def nameLabel_def)
  have "lfeValue (nameExpr L p) = Some ([], [Quote L p])" by (simp add: nameExpr_def)
  with lf have "expandFilters (expandWithExpr L (Suc n)) L was [nameExpr L p] [] 0 = (Inr [nameLabel p], 0)"
    by (simp add: andThen_at expand_quoted liftResult_def ret_def del: expandWithExpr.simps)
  moreover have "removeDuplicateLabelFilters L [nameLabel p] = [nameLabel p]" by (simp add: removeDuplicateLabelFilters_def)
  moreover have "expandMetricName (expandWithExpr L (Suc n)) L was (MetricExpr 0 [nameLabel p] []) [nameLabel p] 1 =
      (Inr (MetricExpr 0 [nameLabel p] []), 1)"
    using assms(3) by (simp add: expandMetricName_def ret_def appendEscapedIdent_eq getWithArg_none nameLabel_def)
  ultimately show ?thesis by (simp add: andThen_at allocMetric_def Let_def)
qed

lemma Parse_path:
  assumes "readablePath p"
  shows "Parse L (Suc (Suc n)) p = Inr (MetricExpr 0 [nameLabel p] [])"
proof -
  obtain was where d: "getDefaultWithArgExprs L = Inr was" "map waName was = templateNames" using defaults_ok by blast
  have "esc True p \<notin> set (map waName was)" unfolding d(2) by (rule dot_not_word(3) [OF readablePath_dot [OF assms]])
  moreover have "p \<noteq> []" "bslash \<notin> set p" using assms by (auto simp: readablePath_def)
  ultimately have "expandWithExpr L (Suc (Suc n)) was (MetricExpr 0 [] [nameExpr L p]) 0 = (Inr (MetricExpr 0 [nameLabel p] []), 1)"
    by (intro expand_name) simp_all
  then show ?thesis unfolding Parse_def parseString_path [OF assms] d(1)
    by (simp add: andThen_at wrapErr_def ret_def del: expandWithExpr.simps)
qed

section \<open>The converted metric can be read\<close>

lemma labelName_noDot: "CHR ''.'' \<notin> set name \<Longrightarrow> CHR ''.'' \<notin> set (labelName name i)"
  using natDec_digits [of "CHR ''.''" i] by (auto simp: labelName_def Itoa_of_nat between_def)

lemma noDot_readable: "s \<noteq> [] \<Longrightarrow> CHR ''.'' \<notin> set s \<Longrightarrow> readableLabel s"
proof -
  have "CHR ''.'' \<notin> set s \<Longrightarrow> noDotDot s" for s by (induction s rule: noDotDot.induct) auto
  then show "s \<noteq> [] \<Longrightarrow> CHR ''.'' \<notin> set s \<Longrightarrow> readableLabel s" by (simp add: readableLabel_def)
qed

lemma pathFilters_facts:
  "f \<in> set (pathFilters name gss terminal) \<Longrightarrow> \<exists>i. Label f = labelName name i \<and>
     (IsRegexp f \<longrightarrow> (\<exists>gs \<in> set gss. list_ex isPattern gs \<and> Value f = printRs (map toRegex gs)))"
  by (auto simp: pathFilters_def nodeFilters_def nodeFilter_def in_set_zip split: if_splits simp del: upt_Suc) (metis nth_mem)

lemma nodeFilters_labels:
  "map Label (concat (map (\<lambda>(k, gs). nodeFilters name k gs) (zip [i..<i + length gss] gss))) =
     map (labelName name) (filter (\<lambda>k. printGs (gss ! (k - i)) \<noteq> ''*'') [i..<i + length gss])"
proof (induction gss arbitrary: i)
  case (Cons gs gss)
  have u: "[i..<i + length (gs # gss)] = i # [Suc i..<Suc i + length gss]"
    using upt_conv_Cons [of i "i + length (gs # gss)"] by simp
  have "filter (\<lambda>k. printGs ((gs # gss) ! (k - i)) \<noteq> ''*'') [Suc i..<Suc i + length gss] =
      filter (\<lambda>k. printGs (gss ! (k - Suc i)) \<noteq> ''*'') [Suc i..<Suc i + length gss]"
    by (intro filter_cong) (auto simp: nth_Cons' simp del: upt_Suc)
  with Cons [of "Suc i"] show ?case unfolding u by (simp add: nodeFilters_def nodeFilter_def del: upt_Suc)
qed simp

lemma pathFilters_distinct: "distinct (pathFilters name gss terminal)"
proof -
  have "distinct (map Label (pathFilters name gss terminal))"
    using nodeFilters_labels [of name "Suc 0" gss]
    by (cases terminal) (auto simp: pathFilters_def distinct_map inj_on_def simp del: upt_Suc)
  then show ?thesis by (simp add: distinct_map)
qed

text \<open>A name that is no keyword, number or template of the query language.\<close>

definition freeName :: "string \<Rightarrow> bool" where
  "freeName name \<longleftrightarrow> (let t = appendEscapedIdent [] name in \<not> isInfOrNaN t \<and> \<not> isWith t \<and> t \<notin> set templateNames)"

lemma pathFilters_readable:
  assumes "\<And>gs. gs \<in> set gss \<Longrightarrow> list_ex isPattern gs \<Longrightarrow> CompileRegexpAnchored L (printRs (map toRegex gs)) = None"
    and "CHR ''.'' \<notin> set name" "name \<noteq> []" "freeName name"
  shows "readableMetric L (nameLabel name # pathFilters name gss terminal)"
proof -
  let ?fs = "pathFilters name gss terminal"
  have lab: "Label f \<noteq> ''__name__''" if "f \<in> set ?fs" for f using pathFilters_facts [OF that] by auto
  have rd: "readableFilter L f" if f: "f \<in> set ?fs" for f
  proof -
    obtain i where i: "Label f = labelName name i"
      and re: "IsRegexp f \<Longrightarrow> \<exists>gs \<in> set gss. list_ex isPattern gs \<and> Value f = printRs (map toRegex gs)"
      using pathFilters_facts [OF f] by blast
    have "labelName name i \<noteq> []" by (simp add: labelName_def)
    then have "readableLabel (Label f)" unfolding i using assms(2) by (intro noDot_readable labelName_noDot)
    with re assms(1) show ?thesis by (auto simp: readableFilter_def)
  qed
  have "readableFilter L (nameLabel name)" by (simp add: readableFilter_def readableLabel_def nameLabel_def)
  moreover have "nameLabel name \<notin> set ?fs" using lab [of "nameLabel name"] by (auto simp: nameLabel_def)
  moreover have "hasNonEmptyMetricGroup (nameLabel name # ?fs)" using assms(3) by (simp add: hasNonEmptyMetricGroup_def isNameFilter_def nameLabel_def)
  ultimately show ?thesis
    using lab rd pathFilters_distinct [of name gss terminal] assms(2-4)
    by (auto simp: readableMetric_def list_all_iff readableName_def freeName_def appendEscapedIdent_eq nameLabel_def Let_def)
qed

lemma path_query:
  assumes compile: "\<And>gs. gs \<in> set gss \<Longrightarrow> list_ex isPattern gs \<Longrightarrow> CompileRegexpAnchored L (printRs (map toRegex gs)) = None"
    and wf: "list_all wfNode gss" "gss \<noteq> []"
    and dots: "CHR ''.'' \<notin> set first" "\<forall>gs \<in> set gss. CHR ''.'' \<notin> set (printGs gs)"
    and path: "path = JoinByte CHR ''.'' (first # map printGs gss)" "readablePath path"
    and name: "name = ReplaceByte first CHR ''-'' CHR ''_''" "freeName name"
  shows "covert terminal (MetricExpr 0 [nameLabel path] []) = MetricExpr 0 (nameLabel name # pathFilters name gss terminal) []"
    "readableMetric L (nameLabel name # pathFilters name gss terminal)"
proof -
  have "first \<noteq> []"
  proof
    assume "first = []"
    then have "path = CHR ''.'' # tl path" using wf(2) unfolding path(1) by (cases gss) auto
    moreover have "isIdentPrefix path" using path(2) by (simp add: readablePath_def)
    ultimately show False by (metis hd_dot_ident)
  qed
  have "nameLabel path = \<lparr>Label = ''__name__'', Value = JoinByte CHR ''.'' (first # map printGs gss), IsNegative = False, IsRegexp = False\<rparr>"
    by (simp only: nameLabel_def path(1))
  from covert_path [OF wf dots \<open>first \<noteq> []\<close> name(1) this, of terminal 0]
  show "covert terminal (MetricExpr 0 [nameLabel path] []) = MetricExpr 0 (nameLabel name # pathFilters name gss terminal) []"
    by (simp add: nameLabel_def)
  have "CHR ''.'' \<notin> set name" "name \<noteq> []" using dots(1) \<open>first \<noteq> []\<close> by (auto simp: name(1) ReplaceByte_def)
  then show "readableMetric L (nameLabel name # pathFilters name gss terminal)"
    using compile name(2) by (intro pathFilters_readable)
qed


text \<open>A library whose regular expressions all compile.\<close>

definition sampleLib :: golib where
  "sampleLib = \<lparr>isPrintU = \<lambda>r. False, mathPow = \<lambda>x y. x, regexpCompile = \<lambda>re. None\<rparr>"

text \<open>A path that the lexer takes as one identifier, and a storage that reads its regular expressions.\<close>

definition pathQuery :: "glob list list" where
  "pathQuery = [[GLit CHR ''x'', GStar], [GStar], [GAlt [[GLit CHR ''c''], [GLit CHR ''d'']], GRange ''0-9'']]"

definition pathMatch :: "string \<Rightarrow> string \<Rightarrow> bool" where
  "pathMatch p v \<longleftrightarrow> (\<exists>gs \<in> set pathQuery. p = printRs (map toRegex gs) \<and> runesOf v \<in> langRs (map toRegex gs))"

lemma pathQuery_text:
  "''a-b.x*.*.{c,d}[0-9]'' = JoinByte CHR ''.'' (''a-b'' # map printGs pathQuery)" "length pathQuery = 3"
  "''a_b'' = ReplaceByte ''a-b'' CHR ''-'' CHR ''_''"
  by code_simp+

lemma pathQuery_ok:
  "list_all wfNode pathQuery" "pathQuery \<noteq> []" "CHR ''.'' \<notin> set ''a-b''" "\<forall>gs \<in> set pathQuery. CHR ''.'' \<notin> set (printGs gs)"
  by (simp_all add: pathQuery_def wfNode_def plainChar_def ValidIdentifierRunes_def printGs_def validClass_def)

lemma pathQuery_match: "gs \<in> set pathQuery \<Longrightarrow> list_ex isPattern gs \<Longrightarrow> readsRegex pathMatch (map toRegex gs)"
  by (auto simp: pathQuery_def pathMatch_def printRs_def readsRegex_def)


section \<open>Every query\<close>

lemma readBack_folded: "folded (readBack m e) = folded e"
proof -
  have "isNumber (readBack m e) = isNumber e" for e by (cases e) auto
  then show ?thesis by (induction e rule: folded.induct) auto
qed

lemma covertExpr_folded:
  "covertExpr terminal name e m = (name', e', m') \<Longrightarrow> folded e' = folded e \<and> isNumber e' = isNumber e"
  "covertArgs terminal name es m = (name', es', m') \<Longrightarrow> (\<forall>e \<in> set es'. folded e) = (\<forall>e \<in> set es. folded e)"
  by (induction terminal name e m and terminal name es m arbitrary: name' e' m' and name' es' m' rule: covertExpr_covertArgs.induct)
    (auto split: prod.splits)

lemma covert_folded: "folded (covert terminal e) = folded e"
  using covertExpr_folded(1) [of terminal "[]" e "\<lambda>_. None"] by (auto simp: covert_def readBack_folded split: prod.split)

text \<open>C6: the text that the proxy sends for a query is read back as the converted expression, up to the
  identities of its metric nodes, whenever that expression is printable.\<close>

theorem CovertMateQuery_reads:
  assumes "Parse L n query = Inr e" "printable L (covert terminal e)"
  shows "\<exists>out e'. CovertMateQuery L n query terminal = Inr out \<and>
    Parse L (need (covert terminal e) + m) out = Inr e' \<and> forgetRefs e' = forgetRefs (covert terminal e)"
proof -
  obtain was where "getDefaultWithArgExprs L = Inr was" using defaults_ok by blast
  from Parse_result [OF this assms(1)] have "folded (covert terminal e)" by (simp add: covert_folded)
  from Parse_printable [OF assms(2) this, of m] show ?thesis by (auto simp: CovertMateQuery_def assms(1))
qed

theorem CovertMateQuery_reads_witness:
  "\<exists>out e'. CovertMateQuery sampleLib 2 ''a-b.x*.*.{c,d}[0-9]'' False = Inr out \<and>
    Parse sampleLib (need (MetricExpr 0 (nameLabel ''a_b'' # pathFilters ''a_b'' pathQuery False) [])) out = Inr e' \<and>
    forgetRefs e' = MetricExpr 0 (nameLabel ''a_b'' # pathFilters ''a_b'' pathQuery False) []"
proof -
  let ?e = "MetricExpr 0 (nameLabel ''a_b'' # pathFilters ''a_b'' pathQuery False) []"
  have p: "readablePath ''a-b.x*.*.{c,d}[0-9]''" "freeName ''a_b''" "freeWord (esc True ''a_b'')" by code_simp+
  have c: "CompileRegexpAnchored sampleLib re = None" for re by (simp add: CompileRegexpAnchored_def sampleLib_def)
  note q = path_query [OF c pathQuery_ok pathQuery_text(1) p(1) pathQuery_text(3) p(2), of False]
  from q(2) have pr: "printable sampleLib (covert False (MetricExpr 0 [nameLabel ''a-b.x*.*.{c,d}[0-9]''] []))"
    unfolding q(1) using p(3) by (simp add: nameLabel_def del: esc.simps)
  have "Parse sampleLib 2 ''a-b.x*.*.{c,d}[0-9]'' = Inr (MetricExpr 0 [nameLabel ''a-b.x*.*.{c,d}[0-9]''] [])"
    using Parse_path [OF p(1), of sampleLib 0] by (simp only: numeral_2_eq_2)
  from CovertMateQuery_reads [OF this pr, of 0] show ?thesis unfolding q(1) by simp
qed

end
