(* ===== verification/QueryProxy.thy ===== *)
theory QueryProxy
  imports MateQL "HOL-Library.AList" "HOL-Library.Char_ord" "HOL-Library.List_Lexorder"
begin

text \<open>
  \<open>src/cmd/matequery/main.go\<close>: the reverse proxy in front of the storage. Its \<open>Director\<close> redirects a
  request to the storage and converts the queries among its parameters; the part of \<open>net/url\<close> it
  uses (parameters decoded, changed and encoded again) is written out. The listener, the routes and
  the transport of \<open>httputil.ReverseProxy\<close> are third-party or I/O.
\<close>

section \<open>Parameters: \<open>net/url\<close>\<close>

text \<open>\<open>url.Values\<close>: a list of keys, each once, with their values in order.\<close>

type_synonym urlValues = "(string \<times> string list) list"

definition Add :: "urlValues \<Rightarrow> string \<Rightarrow> string \<Rightarrow> urlValues" where
  "Add m k v = (case map_of m k of None \<Rightarrow> m @ [(k, [v])] | Some vs \<Rightarrow> AList.update k (vs @ [v]) m)"

definition Del :: "urlValues \<Rightarrow> string \<Rightarrow> urlValues" where
  "Del m k = filter (\<lambda>(k', vs). k' \<noteq> k) m"

definition upperHex :: "nat \<Rightarrow> char" where
  "upperHex d = char_of (if d < 10 then 48 + d else 55 + d)"

definition unreserved :: "char \<Rightarrow> bool" where
  "unreserved c \<longleftrightarrow> between CHR ''a'' c CHR ''z'' \<or> between CHR ''A'' c CHR ''Z'' \<or> between CHR ''0'' c CHR ''9'' \<or>
     c = CHR ''-'' \<or> c = CHR ''_'' \<or> c = CHR ''.'' \<or> c = CHR ''~''"

definition escapeByte :: "char \<Rightarrow> string" where
  "escapeByte c = (if c = CHR '' '' then ''+'' else if unreserved c then [c]
     else [CHR ''%'', upperHex (byte c div 16), upperHex (byte c mod 16)])"

definition QueryEscape :: "string \<Rightarrow> string" where
  "QueryEscape s = concat (map escapeByte s)"

fun QueryUnescape :: "string \<Rightarrow> string option" where
  "QueryUnescape [] = Some []"
| "QueryUnescape (c # cs) =
     (if c = CHR ''%'' then
        (case cs of
           a # b # ds \<Rightarrow>
             if fromHex a < 0 \<or> fromHex b < 0 then None
             else map_option (\<lambda>u. char_of (nat (fromHex a * 16 + fromHex b)) # u) (QueryUnescape ds)
         | _ \<Rightarrow> None)
      else map_option (\<lambda>u. (if c = CHR ''+'' then CHR '' '' else c) # u) (QueryUnescape cs))"

text \<open>\<open>ParseQuery\<close>: pieces between \<open>&\<close> or \<open>;\<close>, empty and malformed ones left out.\<close>

definition parsePair :: "string \<Rightarrow> (string \<times> string) option" where
  "parsePair p =
     (if p = [] then None
      else case QueryUnescape (takeWhile (\<lambda>c. c \<noteq> CHR ''='') p) of None \<Rightarrow> None
        | Some k \<Rightarrow> (case QueryUnescape (drop 1 (dropWhile (\<lambda>c. c \<noteq> CHR ''='') p)) of None \<Rightarrow> None
            | Some v \<Rightarrow> Some (k, v)))"

definition pairsOfQuery :: "string \<Rightarrow> (string \<times> string) list" where
  "pairsOfQuery raw = List.map_filter parsePair (SplitByte (ReplaceByte raw CHR '';'' CHR ''&'') CHR ''&'')"

definition Query :: "string \<Rightarrow> urlValues" where
  "Query raw = foldl (\<lambda>m (k, v). Add m k v) [] (pairsOfQuery raw)"

text \<open>\<open>Encode\<close>: the keys sorted bytewise; \<open>m[k]\<close> is empty for a key that is absent.\<close>

definition valuesAt :: "urlValues \<Rightarrow> string \<Rightarrow> string list" where
  "valuesAt m k = (case map_of m k of None \<Rightarrow> [] | Some vs \<Rightarrow> vs)"

definition queryPair :: "string \<times> string \<Rightarrow> string" where
  "queryPair kv = QueryEscape (fst kv) @ ''='' @ QueryEscape (snd kv)"

definition sortedPairs :: "urlValues \<Rightarrow> (string \<times> string) list" where
  "sortedPairs m = concat (map (\<lambda>k. map (\<lambda>v. (k, v)) (valuesAt m k)) (sort (map fst m)))"

definition Encode :: "urlValues \<Rightarrow> string" where
  "Encode m = JoinByte CHR ''&'' (map queryPair (sortedPairs m))"

section \<open>The director\<close>

record target =
  Scheme :: string
  TargetHost :: string
  TargetPath :: string

record proxyRequest =
  ReqHost :: string
  UrlScheme :: string
  UrlHost :: string
  UrlPath :: string
  RawQuery :: string

definition singleJoiningSlash :: "string \<Rightarrow> string \<Rightarrow> string" where
  "singleJoiningSlash a b =
     (let aslash = HasSuffix a ''/''; bslash = HasPrefix b ''/'' in
      if aslash \<and> bslash then a @ drop 1 b
      else if \<not> aslash \<and> \<not> bslash then a @ ''/'' @ b
      else a @ b)"

text \<open>A query that does not parse is passed on as it came.\<close>

definition convertQuery :: "golib \<Rightarrow> nat \<Rightarrow> string \<Rightarrow> string \<Rightarrow> string" where
  "convertQuery L n key query =
     (case CovertMateQuery L n query (key = ''query'') of Inl err \<Rightarrow> query | Inr mateQuery \<Rightarrow> mateQuery)"

definition convertKey :: "golib \<Rightarrow> nat \<Rightarrow> urlValues \<Rightarrow> string \<Rightarrow> urlValues" where
  "convertKey L n m key =
     (case map_of m key of
        None \<Rightarrow> m
      | Some queries \<Rightarrow> foldl (\<lambda>m query. Add m key (convertQuery L n key query)) (Del m key) queries)"

definition Director :: "golib \<Rightarrow> nat \<Rightarrow> target \<Rightarrow> proxyRequest \<Rightarrow> proxyRequest" where
  "Director L n t req =
     (let reqQuery = foldl (convertKey L n) (Query (RawQuery req)) [''query'', ''match[]''] in
      req\<lparr>ReqHost := TargetHost t, UrlHost := TargetHost t, UrlScheme := Scheme t,
          UrlPath := singleJoiningSlash (TargetPath t) (UrlPath req), RawQuery := Encode reqQuery\<rparr>)"

section \<open>One slash\<close>

text \<open>However the two paths end and begin, the joined path has exactly one slash at the joint.\<close>

lemma singleJoiningSlash_one:
  "singleJoiningSlash a b =
     (if HasSuffix a ''/'' then butlast a else a) @ ''/'' @ (if HasPrefix b ''/'' then tl b else b)"
proof -
  have "butlast a @ ''/'' = a" if "HasSuffix a ''/''"
  proof -
    from that obtain x where "a = x @ ''/''" unfolding HasSuffix_def by (metis append_take_drop_id)
    then show ?thesis by simp
  qed
  moreover have "''/'' @ tl b = b" if "HasPrefix b ''/''" using that by (cases b) (auto simp: HasPrefix_def)
  ultimately show ?thesis
    by (cases "HasSuffix a ''/''"; cases "HasPrefix b ''/''")
       (simp_all add: singleJoiningSlash_def drop_Suc, metis append.assoc append_Cons append_Nil)
qed

section \<open>Encoded parameters are read back\<close>

lemma byte_upperHex: "d < 16 \<Longrightarrow> byte (upperHex d) = (if d < 10 then 48 + d else 55 + d)"
  by (simp add: upperHex_def)

lemma fromHex_upperHex: "d < 16 \<Longrightarrow> fromHex (upperHex d) = int d"
  by (auto simp: fromHex_def between_def byte_upperHex)

lemma byte_nibbles: "byte c div 16 < 16" "byte c mod 16 < 16"
  using nat_of_char_less_256 [of c] by (simp_all add: less_mult_imp_div_less)

lemma QueryUnescape_escapeByte: "QueryUnescape (escapeByte c @ t) = map_option (\<lambda>u. c # u) (QueryUnescape t)"
proof -
  have "char_of (nat (int (byte c div 16) * 16 + int (byte c mod 16))) = c"
  proof -
    have "int (byte c div 16) * 16 + int (byte c mod 16) = int (byte c)"
      by (metis div_mult_mod_eq of_nat_add of_nat_mult of_nat_numeral)
    then show ?thesis by (simp only: nat_int char_of_char)
  qed
  then have "\<not> (c = CHR '' '' \<or> unreserved c) \<Longrightarrow> ?thesis"
    by (simp add: escapeByte_def fromHex_upperHex byte_nibbles)
  moreover have "unreserved c \<Longrightarrow> c \<noteq> CHR ''%'' \<and> c \<noteq> CHR ''+'' \<and> c \<noteq> CHR '' ''" by (auto simp: unreserved_def between_def)
  ultimately show ?thesis by (auto simp: escapeByte_def)
qed

lemma QueryUnescape_Escape: "QueryUnescape (QueryEscape s) = Some s"
  by (induction s) (simp_all add: QueryEscape_def QueryUnescape_escapeByte)

lemma upperHex_safe:
  assumes "d < 16"
  shows "upperHex d \<notin> {CHR ''&'', CHR '';'', CHR ''=''}"
proof
  assume "upperHex d \<in> {CHR ''&'', CHR '';'', CHR ''=''}"
  then have "byte (upperHex d) \<in> {38, 59, 61}" by auto
  with assms show False by (auto simp: byte_upperHex split: if_splits)
qed

lemma QueryEscape_safe: "c \<in> set (QueryEscape s) \<Longrightarrow> c \<notin> {CHR ''&'', CHR '';'', CHR ''=''}"
proof -
  have "c \<in> set (escapeByte x) \<Longrightarrow> c \<notin> {CHR ''&'', CHR '';'', CHR ''=''}" for x
    using upperHex_safe byte_nibbles [of x] by (auto simp: escapeByte_def unreserved_def between_def split: if_splits)
  then show "c \<in> set (QueryEscape s) \<Longrightarrow> ?thesis" by (auto simp: QueryEscape_def)
qed

lemma queryPair_safe: "CHR ''&'' \<notin> set (queryPair kv)" "CHR '';'' \<notin> set (queryPair kv)"
  using QueryEscape_safe by (auto simp: queryPair_def)

lemma parsePair_queryPair: "parsePair (queryPair kv) = Some kv"
proof -
  have "\<forall>c \<in> set (QueryEscape (fst kv)). c \<noteq> CHR ''=''" using QueryEscape_safe by auto
  then have "takeWhile (\<lambda>c. c \<noteq> CHR ''='') (queryPair kv) = QueryEscape (fst kv)"
    "dropWhile (\<lambda>c. c \<noteq> CHR ''='') (queryPair kv) = CHR ''='' # QueryEscape (snd kv)"
    by (simp_all add: queryPair_def)
  then show ?thesis by (simp add: parsePair_def QueryUnescape_Escape) (simp add: queryPair_def)
qed

lemma pairsOfQuery_Encode: "pairsOfQuery (Encode m) = sortedPairs m"
proof (cases "sortedPairs m = []")
  case True
  then show ?thesis by (simp add: pairsOfQuery_def Encode_def ReplaceByte_def parsePair_def List.map_filter_simps)
next
  case False
  have "CHR '';'' \<notin> set (Encode m)"
  proof -
    have "CHR '';'' \<notin> set (JoinByte CHR ''&'' (map queryPair ps))" for ps
      by (induction ps rule: induct_list012) (simp_all add: queryPair_safe)
    then show ?thesis by (simp add: Encode_def)
  qed
  then have "pairsOfQuery (Encode m) = List.map_filter parsePair (map queryPair (sortedPairs m))"
    using False queryPair_safe by (simp add: pairsOfQuery_def ReplaceByte_absent Encode_def) (subst SplitByte_Join, auto)
  moreover have "List.map_filter parsePair (map queryPair ps) = ps" for ps
    by (induction ps) (simp_all add: List.map_filter_simps parsePair_queryPair)
  ultimately show ?thesis by simp
qed

text \<open>Every key stands once, with at least one value: \<open>Add\<close> and \<open>Del\<close> keep that.\<close>

definition wfValues :: "urlValues \<Rightarrow> bool" where
  "wfValues m \<longleftrightarrow> distinct (map fst m) \<and> [] \<notin> snd ` set m"

lemma wfValues_lookup: "wfValues m \<Longrightarrow> map_of m k = (if valuesAt m k = [] then None else Some (valuesAt m k))"
  by (auto simp: wfValues_def valuesAt_def image_iff split: option.split dest: map_of_SomeD)

lemma wfValues_Add: "wfValues m \<Longrightarrow> wfValues (Add m k v)"
proof -
  assume wf: "wfValues m"
  show ?thesis
  proof (cases "map_of m k")
    case None
    then have "k \<notin> fst ` set m" by (simp add: map_of_eq_None_iff)
    with wf None show ?thesis by (auto simp: Add_def wfValues_def)
  next
    case (Some vs)
    have "snd ` set (AList.update k w xs) \<subseteq> insert w (snd ` set xs)" for w xs
      by (induction xs) auto
    from this [of "vs @ [v]" m] wf Some show ?thesis
      by (auto simp: Add_def wfValues_def distinct_update)
  qed
qed

lemma wfValues_Adds: "wfValues m \<Longrightarrow> wfValues (foldl (\<lambda>m (k, v). Add m k v) m ps)"
  by (induction ps arbitrary: m) (auto simp: wfValues_Add)

lemma valuesAt_Add: "valuesAt (Add m k v) k' = (if k' = k then valuesAt m k @ [v] else valuesAt m k')"
  by (auto simp: Add_def valuesAt_def update_conv' map_add_def split: option.split)

lemma valuesAt_Adds:
  "valuesAt (foldl (\<lambda>m (k, v). Add m k v) m ps) k = valuesAt m k @ map snd (filter (\<lambda>p. fst p = k) ps)"
  by (induction ps arbitrary: m) (auto simp: valuesAt_Add)

lemma wfValues_Query: "wfValues (Query raw)"
  unfolding Query_def by (rule wfValues_Adds) (simp add: wfValues_def)

lemma valuesAt_sortedPairs:
  assumes "wfValues m"
  shows "map snd (filter (\<lambda>p. fst p = k) (sortedPairs m)) = valuesAt m k"
proof -
  have "map snd (filter (\<lambda>p. fst p = k) (concat (map (\<lambda>k. map (\<lambda>v. (k, v)) (valuesAt m k)) ks))) =
      (if k \<in> set ks then valuesAt m k else [])" if "distinct ks" for ks
    using that by (induction ks) (auto simp: filter_map comp_def filter_empty_conv)
  moreover have "k \<notin> set (map fst m) \<Longrightarrow> valuesAt m k = []"
    by (auto simp: valuesAt_def map_of_eq_None_iff split: option.split) (force dest: map_of_SomeD)
  ultimately show ?thesis using assms by (simp add: sortedPairs_def wfValues_def)
qed

lemma Query_Encode: "wfValues m \<Longrightarrow> map_of (Query (Encode m)) k = map_of m k"
  by (simp add: wfValues_lookup wfValues_Query)
    (simp add: Query_def pairsOfQuery_Encode valuesAt_Adds valuesAt_sortedPairs, simp add: valuesAt_def)

section \<open>The queries of a request\<close>

lemma wfValues_Del: "wfValues m \<Longrightarrow> wfValues (Del m k)"
  by (auto simp: Del_def wfValues_def distinct_map inj_on_def image_iff)

lemma valuesAt_Del: "valuesAt (Del m k) k' = (if k' = k then [] else valuesAt m k')"
proof -
  have "map_of (filter (\<lambda>(k', vs). k' \<noteq> k) m) k' = (if k' = k then None else map_of m k')"
    by (induction m) auto
  then show ?thesis by (simp add: Del_def valuesAt_def)
qed

lemma convertKey_Adds:
  "convertKey L n m key = (case map_of m key of None \<Rightarrow> m | Some qs \<Rightarrow>
     foldl (\<lambda>m (k, v). Add m k v) (Del m key) (map (\<lambda>q. (key, convertQuery L n key q)) qs))"
  by (simp add: convertKey_def foldl_map comp_def cong: option.case_cong)

lemma wfValues_convertKey: "wfValues m \<Longrightarrow> wfValues (convertKey L n m key)"
  by (auto simp: convertKey_Adds wfValues_Adds wfValues_Del split: option.split)

lemma valuesAt_convertKey:
  "valuesAt (convertKey L n m key) k =
     (if k = key then map (convertQuery L n key) (valuesAt m key) else valuesAt m k)"
  by (auto simp: convertKey_Adds valuesAt_Adds valuesAt_Del filter_map comp_def valuesAt_def [of m key] split: option.split)

text \<open>C13: what the storage reads from the redirected request: it has the same parameters, and under each
  the same number of values in the same order, those of \<open>query\<close> and of \<open>match[]\<close> converted one
  by one (the ones that do not convert as they came) and every other one untouched; the request
  goes to the host and scheme of the target.\<close>

theorem Director_queries:
  "map_of (Query (RawQuery (Director L n t req))) k =
     map_option (\<lambda>vs. if k \<in> {''query'', ''match[]''} then map (convertQuery L n k) vs else vs)
       (map_of (Query (RawQuery req)) k)
   \<and> ReqHost (Director L n t req) = TargetHost t \<and> UrlHost (Director L n t req) = TargetHost t
   \<and> UrlScheme (Director L n t req) = Scheme t"
proof -
  let ?m = "Query (RawQuery req)"
  let ?m' = "foldl (convertKey L n) ?m [''query'', ''match[]'']"
  have wf: "wfValues ?m'" by (simp add: wfValues_convertKey wfValues_Query)
  have "map_of ?m' k = map_option (\<lambda>vs. if k \<in> {''query'', ''match[]''} then map (convertQuery L n k) vs else vs) (map_of ?m k)"
    using wf by (simp add: wfValues_lookup wfValues_convertKey wfValues_Query valuesAt_convertKey)
  then show ?thesis using wf by (simp add: Director_def Let_def Query_Encode)
qed

end
