(* ===== verification/Mateinsert.thy ===== *)
theory Mateinsert
  imports Converter
begin

text \<open>
  \<open>convertGraphite\<close> of \<open>src/cmd/mateinsert/main.go\<close>: one line \<open>path value time\<close> of the Graphite
  plaintext protocol becomes a tagged line \<open>name;label=node;... value time\<close>. The handler
  of a connection around it is in theory \<open>InsertLoop\<close>.
\<close>

definition nodeTag :: "string \<Rightarrow> nat \<Rightarrow> string \<Rightarrow> string" where
  "nodeTag prefixLabel i label = '';__'' @ prefixLabel @ ''_g'' @ Itoa (int i) @ ''__='' @ label"

fun writeTags :: "string \<Rightarrow> string \<Rightarrow> nat \<Rightarrow> string list \<Rightarrow> string" where
  "writeTags builder prefixLabel i [] = builder"
| "writeTags builder prefixLabel i (label # labels) =
     writeTags (builder @ nodeTag prefixLabel i label) prefixLabel (i + 1) labels"

definition convertGraphite :: "string \<Rightarrow> string \<Rightarrow> bool \<times> string" where
  "convertGraphite builder line =
     (let i1 = IndexByte line CHR '' '' in
      if i1 < 0 then (False, builder)
      else
      let i2 = IndexByte (drop (nat (i1 + 1)) line) CHR '' '' in
      if i2 < 0 then (False, builder)
      else
      let i3 = IndexByte (drop (nat (i1 + 1 + i2 + 1)) line) CHR '' '' in
      if i3 > 0 then (False, builder)
      else
      let metricName = take (nat i1) line;
          metricValue = take (nat i2) (drop (nat (i1 + 1)) line);
          metricTime = drop (nat (i1 + 1 + i2 + 1)) line;
          labels = SplitByte metricName CHR ''.'' in
      if length labels < 2 then (False, builder)
      else
      let prefixLabel = (if CHR ''-'' \<notin> set (labels ! 0) then labels ! 0
                         else ReplaceByte (labels ! 0) CHR ''-'' CHR ''_'');
          builder = builder @ prefixLabel;
          builder = writeTags builder prefixLabel 1 (drop 1 labels) in
      (True, builder @ '' '' @ metricValue @ '' '' @ metricTime @ [newline]))"

section \<open>What a line becomes\<close>

text \<open>A series in the tagged format: its name and its labels.\<close>

definition taggedSeries :: "string \<Rightarrow> (string \<times> string) list \<Rightarrow> string" where
  "taggedSeries name labels = name @ concat (map (\<lambda>(l, v). '';'' @ l @ ''='' @ v) labels)"

lemma nodeTag_label: "nodeTag name i v = '';'' @ labelName name i @ ''='' @ v"
  by (simp add: nodeTag_def labelName_def)

lemma writeTags_append:
  "writeTags b name (Suc j) (drop j vs) =
     b @ concat (map (\<lambda>(l, v). '';'' @ l @ ''='' @ v) (map (\<lambda>i. (labelName name (Suc i), vs ! i)) [j..<length vs]))"
proof (induction "length vs - j" arbitrary: b j)
  case 0
  then show ?case by simp
next
  case (Suc k)
  then have j: "j < length vs" by simp
  then have d: "drop j vs = vs ! j # drop (Suc j) vs" by (simp add: Cons_nth_drop_Suc)
  from Suc.hyps(1) [of "Suc j"] Suc.hyps(2) j show ?case
    unfolding d by (simp add: nodeTag_label upt_conv_Cons)
qed

lemma writeTags_stored: "writeTags b name 1 vs = b @ concat (map (\<lambda>(l, v). '';'' @ l @ ''='' @ v) (storedLabels name vs))"
  using writeTags_append [of b name 0 vs] by (simp add: storedLabels_def)

lemma prefixLabel_eq:
  "(if CHR ''-'' \<notin> set first then first else ReplaceByte first CHR ''-'' CHR ''_'')
     = ReplaceByte first CHR ''-'' CHR ''_''"
  by (simp add: ReplaceByte_absent)

lemma two_nodes: "2 \<le> length (SplitByte s c) \<longleftrightarrow> c \<in> set s"
proof
  assume "c \<in> set s"
  then obtain p q where "s = p @ c # q" "c \<notin> set p" using split_list_first by metis
  moreover have "0 < length (SplitByte q c)" by simp
  ultimately show "2 \<le> length (SplitByte s c)" by (simp add: SplitByte_Cons_sep Suc_le_eq)
next
  assume "2 \<le> length (SplitByte s c)"
  then show "c \<in> set s" using SplitByte_single [of c s] by (cases "c \<in> set s") auto
qed

lemma cut_unique:
  "c \<notin> set p \<Longrightarrow> c \<notin> set q \<Longrightarrow> p @ c # r = q @ c # s \<longleftrightarrow> p = q \<and> r = s"
proof (induction p arbitrary: q)
  case Nil
  then show ?case by (cases q) auto
next
  case (Cons x p)
  then show ?case by (cases q) auto
qed

text \<open>The three fields of a line, cut at the first two spaces.\<close>

lemma convertGraphite_fields:
  assumes "CHR '' '' \<notin> set path" "CHR '' '' \<notin> set val"
  shows "convertGraphite builder (path @ '' '' @ val @ '' '' @ time) =
    (if IndexByte time CHR '' '' > 0 \<or> CHR ''.'' \<notin> set path then (False, builder)
     else let labels = SplitByte path CHR ''.''; name = ReplaceByte (labels ! 0) CHR ''-'' CHR ''_'' in
       (True, builder @ taggedSeries name (storedLabels name (drop 1 labels)) @ '' '' @ val @ '' '' @ time @ [newline]))"
proof -
  let ?line = "path @ '' '' @ val @ '' '' @ time"
  have i1: "IndexByte ?line CHR '' '' = int (length path)"
    using IndexByte_append [OF assms(1), of "val @ '' '' @ time"] by simp
  have d1: "drop (nat (int (length path) + 1)) ?line = val @ '' '' @ time" by (simp add: nat_add_distrib)
  have i2: "IndexByte (val @ '' '' @ time) CHR '' '' = int (length val)"
    using IndexByte_append [OF assms(2), of time] by simp
  have d2: "drop (nat (int (length path) + 1 + int (length val) + 1)) ?line = time"
    by (simp add: nat_add_distrib)
  show ?thesis
    unfolding convertGraphite_def i1 Let_def d1 i2 d2 prefixLabel_eq
    using two_nodes [of path "CHR ''.''"]
    by (auto simp: writeTags_stored [simplified] taggedSeries_def Let_def)
qed

lemma convertGraphite_few:
  assumes "\<nexists>path val time. line = path @ '' '' @ val @ '' '' @ time \<and> CHR '' '' \<notin> set path \<and> CHR '' '' \<notin> set val"
  shows "convertGraphite builder line = (False, builder)"
proof (cases "CHR '' '' \<in> set line")
  case True
  then obtain path r where line: "line = path @ CHR '' '' # r" and p: "CHR '' '' \<notin> set path"
    using split_list_first by metis
  have "CHR '' '' \<notin> set r"
  proof
    assume "CHR '' '' \<in> set r"
    then obtain val time where "r = val @ CHR '' '' # time" "CHR '' '' \<notin> set val"
      using split_list_first by metis
    with line p assms show False by auto
  qed
  then have "IndexByte r CHR '' '' < 0" by (simp add: IndexByte_neg_iff)
  moreover have "IndexByte line CHR '' '' = int (length path)" using IndexByte_append [OF p] line by simp
  moreover have "drop (nat (int (length path) + 1)) line = r" by (simp add: line nat_add_distrib)
  ultimately show ?thesis by (simp add: convertGraphite_def)
next
  case False
  then have "IndexByte line CHR '' '' < 0" by (simp add: IndexByte_neg_iff)
  then show ?thesis by (simp add: convertGraphite_def)
qed

lemma IndexByte_pos: "IndexByte s c > 0 \<longleftrightarrow> c \<in> set s \<and> \<not> HasPrefix s [c]"
proof (cases s)
  case (Cons x xs)
  then show ?thesis
    using IndexByte_neg_iff [of xs c] by (auto simp: HasPrefix_def Let_def)
qed (simp add: HasPrefix_def)

text \<open>C30: a line with a dotted path, a value and a time, separated by single spaces, is written as the tagged
  series of its path, with the value, the time and a newline.\<close>

theorem convertGraphite_line:
  assumes "CHR '' '' \<notin> set (JoinByte CHR ''.'' (first # vs))" "CHR '' '' \<notin> set val"
    and "CHR '' '' \<notin> set time" "vs \<noteq> []"
    and "CHR ''.'' \<notin> set first" "\<forall>v \<in> set vs. CHR ''.'' \<notin> set v"
    and name: "name = ReplaceByte first CHR ''-'' CHR ''_''"
  shows "convertGraphite builder (JoinByte CHR ''.'' (first # vs) @ '' '' @ val @ '' '' @ time) =
    (True, builder @ taggedSeries name (storedLabels name vs) @ '' '' @ val @ '' '' @ time @ [newline])"
proof -
  have s: "SplitByte (JoinByte CHR ''.'' (first # vs)) CHR ''.'' = first # vs"
    using assms(5,6) by (intro SplitByte_Join) auto
  have "2 \<le> length (first # vs)" using assms(4) by (cases vs) auto
  then have "CHR ''.'' \<in> set (JoinByte CHR ''.'' (first # vs))" using two_nodes s by metis
  then show ?thesis
    unfolding convertGraphite_fields [OF assms(1,2)] s
    using assms(3) by (simp add: IndexByte_absent name Let_def)
qed

theorem convertGraphite_line_witness:
  "convertGraphite [] ''a-b.c.d 1 2'' = (True, ''a_b;__a_b_g1__=c;__a_b_g2__=d 1 2'' @ [newline])"
proof -
  have "taggedSeries ''a_b'' (storedLabels ''a_b'' [''c'', ''d'']) = ''a_b;__a_b_g1__=c;__a_b_g2__=d''"
    by code_simp
  then show ?thesis
    using convertGraphite_line [of "''a-b''" "[''c'', ''d'']" "''1''" "''2''" "''a_b''" "[]"]
    by (simp add: ReplaceByte_def)
qed

text \<open>C31: a line is accepted iff it has a first field with a dot, a second field and a time that holds no further
  space, or begins with one; a rejected line writes nothing.\<close>

theorem convertGraphite_accepts:
  "(fst (convertGraphite builder line) \<longleftrightarrow>
      (\<exists>path val time. line = path @ '' '' @ val @ '' '' @ time \<and> CHR '' '' \<notin> set path \<and> CHR '' '' \<notin> set val \<and>
         CHR ''.'' \<in> set path \<and> (CHR '' '' \<notin> set time \<or> HasPrefix time '' ''))) \<and>
   (fst (convertGraphite builder line) \<or> snd (convertGraphite builder line) = builder)"
proof (cases "\<exists>path val time. line = path @ '' '' @ val @ '' '' @ time \<and> CHR '' '' \<notin> set path \<and> CHR '' '' \<notin> set val")
  case False
  then show ?thesis using convertGraphite_few [OF False, of builder] by auto
next
  case True
  then obtain path val time where
    l: "line = path @ '' '' @ val @ '' '' @ time" "CHR '' '' \<notin> set path" "CHR '' '' \<notin> set val" by blast
  have uniq: "p = path \<and> t = time"
    if "line = p @ '' '' @ v @ '' '' @ t" "CHR '' '' \<notin> set p" "CHR '' '' \<notin> set v" for p v t
    using that l by (auto simp: cut_unique)
  have ex: "(\<exists>path val time. line = path @ '' '' @ val @ '' '' @ time \<and> CHR '' '' \<notin> set path \<and> CHR '' '' \<notin> set val \<and>
         CHR ''.'' \<in> set path \<and> (CHR '' '' \<notin> set time \<or> HasPrefix time '' ''))
      \<longleftrightarrow> CHR ''.'' \<in> set path \<and> (CHR '' '' \<notin> set time \<or> HasPrefix time '' '')"
    using l uniq by blast
  show ?thesis
    using convertGraphite_fields [OF l(2,3), of builder time]
    unfolding ex l(1) [symmetric] IndexByte_pos
    by (cases "CHR ''.'' \<in> set path \<and> (CHR '' '' \<notin> set time \<or> HasPrefix time '' '')") (auto simp: Let_def)
qed

text \<open>An empty field before the time is let through.\<close>

theorem convertGraphite_accepts_witness: "fst (convertGraphite [] ''a.b 1  5'')"
proof -
  have "\<exists>path val time. ''a.b 1  5'' = path @ '' '' @ val @ '' '' @ time \<and> CHR '' '' \<notin> set path \<and> CHR '' '' \<notin> set val \<and>
      CHR ''.'' \<in> set path \<and> (CHR '' '' \<notin> set time \<or> HasPrefix time '' '')"
    by (rule exI [of _ "''a.b''"], rule exI [of _ "''1''"], rule exI [of _ "'' 5''"]) (simp add: HasPrefix_def)
  with convertGraphite_accepts [of "[]" "''a.b 1  5''"] show ?thesis by blast
qed

end
