(* ===== verification/InsertLoop.thy ===== *)
theory InsertLoop
  imports Mateinsert "HOL-Library.Sublist"
begin

text \<open>
  The connection handler of \<open>src/cmd/mateinsert/main.go\<close>: it reads lines from a client, converts
  them with \<open>convertGraphite\<close> and writes them to the store, through the buffered reader and writer of
  \<open>bufio\<close>, which are written out here because the handler keeps slices of the reader's buffer while
  it reads on. The network is a list of the pieces that the reads return, with the error at its end,
  and a function saying which writes fail.
\<close>

section \<open>The buffered reader\<close>

datatype ioError = EOF | IoError string
datatype sliceError = ErrBufferFull | ReadErr ioError

text \<open>
  \<open>rbuf\<close> is the whole buffer, of which the bytes from \<open>rr\<close> to \<open>rw\<close> are still to be read.
  \<open>incoming\<close> are the pieces in the order they arrive: a read returns one or the part that fits
  (at least one byte, as reads of a \<open>net.Conn\<close> do), and \<open>ending\<close> when none is left.
\<close>

record reader =
  rbuf :: string
  rr :: nat
  rw :: nat
  rerr :: "ioError option"
  incoming :: "string list"
  ending :: ioError

definition slide :: "reader \<Rightarrow> reader" where
  "slide b = b\<lparr>rbuf := take (rw b - rr b) (drop (rr b) (rbuf b)) @ drop (rw b - rr b) (rbuf b), rr := 0, rw := rw b - rr b\<rparr>"

definition fill :: "reader \<Rightarrow> reader" where
  "fill b =
     (case dropWhile (\<lambda>c. c = []) (incoming b) of
        [] \<Rightarrow> (slide b)\<lparr>rerr := Some (ending b), incoming := []\<rparr>
      | c # cs \<Rightarrow>
          let b' = slide b; n = min (length c) (length (rbuf b) - rw b') in
          b'\<lparr>rbuf := take (rw b') (rbuf b') @ take n c @ drop (rw b' + n) (rbuf b'), rw := rw b' + n,
            incoming := (if n < length c then drop n c # cs else cs)\<rparr>)"

definition buffered :: "reader \<Rightarrow> string" where
  "buffered b = take (rw b - rr b) (drop (rr b) (rbuf b))"

definition arriving :: "reader \<Rightarrow> string" where
  "arriving b = concat (incoming b)"

lemma arriving_dropWhile: "concat (dropWhile (\<lambda>c. c = []) (incoming b)) = arriving b"
proof -
  have "concat (dropWhile (\<lambda>c. c = []) xs) = concat xs" for xs :: "string list" by (induction xs) auto
  then show ?thesis by (simp add: arriving_def)
qed

lemma fill_end:
  assumes "arriving b = []"
  shows "fill b = (slide b)\<lparr>rerr := Some (ending b), incoming := []\<rparr>"
proof -
  have "dropWhile (\<lambda>c. c = []) (incoming b) = []" using assms by (simp add: arriving_def)
  then show ?thesis unfolding fill_def by (simp only: list.case)
qed

lemma fill_more:
  assumes "arriving b \<noteq> []" "rw b - rr b < length (rbuf b)" "rw b \<le> length (rbuf b)"
  obtains x cs where "x \<noteq> []" "arriving b = x @ concat cs" "length x \<le> length (rbuf b) - (rw b - rr b)"
    "fill b = (slide b)\<lparr>rbuf := buffered b @ x @ drop (rw b - rr b + length x) (rbuf (slide b)),
       rw := rw b - rr b + length x, incoming := cs\<rparr>"
proof -
  obtain c cs where d: "dropWhile (\<lambda>c. c = []) (incoming b) = c # cs"
    using assms(1) arriving_dropWhile [of b] by (cases "dropWhile (\<lambda>c. c = []) (incoming b)") auto
  have c: "arriving b = c @ concat cs" using arriving_dropWhile [of b] d by simp
  have "c \<noteq> []" using d by (metis (full_types) dropWhile_eq_Cons_conv)
  let ?n = "min (length c) (length (rbuf b) - (rw b - rr b))"
  let ?cs = "if ?n < length c then drop ?n c # cs else cs"
  have len: "length (rbuf (slide b)) = length (rbuf b)" using assms(3) by (simp add: slide_def)
  have take: "take (rw b - rr b) (rbuf (slide b)) = buffered b" using assms(3) by (simp add: slide_def buffered_def)
  show ?thesis
  proof (rule that [of "take ?n c" ?cs])
    show "take ?n c \<noteq> []" using \<open>c \<noteq> []\<close> assms(2) by simp
    show "arriving b = take ?n c @ concat ?cs" using c by simp
    show "length (take ?n c) \<le> length (rbuf b) - (rw b - rr b)" by simp
    have "rw (slide b) = rw b - rr b" by (simp add: slide_def)
    then show "fill b = (slide b)\<lparr>rbuf := buffered b @ take ?n c @ drop (rw b - rr b + length (take ?n c)) (rbuf (slide b)),
       rw := rw b - rr b + length (take ?n c), incoming := ?cs\<rparr>"
      unfolding fill_def d by (simp add: Let_def len take)
  qed
qed

lemma fill_progress:
  assumes "rw b - rr b < length (rbuf b)"
  shows "rerr (fill b) \<noteq> None \<and> arriving (fill b) = [] \<or>
    rerr (fill b) = rerr b \<and> length (arriving (fill b)) < length (arriving b)"
proof (cases "arriving b = []")
  case True
  then show ?thesis by (simp add: fill_end arriving_def [of "(slide b)\<lparr>rerr := Some (ending b), incoming := []\<rparr>"])
next
  case False
  then obtain c cs where d: "dropWhile (\<lambda>c. c = []) (incoming b) = c # cs"
    using arriving_dropWhile [of b] by (cases "dropWhile (\<lambda>c. c = []) (incoming b)") auto
  have "arriving b = c @ concat cs" using arriving_dropWhile [of b] d by simp
  moreover have "c \<noteq> []" using d by (metis (full_types) dropWhile_eq_Cons_conv)
  moreover have "rw (slide b) = rw b - rr b" "rerr (slide b) = rerr b" by (auto simp: slide_def)
  ultimately show ?thesis using assms unfolding fill_def d by (auto simp: Let_def arriving_def)
qed

text \<open>\<open>ReadSlice('\n')\<close>: where the bytes stand in the buffer, and the error with them.\<close>

function readSlice :: "reader \<Rightarrow> nat \<times> nat \<times> sliceError option \<times> reader" where
  "readSlice b =
     (let i = IndexByte (buffered b) newline in
      if i \<ge> 0 then (rr b, nat i + 1, None, b\<lparr>rr := rr b + nat i + 1\<rparr>)
      else case rerr b of
        Some e \<Rightarrow> (rr b, rw b - rr b, Some (ReadErr e), b\<lparr>rr := rw b, rerr := None\<rparr>)
      | None \<Rightarrow>
          if rw b - rr b \<ge> length (rbuf b) then (0, length (rbuf b), Some ErrBufferFull, b\<lparr>rr := rw b\<rparr>)
          else readSlice (fill b))"
  by pat_completeness auto
termination
proof (relation "measure (\<lambda>b. 2 * length (arriving b) + (if rerr b = None then 1 else 0))")
  fix b :: reader and i
  assume "rerr b = None" "\<not> rw b - rr b \<ge> length (rbuf b)"
  then consider "rerr (fill b) \<noteq> None" "length (arriving (fill b)) = 0"
    | "length (arriving (fill b)) < length (arriving b)"
    using fill_progress [of b] by fastforce
  then show "(fill b, b) \<in> measure (\<lambda>b. 2 * length (arriving b) + (if rerr b = None then 1 else 0))"
    using \<open>rerr b = None\<close> by cases auto
qed simp

declare readSlice.simps [simp del]

text \<open>A byte slice of the handler: part of the reader's buffer, or an array of its own.\<close>

datatype goBytes = InBuffer nat nat | Own string

fun bytesOf :: "reader \<Rightarrow> goBytes \<Rightarrow> string" where
  "bytesOf b (InBuffer i n) = take n (drop i (rbuf b))"
| "bytesOf b (Own s) = s"

text \<open>\<open>append(line, next...)\<close> writes into the buffer as long as its capacity allows.\<close>

fun appendBytes :: "goBytes \<Rightarrow> goBytes \<Rightarrow> reader \<Rightarrow> goBytes \<times> reader" where
  "appendBytes (InBuffer i n) s b =
     (let x = bytesOf b s in
      if i + n + length x \<le> length (rbuf b) then
        (InBuffer i (n + length x), b\<lparr>rbuf := take (i + n) (rbuf b) @ x @ drop (i + n + length x) (rbuf b)\<rparr>)
      else (Own (bytesOf b (InBuffer i n) @ x), b))"
| "appendBytes (Own t) s b = (Own (t @ bytesOf b s), b)"

definition CR :: char where
  "CR = char_of (13 :: nat)"

definition ReadLine :: "reader \<Rightarrow> goBytes \<times> bool \<times> ioError option \<times> reader" where
  "ReadLine b =
     (case readSlice b of (i, n, err, b) \<Rightarrow>
        if err = Some ErrBufferFull then
          (if n > 0 \<and> rbuf b ! (i + n - 1) = CR then (InBuffer i (n - 1), True, None, b\<lparr>rr := rr b - 1\<rparr>)
           else (InBuffer i n, True, None, b))
        else if n = 0 then (InBuffer 0 0, False, case err of Some (ReadErr e) \<Rightarrow> Some e | _ \<Rightarrow> None, b)
        else if rbuf b ! (i + n - 1) = newline then
          (InBuffer i (n - (if n > 1 \<and> rbuf b ! (i + n - 2) = CR then 2 else 1)), False, None, b)
        else (InBuffer i n, False, None, b))"

text \<open>The inner loop of the handler: the rest of a line that did not fit. \<open>None\<close>: out of fuel.\<close>

fun readRest :: "nat \<Rightarrow> goBytes \<Rightarrow> bool \<Rightarrow> ioError option \<Rightarrow> reader \<Rightarrow> (goBytes \<times> ioError option \<times> reader) option" where
  "readRest 0 line isContinue err b = None"
| "readRest (Suc n) line isContinue err b =
     (if isContinue \<and> err = None then
        (let (more, isContinue, err, b) = ReadLine b; (line, b) = appendBytes line more b in readRest n line isContinue err b)
      else Some (line, err, b))"

section \<open>The buffered writer\<close>

text \<open>
  \<open>sent\<close> is what the store has received. \<open>W\<close> says, from what was sent before and the data of a
  write, whether the write fails, and after how many bytes.
\<close>

record writer =
  wbuf :: string
  sent :: string
  werr :: "ioError option"

type_synonym remote = "string \<Rightarrow> string \<Rightarrow> (nat \<times> ioError) option"

definition bufferSize :: nat where
  "bufferSize = 64 * 1024"

definition Available :: "writer \<Rightarrow> nat" where
  "Available w = bufferSize - length (wbuf w)"

definition Flush :: "remote \<Rightarrow> writer \<Rightarrow> ioError option \<times> writer" where
  "Flush W w =
     (case werr w of Some e \<Rightarrow> (Some e, w)
      | None \<Rightarrow>
          if wbuf w = [] then (None, w)
          else case W (sent w) (wbuf w) of
            None \<Rightarrow> (None, w\<lparr>sent := sent w @ wbuf w, wbuf := []\<rparr>)
          | Some (n, e) \<Rightarrow> (Some e, w\<lparr>sent := sent w @ take n (wbuf w), wbuf := drop n (wbuf w), werr := Some e\<rparr>))"

text \<open>\<open>Write\<close>: its loop runs at most twice, since a flush without an error leaves an empty buffer.\<close>

definition writeThrough :: "remote \<Rightarrow> string \<Rightarrow> writer \<Rightarrow> ioError option \<times> writer" where
  "writeThrough W p w =
     (case W (sent w) p of
        None \<Rightarrow> (None, w\<lparr>sent := sent w @ p\<rparr>)
      | Some (n, e) \<Rightarrow> (Some e, w\<lparr>sent := sent w @ take n p, werr := Some e\<rparr>))"

definition store :: "string \<Rightarrow> writer \<Rightarrow> ioError option \<times> writer" where
  "store p w = (case werr w of Some e \<Rightarrow> (Some e, w) | None \<Rightarrow> (None, w\<lparr>wbuf := wbuf w @ p\<rparr>))"

definition Write :: "remote \<Rightarrow> string \<Rightarrow> writer \<Rightarrow> ioError option \<times> writer" where
  "Write W p w =
     (if length p > Available w \<and> werr w = None then
        if wbuf w = [] then writeThrough W p w
        else
          (let n = Available w; (e, w) = Flush W (w\<lparr>wbuf := wbuf w @ take n p\<rparr>) in
           if length (drop n p) > Available w \<and> werr w = None then writeThrough W (drop n p) w
           else store (drop n p) w)
      else store p w)"

section \<open>The handler\<close>

datatype stop = DialFailed ioError | Closed | ReadFailed ioError | WriteFailed ioError

fun insertLoop :: "remote \<Rightarrow> nat \<Rightarrow> reader \<Rightarrow> writer \<Rightarrow> (stop \<times> writer) option" where
  "insertLoop W 0 b w = None"
| "insertLoop W (Suc fuel) b w =
     (let (line, isContinue, err, b) = ReadLine b in
      case readRest fuel line isContinue err b of None \<Rightarrow> None
      | Some (line, err, b) \<Rightarrow>
          (case err of
             Some EOF \<Rightarrow> Some (Closed, w)
           | Some e \<Rightarrow> Some (ReadFailed e, w)
           | None \<Rightarrow>
               let (success, builder) = convertGraphite [] (bytesOf b line) in
               if \<not> success then insertLoop W fuel b w
               else case Write W builder w of
                 (Some e, w) \<Rightarrow> Some (WriteFailed e, w)
               | (None, w) \<Rightarrow>
                   let (err, w) = (if Available w < 8192 then Flush W w else (None, w)) in
                   case err of Some e \<Rightarrow> Some (WriteFailed e, w) | None \<Rightarrow> insertLoop W fuel b w))"

text \<open>
  One connection: \<open>dial\<close> is the outcome of connecting to the store, \<open>buf\<close> what the reader's buffer
  holds from earlier connections. The deferred \<open>Flush\<close> runs at the end.
\<close>

definition insertConn :: "remote \<Rightarrow> nat \<Rightarrow> ioError option \<Rightarrow> string \<Rightarrow> string list \<Rightarrow> ioError \<Rightarrow> (stop \<times> writer) option" where
  "insertConn W fuel dial buf pieces e =
     (let w = \<lparr>wbuf = [], sent = [], werr = None\<rparr> in
      case dial of Some e \<Rightarrow> Some (DialFailed e, w)
      | None \<Rightarrow>
          map_option (\<lambda>(stop, w). (stop, snd (Flush W w)))
            (insertLoop W fuel \<lparr>rbuf = buf, rr = 0, rw = 0, rerr = None, incoming = pieces, ending = e\<rparr> w))"

section \<open>Reading lines\<close>

definition wfReader :: "reader \<Rightarrow> bool" where
  "wfReader b \<longleftrightarrow> rr b \<le> rw b \<and> rw b \<le> length (rbuf b) \<and> 0 < length (rbuf b) \<and> (rerr b = None \<or> rerr b = Some (ending b) \<and> arriving b = [])"

definition unread :: "reader \<Rightarrow> string" where
  "unread b = buffered b @ arriving b"

text \<open>What reading leaves as it was: the size of the buffer and how the connection will end.\<close>

definition sameConn :: "reader \<Rightarrow> reader \<Rightarrow> bool" where
  "sameConn b b' \<longleftrightarrow> wfReader b' \<and> length (rbuf b') = length (rbuf b) \<and> ending b' = ending b"

lemma length_buffered: "wfReader b \<Longrightarrow> length (buffered b) = rw b - rr b"
  by (auto simp: wfReader_def buffered_def)

lemma fill_reads:
  assumes "wfReader b" "rw b - rr b < length (rbuf b)" "rerr b = None"
  shows "sameConn b (fill b) \<and> unread (fill b) = unread b"
proof (cases "arriving b = []")
  case True
  with assms show ?thesis
    by (auto simp: fill_end sameConn_def wfReader_def unread_def slide_def buffered_def arriving_def)
next
  case False
  with assms obtain x cs where x: "x \<noteq> []" "arriving b = x @ concat cs" "length x \<le> length (rbuf b) - (rw b - rr b)"
    "fill b = (slide b)\<lparr>rbuf := buffered b @ x @ drop (rw b - rr b + length x) (rbuf (slide b)),
       rw := rw b - rr b + length x, incoming := cs\<rparr>"
    using fill_more [of b] by (auto simp: wfReader_def)
  have len: "length (rbuf (slide b)) = length (rbuf b)" using assms(1) by (auto simp: slide_def wfReader_def min_def)
  have bl: "length (buffered b) = rw b - rr b" using assms(1) by (rule length_buffered)
  have "rr (slide b) = 0" "rerr (slide b) = None" "ending (slide b) = ending b" using assms by (simp_all add: slide_def)
  then show ?thesis unfolding x(4) using x(1-3) assms len bl
    by (auto simp: sameConn_def wfReader_def unread_def buffered_def arriving_def)
qed

text \<open>A line that is complete, and shorter than the buffer.\<close>

lemma readSlice_line:
  assumes "wfReader b" "unread b = p @ newline # q" "newline \<notin> set p" "length p < length (rbuf b)"
  shows "\<exists>i b'. readSlice b = (i, length p + 1, None, b') \<and> take (length p + 1) (drop i (rbuf b')) = p @ [newline] \<and>
    sameConn b b' \<and> unread b' = q"
  using assms
proof (induction b rule: readSlice.induct)
  case (1 b)
  note len = length_buffered [OF 1(2)]
  show ?case
  proof (cases "newline \<in> set (buffered b)")
    case True
    then obtain p' q' where s: "buffered b = p' @ newline # q'" "newline \<notin> set p'" by (meson split_list_first)
    with 1 have "p' @ newline # (q' @ arriving b) = p @ newline # q" by (simp add: unread_def)
    then have eq: "p' = p" "q = q' @ arriving b" by (simp_all add: cut_unique [OF s(2) 1(4)])
    have i: "IndexByte (buffered b) newline = int (length p)" using s eq by (simp add: IndexByte_append)
    let ?b' = "b\<lparr>rr := rr b + length p + 1\<rparr>"
    have r: "readSlice b = (rr b, length p + 1, None, ?b')" by (subst readSlice.simps) (simp add: i)
    have l: "rw b - rr b = length p + 1 + length q'" "rw b - Suc (rr b + length p) = length q'" using len s eq by simp_all
    have d: "take (rw b - rr b) (drop (rr b) (rbuf b)) = p @ newline # q'" using s eq by (simp add: buffered_def)
    have "take (length p + 1) (take (rw b - rr b) (drop (rr b) (rbuf b))) = p @ [newline]" unfolding d by simp
    then have t: "take (length p + 1) (drop (rr b) (rbuf ?b')) = p @ [newline]" using l(1) by (simp add: min_def)
    have "drop (length p + 1) (take (rw b - rr b) (drop (rr b) (rbuf b))) = q'" unfolding d by simp
    then have "buffered ?b' = q'" using l by (simp add: buffered_def drop_take add.commute)
    then have "unread ?b' = q" using eq by (simp add: unread_def arriving_def)
    moreover have "sameConn b ?b'" using 1(2) l by (auto simp: sameConn_def wfReader_def arriving_def)
    ultimately show ?thesis using r t by blast
  next
    case False
    then have i: "IndexByte (buffered b) newline = -1" by (rule IndexByte_absent)
    have none: "rerr b = None" using 1(2,3) False by (auto simp: wfReader_def unread_def)
    have "length (buffered b) \<le> length p"
    proof (rule ccontr)
      assume "\<not> length (buffered b) \<le> length p"
      then have "(buffered b @ arriving b) ! length p = buffered b ! length p" "length p < length (buffered b)" by (simp_all add: nth_append)
      with False 1(3) show False by (metis nth_append_length nth_mem unread_def)
    qed
    with 1(5) len have lt: "rw b - rr b < length (rbuf b)" by simp
    have "readSlice b = readSlice (fill b)" by (subst readSlice.simps) (use i none lt in simp)
    moreover from fill_reads [OF 1(2) lt none] have f: "sameConn b (fill b)" "unread (fill b) = unread b" by auto
    moreover have "\<exists>i b'. readSlice (fill b) = (i, length p + 1, None, b') \<and> take (length p + 1) (drop i (rbuf b')) = p @ [newline] \<and>
      sameConn (fill b) b' \<and> unread b' = q"
      using 1(1) [OF refl] i none lt f 1(3-5) by (simp add: sameConn_def)
    ultimately show ?thesis by (auto simp: sameConn_def)
  qed
qed

text \<open>The end of the connection, with what is left.\<close>

lemma readSlice_end:
  assumes "wfReader b" "newline \<notin> set (unread b)" "length (unread b) < length (rbuf b)"
  shows "\<exists>i b'. readSlice b = (i, length (unread b), Some (ReadErr (ending b)), b') \<and>
    take (length (unread b)) (drop i (rbuf b')) = unread b \<and> sameConn b b' \<and> unread b' = []"
  using assms
proof (induction b rule: readSlice.induct)
  case (1 b)
  note len = length_buffered [OF 1(2)]
  have i: "IndexByte (buffered b) newline = -1" using 1(3) by (intro IndexByte_absent) (simp add: unread_def)
  show ?case
  proof (cases "rerr b = None")
    case True
    have lt: "rw b - rr b < length (rbuf b)" using 1(4) len by (simp add: unread_def)
    have "readSlice b = readSlice (fill b)" by (subst readSlice.simps) (use i True lt in simp)
    moreover from fill_reads [OF 1(2) lt True] have f: "sameConn b (fill b)" "unread (fill b) = unread b" by auto
    moreover have "\<exists>i b'. readSlice (fill b) = (i, length (unread b), Some (ReadErr (ending b)), b') \<and>
        take (length (unread b)) (drop i (rbuf b')) = unread b \<and> sameConn (fill b) b' \<and> unread b' = []"
      using 1(1) [OF refl] i True lt f 1(3,4) by (simp add: sameConn_def)
    ultimately show ?thesis by (auto simp: sameConn_def)
  next
    case False
    then have e: "rerr b = Some (ending b)" "arriving b = []" using 1(2) by (auto simp: wfReader_def)
    let ?b' = "b\<lparr>rr := rw b, rerr := None\<rparr>"
    have u: "unread b = buffered b" using e by (simp add: unread_def)
    have "readSlice b = (rr b, rw b - rr b, Some (ReadErr (ending b)), ?b')" by (subst readSlice.simps) (simp add: i e)
    moreover have "take (rw b - rr b) (drop (rr b) (rbuf ?b')) = unread b" by (simp add: u buffered_def)
    moreover have "sameConn b ?b'" "unread ?b' = []" using 1(2) e
      by (auto simp: sameConn_def wfReader_def unread_def buffered_def arriving_def)
    ultimately show ?thesis using len u by auto
  qed
qed

definition stripCR :: "string \<Rightarrow> string" where
  "stripCR s = (if s \<noteq> [] \<and> last s = CR then butlast s else s)"

lemma CR_newline [simp]: "CR \<noteq> newline"
  by (simp add: CR_def char_of_def)

lemma ReadLine_line:
  assumes "wfReader b" "unread b = p @ newline # q" "newline \<notin> set p" "length p < length (rbuf b)"
  shows "\<exists>i n b'. ReadLine b = (InBuffer i n, False, None, b') \<and> bytesOf b' (InBuffer i n) = stripCR p \<and>
    sameConn b b' \<and> unread b' = q"
proof -
  from readSlice_line [OF assms] obtain i b' where r: "readSlice b = (i, length p + 1, None, b')"
    "take (length p + 1) (drop i (rbuf b')) = p @ [newline]" "sameConn b b'" "unread b' = q" by blast
  have at: "rbuf b' ! (i + k) = (p @ [newline]) ! k" if "k \<le> length p" for k
  proof -
    have "i + k < length (rbuf b')" using arg_cong [OF r(2), of length] that by simp
    then have "rbuf b' ! (i + k) = take (length p + 1) (drop i (rbuf b')) ! k" using that by simp
    then show ?thesis unfolding r(2) .
  qed
  have nl: "rbuf b' ! (i + length p) = newline" using at [of "length p"] by simp
  have cut: "take k (drop i (rbuf b')) = take k p" if "k \<le> length p" for k
    using arg_cong [OF r(2), of "take k"] that by (simp add: min_def)
  have lp: "rbuf b' ! (i + length p - 1) = last p" if "p \<noteq> []"
    using that at [of "length p - 1"] by (cases p rule: rev_cases) (simp_all add: nth_append)
  show ?thesis
  proof (cases "p \<noteq> [] \<and> last p = CR")
    case True
    with lp have "rbuf b' ! (i + length p - 1) = CR" by simp
    with True have "ReadLine b = (InBuffer i (length p - 1), False, None, b')" using r(1) nl by (simp add: ReadLine_def Suc_lessI)
    moreover have "bytesOf b' (InBuffer i (length p - 1)) = stripCR p" using True cut [of "length p - 1"] by (simp add: stripCR_def butlast_conv_take)
    ultimately show ?thesis using r by blast
  next
    case False
    with lp have "\<not> (length p > 0 \<and> rbuf b' ! (i + length p - 1) = CR)" by auto
    then have "ReadLine b = (InBuffer i (length p), False, None, b')" using r(1) nl by (auto simp: ReadLine_def)
    moreover have "bytesOf b' (InBuffer i (length p)) = stripCR p" using False cut [of "length p"] by (auto simp: stripCR_def)
    ultimately show ?thesis using r by blast
  qed
qed

lemma ReadLine_last:
  assumes "wfReader b" "newline \<notin> set (unread b)" "length (unread b) < length (rbuf b)" "unread b \<noteq> []"
  shows "\<exists>i n b'. ReadLine b = (InBuffer i n, False, None, b') \<and> bytesOf b' (InBuffer i n) = unread b \<and>
    sameConn b b' \<and> unread b' = []"
proof -
  from readSlice_end [OF assms(1-3)] obtain i b' where r: "readSlice b = (i, length (unread b), Some (ReadErr (ending b)), b')"
    "take (length (unread b)) (drop i (rbuf b')) = unread b" "sameConn b b'" "unread b' = []" by blast
  let ?k = "length (unread b) - 1"
  have "i + ?k < length (rbuf b')" using arg_cong [OF r(2), of length] assms(4) by (cases "unread b") auto
  moreover have "?k < length (unread b)" using assms(4) by simp
  ultimately have "rbuf b' ! (i + ?k) = take (length (unread b)) (drop i (rbuf b')) ! ?k" by simp
  then have "rbuf b' ! (i + ?k) \<in> set (unread b)" unfolding r(2) using assms(4) by simp
  with assms(2) have "rbuf b' ! (i + length (unread b) - 1) \<noteq> newline" using assms(4) by (cases "unread b") auto
  with r assms(4) have "ReadLine b = (InBuffer i (length (unread b)), False, None, b')" by (simp add: ReadLine_def)
  with r show ?thesis by auto
qed

lemma ReadLine_end:
  assumes "wfReader b" "unread b = []"
  shows "\<exists>b'. ReadLine b = (InBuffer 0 0, False, Some (ending b), b')"
  using readSlice_end [OF assms(1)] assms by (auto simp: ReadLine_def wfReader_def)

text \<open>The lines of a stream: a final one without a newline counts if it is not empty.\<close>

function linesOf :: "string \<Rightarrow> string list" where
  "linesOf s =
     (if newline \<in> set s then stripCR (takeWhile (\<lambda>c. c \<noteq> newline) s) # linesOf (drop 1 (dropWhile (\<lambda>c. c \<noteq> newline) s))
      else if s = [] then [] else [s])"
  by pat_completeness auto
termination
proof (relation "measure length")
  fix s :: string
  assume "newline \<in> set s"
  then have "s \<noteq> []" by auto
  then show "(drop 1 (dropWhile (\<lambda>c. c \<noteq> newline) s), s) \<in> measure length"
    by (auto intro: le_less_trans [OF diff_le_mono [OF length_dropWhile_le]] simp: diff_less)
qed simp

declare linesOf.simps [simp del]

lemma linesOf_line: "newline \<notin> set p \<Longrightarrow> linesOf (p @ newline # q) = stripCR p # linesOf q"
proof -
  assume "newline \<notin> set p"
  then have "\<forall>c \<in> set p. c \<noteq> newline" by auto
  then show ?thesis by (subst linesOf.simps) simp
qed

lemma linesOf_last: "newline \<notin> set s \<Longrightarrow> linesOf s = (if s = [] then [] else [s])"
  by (subst linesOf.simps) simp

section \<open>Writing\<close>

text \<open>\<open>out\<close> has been written: it is sent or buffered, or after an error a prefix of it is sent.\<close>

definition wrote :: "string \<Rightarrow> writer \<Rightarrow> bool" where
  "wrote out w \<longleftrightarrow> prefix (sent w) out \<and> (werr w = None \<longrightarrow> sent w @ wbuf w = out)"

definition accepts :: "remote \<Rightarrow> bool" where
  "accepts W \<longleftrightarrow> (\<forall>s p. W s p = None)"

lemma prefix_sent: "prefix (x @ take n p) (x @ p)"
  by (metis append_take_drop_id prefixI append.assoc)

lemma Flush_wrote:
  assumes "wrote out w" "Flush W w = (e, w')"
  shows "wrote out w' \<and> e = werr w' \<and> (e = None \<longrightarrow> wbuf w' = []) \<and> (accepts W \<and> werr w = None \<longrightarrow> e = None)"
  using assms prefix_sent
  by (auto simp: Flush_def wrote_def accepts_def split: option.splits if_splits)

lemma store_wrote:
  assumes "wrote out w" "store p w = (e, w')"
  shows "wrote (out @ p) w' \<and> e = werr w' \<and> (accepts W \<and> werr w = None \<longrightarrow> e = None)"
  using assms by (auto simp: store_def wrote_def split: option.splits)

lemma writeThrough_wrote:
  assumes "wrote out w" "wbuf w = []" "werr w = None" "writeThrough W p w = (e, w')"
  shows "wrote (out @ p) w' \<and> e = werr w' \<and> (accepts W \<longrightarrow> e = None)"
  using assms prefix_sent by (auto simp: writeThrough_def wrote_def accepts_def split: option.splits)

lemma Write_wrote:
  assumes w: "wrote out w" and r: "Write W p w = (e, w')"
  shows "wrote (out @ p) w' \<and> e = werr w' \<and> (accepts W \<and> werr w = None \<longrightarrow> e = None)"
proof (cases "length p > Available w \<and> werr w = None")
  case False
  with r have "store p w = (e, w')" by (auto simp: Write_def)
  with store_wrote [OF w] show ?thesis by blast
next
  case True
  show ?thesis
  proof (cases "wbuf w = []")
    case e: True
    with True r have "writeThrough W p w = (e, w')" by (auto simp: Write_def)
    with writeThrough_wrote [OF w e] True show ?thesis by blast
  next
    case False
    let ?n = "Available w"
    let ?w1 = "w\<lparr>wbuf := wbuf w @ take ?n p\<rparr>"
    obtain e2 w2 where f: "Flush W ?w1 = (e2, w2)" by fastforce
    have "wrote (out @ take ?n p) ?w1" using w True by (auto simp: wrote_def)
    note f2 = Flush_wrote [OF this f]
    have r2: "(if length (drop ?n p) > Available w2 \<and> werr w2 = None then writeThrough W (drop ?n p) w2 else store (drop ?n p) w2) = (e, w')"
      using r True False f by (simp add: Write_def Let_def)
    have "wrote ((out @ take ?n p) @ drop ?n p) w' \<and> e = werr w' \<and> (accepts W \<and> werr w2 = None \<longrightarrow> e = None)"
    proof (cases "length (drop ?n p) > Available w2 \<and> werr w2 = None")
      case True
      with r2 f2 show ?thesis using writeThrough_wrote [of "out @ take ?n p" w2 W "drop ?n p" e w'] by (auto split: if_splits)
    next
      case False
      then show ?thesis using r2 f2 store_wrote [of "out @ take ?n p" w2 "drop ?n p" e w' W] by (auto split: if_splits)
    qed
    with f2 True show ?thesis by auto
  qed
qed

section \<open>What a connection delivers\<close>

definition convertedLine :: "string \<Rightarrow> string" where
  "convertedLine line = (let (success, builder) = convertGraphite [] line in if success then builder else [])"

definition converted :: "string \<Rightarrow> string" where
  "converted s = concat (map convertedLine (linesOf s))"

text \<open>Every line, with its newline, fits into a buffer of size \<open>n\<close>.\<close>

definition fits :: "nat \<Rightarrow> string \<Rightarrow> bool" where
  "fits n s \<longleftrightarrow> list_all (\<lambda>p. length p < n) (SplitByte s newline)"

definition ended :: "ioError \<Rightarrow> stop" where
  "ended e = (if e = EOF then Closed else ReadFailed e)"

text \<open>One round of the loop, given what \<open>ReadLine\<close> returned.\<close>

lemma insertLoop_end:
  assumes "ReadLine b = (line, False, Some e, b')"
  shows "insertLoop W (Suc (Suc fuel)) b w = Some (ended e, w)"
  using assms by (cases e) (simp_all add: ended_def)

lemma insertLoop_line:
  assumes "ReadLine b = (line, False, None, b')" "wrote out w" "werr w = None"
  shows "(\<exists>w'. insertLoop W (Suc (Suc fuel)) b w = insertLoop W (Suc fuel) b' w' \<and>
      wrote (out @ convertedLine (bytesOf b' line)) w' \<and> werr w' = None) \<or>
    (\<exists>e w'. insertLoop W (Suc (Suc fuel)) b w = Some (WriteFailed e, w') \<and> \<not> accepts W \<and> werr w' \<noteq> None \<and>
      wrote (out @ convertedLine (bytesOf b' line)) w')"
proof -
  obtain ok builder where c: "convertGraphite [] (bytesOf b' line) = (ok, builder)" by fastforce
  show ?thesis
  proof (cases ok)
    case False
    with assms c show ?thesis by (simp add: convertedLine_def) blast
  next
    case True
    obtain e w1 where r: "Write W builder w = (e, w1)" by fastforce
    have out: "convertedLine (bytesOf b' line) = builder" using c True by (simp add: convertedLine_def)
    note w1 = Write_wrote [OF assms(2) r]
    obtain e2 w2 where f: "(if Available w1 < 8192 then Flush W w1 else (None, w1)) = (e2, w2)" by fastforce
    show ?thesis
    proof (cases e)
      case (Some x)
      have "insertLoop W (Suc (Suc fuel)) b w = Some (WriteFailed x, w1)" using assms(1) c True r Some by simp
      moreover have "werr w1 = Some x" "wrote (out @ builder) w1" "\<not> accepts W" using w1 Some assms(3) by auto
      ultimately show ?thesis unfolding out by auto
    next
      case None
      have w2: "wrote (out @ builder) w2 \<and> e2 = werr w2 \<and> (accepts W \<longrightarrow> e2 = None)"
        using w1 None f Flush_wrote [of "out @ builder" w1 W e2 w2] by (auto split: if_splits)
      have step: "insertLoop W (Suc (Suc fuel)) b w = (case e2 of Some e \<Rightarrow> Some (WriteFailed e, w2) | None \<Rightarrow> insertLoop W (Suc fuel) b' w2)"
        using assms(1) c True r None f by simp
      show ?thesis
      proof (cases e2)
        case None
        with w2 show ?thesis unfolding step out by (intro disjI1 exI [of _ w2]) simp
      next
        case (Some x)
        with w2 have "werr w2 = Some x" "wrote (out @ builder) w2" "\<not> accepts W" by auto
        with Some show ?thesis unfolding step out by (intro disjI2 exI [of _ x] exI [of _ w2]) simp
      qed
    qed
  qed
qed

lemma fits_line: "newline \<notin> set p \<Longrightarrow> fits n (p @ newline # q) \<longleftrightarrow> length p < n \<and> fits n q"
  by (simp add: fits_def SplitByte_Cons_sep)

lemma fits_last: "newline \<notin> set s \<Longrightarrow> fits n s \<longleftrightarrow> length s < n"
  by (simp add: fits_def SplitByte_single)

lemma converted_line: "newline \<notin> set p \<Longrightarrow> converted (p @ newline # q) = convertedLine (stripCR p) @ converted q"
  by (simp add: converted_def linesOf_line)

lemma wrote_prefix: "wrote out w \<Longrightarrow> prefix (sent w) (out @ x)"
  by (auto simp: wrote_def)

lemma insertLoop_delivers:
  assumes "wfReader b" "fits (length (rbuf b)) (unread b)" "wrote out w" "werr w = None" "length (unread b) + 3 \<le> fuel"
  shows "\<exists>stop w'. insertLoop W fuel b w = Some (stop, w') \<and> prefix (sent w') (out @ converted (unread b)) \<and>
    (werr w' = None \<longrightarrow> stop = ended (ending b) \<and> wrote (out @ converted (unread b)) w') \<and> (accepts W \<longrightarrow> werr w' = None)"
  using assms
proof (induction "length (unread b)" arbitrary: b out w fuel rule: less_induct)
  case less
  have "fuel = Suc (Suc (Suc (fuel - 3)))" "length (unread b) \<le> fuel - 3" using less.prems(5) by simp_all
  then obtain k where fuel: "fuel = Suc (Suc (Suc k))" "length (unread b) \<le> k" by blast
  show ?case
  proof (cases "newline \<in> set (unread b)")
    case True
    then obtain p q where u: "unread b = p @ newline # q" "newline \<notin> set p" by (meson split_list_first)
    then have fit: "length p < length (rbuf b)" "fits (length (rbuf b)) q" using less.prems(2) by (simp_all add: fits_line)
    from ReadLine_line [OF less.prems(1) u fit(1)] obtain i n b' where r: "ReadLine b = (InBuffer i n, False, None, b')"
      "bytesOf b' (InBuffer i n) = stripCR p" "sameConn b b'" "unread b' = q" by blast
    have conv: "out @ converted (unread b) = (out @ convertedLine (stripCR p)) @ converted q" by (simp add: u converted_line)
    from insertLoop_line [OF r(1) less.prems(3,4), of W "Suc k", unfolded r(2), folded fuel(1)]
    consider w' where "insertLoop W fuel b w = insertLoop W (Suc (Suc k)) b' w'" "wrote (out @ convertedLine (stripCR p)) w'" "werr w' = None"
      | e w' where "insertLoop W fuel b w = Some (WriteFailed e, w')" "\<not> accepts W" "werr w' \<noteq> None" "wrote (out @ convertedLine (stripCR p)) w'"
      by blast
    then show ?thesis
    proof cases
      case (1 w')
      have "length (unread b') < length (unread b)" "length (unread b') + 3 \<le> Suc (Suc k)" using u r(4) fuel(2) by simp_all
      moreover have "wfReader b'" "length (rbuf b') = length (rbuf b)" "ending b' = ending b" using r(3) by (simp_all add: sameConn_def)
      ultimately show ?thesis
        unfolding 1(1) conv using less.hyps [of b' "out @ convertedLine (stripCR p)" w' "Suc (Suc k)"] 1(2,3) fit(2) r(4) by simp
    next
      case (2 e w')
      then show ?thesis unfolding conv using wrote_prefix [OF 2(4), of "converted q"] by auto
    qed
  next
    case False
    show ?thesis
    proof (cases "unread b = []")
      case True
      with ReadLine_end [OF less.prems(1)] insertLoop_end less.prems(3,4) show ?thesis
        by (auto simp: fuel converted_def linesOf_last wrote_def)
    next
      case ne: False
      have "length (unread b) < length (rbuf b)" using less.prems(2) False by (simp add: fits_last)
      from ReadLine_last [OF less.prems(1) False this ne] obtain i n b' where r: "ReadLine b = (InBuffer i n, False, None, b')"
        "bytesOf b' (InBuffer i n) = unread b" "sameConn b b'" "unread b' = []" by blast
      have conv: "converted (unread b) = convertedLine (unread b)" using False ne by (simp add: converted_def linesOf_last)
      obtain b'' where "ReadLine b' = (InBuffer 0 0, False, Some (ending b), b'')"
        using ReadLine_end [of b'] r(3,4) by (auto simp: sameConn_def)
      then have e: "insertLoop W (Suc (Suc k)) b' w' = Some (ended (ending b), w')" for w' by (rule insertLoop_end)
      from insertLoop_line [OF r(1) less.prems(3,4), of W "Suc k", unfolded r(2), folded fuel(1)] show ?thesis
        unfolding conv using e by (auto simp: wrote_def)
    qed
  qed
qed

text \<open>C29: when every line is shorter than the buffer of 64 KiB, a connection always ends, the store has
  received only converted lines, in order and perhaps cut short by an error of the store; and if
  the store takes all writes, it has received the conversions of all the lines that arrived,
  however the network cut them into pieces and whatever the pooled buffer held before.\<close>

theorem insertConn_delivers:
  assumes "length buf = bufferSize" "fits bufferSize (concat pieces)" "length (concat pieces) + 3 \<le> fuel"
  shows "\<exists>stop w. insertConn W fuel None buf pieces e = Some (stop, w) \<and> prefix (sent w) (converted (concat pieces)) \<and>
    (accepts W \<longrightarrow> stop = ended e \<and> sent w = converted (concat pieces))"
proof -
  let ?b = "\<lparr>rbuf = buf, rr = 0, rw = 0, rerr = None, incoming = pieces, ending = e\<rparr>"
  let ?w = "\<lparr>wbuf = [], sent = [], werr = None\<rparr>"
  have u: "unread ?b = concat pieces" by (simp add: unread_def buffered_def arriving_def)
  have "wfReader ?b" using assms(1) by (auto simp: wfReader_def bufferSize_def)
  moreover have "wrote [] ?w" by (simp add: wrote_def)
  ultimately obtain stop w' where l: "insertLoop W fuel ?b ?w = Some (stop, w')" "prefix (sent w') (converted (concat pieces))"
    "werr w' = None \<longrightarrow> stop = ended e \<and> wrote (converted (concat pieces)) w'" "accepts W \<longrightarrow> werr w' = None"
    using insertLoop_delivers [of ?b "[]" ?w fuel W] assms u by auto
  obtain e2 w2 where f: "Flush W w' = (e2, w2)" by fastforce
  have "insertConn W fuel None buf pieces e = Some (stop, w2)" using l(1) f by (simp add: insertConn_def)
  moreover have "prefix (sent w2) (converted (concat pieces)) \<and> (accepts W \<longrightarrow> stop = ended e \<and> sent w2 = converted (concat pieces))"
  proof (cases "werr w' = None")
    case True
    with l(3) Flush_wrote [OF _ f] show ?thesis by (auto simp: wrote_def)
  next
    case False
    with f have "w2 = w'" by (auto simp: Flush_def)
    with l False show ?thesis by auto
  qed
  ultimately show ?thesis by blast
qed

theorem insertConn_delivers_witness:
  "\<exists>w. insertConn (\<lambda>s p. None) 100 None (replicate bufferSize CHR ''x'')
      [''a.b 1'', '' 2'' @ [CR, newline] @ ''bad line'' @ [newline], ''a.c 3 4''] EOF = Some (Closed, w) \<and>
    sent w = ''a;__a_g1__=b 1 2'' @ [newline] @ ''a;__a_g1__=c 3 4'' @ [newline]"
proof -
  let ?pieces = "[''a.b 1'', '' 2'' @ [CR, newline] @ ''bad line'' @ [newline], ''a.c 3 4'']"
  have "converted (concat ?pieces) = ''a;__a_g1__=b 1 2'' @ [newline] @ ''a;__a_g1__=c 3 4'' @ [newline]" by code_simp
  moreover have "fits 100 (concat ?pieces)" by code_simp
  then have "fits bufferSize (concat ?pieces)" unfolding fits_def bufferSize_def by (rule list.pred_mono_strong) simp
  moreover have "length (concat ?pieces) + 3 \<le> 100" by simp
  moreover have "accepts (\<lambda>s p. None)" by (simp add: accepts_def)
  ultimately show ?thesis
    using insertConn_delivers [of "replicate bufferSize CHR ''x''" ?pieces 100 "\<lambda>s p. None" EOF] by (auto simp: ended_def)
qed

section \<open>Longer lines\<close>

text \<open>
  A line that does not fit is garbled: its first part is a slice of the reader's buffer, which the
  next \<open>ReadLine\<close> overwrites. Here with a buffer of 16 bytes.
\<close>

lemma long_line_garbled:
  "(case ReadLine \<lparr>rbuf = replicate 16 CHR ''x'', rr = 0, rw = 0, rerr = None, incoming = [''aaaa.bbbb.cccc.dddd 1 2'' @ [newline]], ending = EOF\<rparr> of
     (line, isContinue, err, b) \<Rightarrow> map_option (\<lambda>(line, err, b). bytesOf b line) (readRest 9 line isContinue err b)) =
   Some (''ddd 1 2'' @ [newline] @ ''b.cccc.d'' @ ''ddd 1 2'')"
  by code_simp

end
