(* ===== verification/Duration.thy ===== *)
theory Duration
  imports Strconv
begin

text \<open>
  \<open>DurationValue\<close> and \<open>PositiveDurationValue\<close> of \<open>src/mateql/lexer.go\<close>: a duration literal in
  milliseconds, through \<open>float64\<close> arithmetic.
\<close>

text \<open>
  \<open>int64(x)\<close>: truncation towards zero. For a value out of range (and for NaN) the language leaves
  the result to the implementation; the model takes the one of amd64.
\<close>

definition int64OfFloat :: "float64 \<Rightarrow> int" where
  "int64OfFloat x =
     (case x of
        FFin s m e \<Rightarrow>
          let v = scaleUp m e div scaleUp 1 (- e); i = (if s then - v else v) in
          if - (2 ^ 63) \<le> i \<and> i < 2 ^ 63 then i else - (2 ^ 63)
      | _ \<Rightarrow> - (2 ^ 63))"

definition floatOfInt :: "int \<Rightarrow> float64" where
  "floatOfInt i = roundQ (i < 0) \<bar>i\<bar> 1"

definition durationUnit :: "char \<Rightarrow> int \<Rightarrow> float64 option" where
  "durationUnit c step =
     (if c = CHR ''s'' then Some (floatOfInt 1)
      else if c = CHR ''m'' then Some (floatOfInt 60)
      else if c = CHR ''h'' then Some (floatOfInt (60 * 60))
      else if c = CHR ''d'' then Some (floatOfInt (24 * 60 * 60))
      else if c = CHR ''w'' then Some (floatOfInt (7 * 24 * 60 * 60))
      else if c = CHR ''y'' then Some (floatOfInt (365 * 24 * 60 * 60))
      else if c = CHR ''i'' then Some (divF (floatOfInt step) (floatOfInt 1000))
      else None)"

definition DurationValue :: "string \<Rightarrow> int \<Rightarrow> int result" where
  "DurationValue s step =
     (let n = scanDuration s True in
      if n \<noteq> int (length s) then Inl (Errorf ''cannot parse duration %q'' [s])
      else case ParseFloat (take (length s - 1) s) of
        Inl err \<Rightarrow> Inl (Wrapf ''cannot parse duration %q: %s'' [s] err)
      | Inr f \<Rightarrow>
          (case durationUnit (s ! (length s - 1)) step of
             None \<Rightarrow> Inl (Errorf ''invalid duration suffix in %q'' [s])
           | Some mp \<Rightarrow> Inr (int64OfFloat (mulF (mulF mp f) (floatOfInt 1000)))))"

definition PositiveDurationValue :: "string \<Rightarrow> int \<Rightarrow> int result" where
  "PositiveDurationValue s step =
     (case DurationValue s step of
        Inl err \<Rightarrow> Inl err
      | Inr d \<Rightarrow> if d < 0 then Inl (Errorf ''duration cannot be negative; got %q'' [s]) else Inr d)"

end
