(* ===== verification/FloatFacts.thy ===== *)
theory FloatFacts
  imports Complex_Main Duration
begin

text \<open>
  The operations of Go's \<open>math\<close> package that the servers use (\<open>Ceil\<close>, \<open>Max\<close>), and the facts about
  rounding their arithmetic rests on: the real value of a \<open>float64\<close>, the error of one rounding,
  and that arithmetic on whole numbers below \<open>2^53\<close> is exact.
\<close>

section \<open>Ceil and Max\<close>

fun ceilF :: "float64 \<Rightarrow> float64" where
  "ceilF (FFin s m e) =
     (if m = 0 then FFin s m e
      else let q = scaleUp m e; d = scaleUp 1 (- e) in
        if s then roundQ True (q div d) 1 else roundQ False (- (- q div d)) 1)"
| "ceilF x = x"

definition maxF :: "float64 \<Rightarrow> float64 \<Rightarrow> float64" where
  "maxF x y =
     (if x = FInf False \<or> y = FInf False then FInf False
      else if isNaN x \<or> isNaN y then FNaN
      else if eqF x zero64 \<and> eqF x y then
        (case x of FFin True _ _ \<Rightarrow> y | _ \<Rightarrow> x)
      else if ltF y x then x else y)"

section \<open>The value of a float\<close>

definition sgnF :: "bool \<Rightarrow> real" where
  "sgnF s = (if s then -1 else 1)"

lemma sgnF_simps [simp]: "sgnF True = -1" "sgnF False = 1"
  by (simp_all add: sgnF_def)

fun valF :: "float64 \<Rightarrow> real" where
  "valF (FFin s m e) = sgnF s * of_int m * 2 powi e"
| "valF _ = 0"

fun finite64 :: "float64 \<Rightarrow> bool" where
  "finite64 (FFin s m e) \<longleftrightarrow> 0 \<le> m"
| "finite64 _ \<longleftrightarrow> False"

lemma mantAt_val:
  assumes "e0 \<le> e" shows "of_int (mantAt s m e e0) * 2 powi e0 = (valF (FFin s m e) :: real)"
proof -
  have "(2::real) powi e = 2 ^ nat (e - e0) * 2 powi e0"
    using assms by (simp add: power_int_add [symmetric] flip: power_int_of_nat)
  then show ?thesis by (simp add: mantAt_def sgnF_def)
qed

lemma eqF_val: "finite64 x \<Longrightarrow> finite64 y \<Longrightarrow> eqF x y \<longleftrightarrow> valF x = valF y"
proof -
  assume "finite64 x" "finite64 y"
  then obtain s m e s' m' e' where xy: "x = FFin s m e" "y = FFin s' m' e'" by (cases x; cases y) auto
  let ?e0 = "min e e'"
  have "eqF x y \<longleftrightarrow> of_int (mantAt s m e ?e0) * (2::real) powi ?e0 = of_int (mantAt s' m' e' ?e0) * 2 powi ?e0"
    unfolding xy by (simp add: Let_def)
  then show ?thesis unfolding xy by (simp only: mantAt_val min.cobounded1 min.cobounded2)
qed

lemma ltF_val: "finite64 x \<Longrightarrow> finite64 y \<Longrightarrow> ltF x y \<longleftrightarrow> valF x < valF y"
proof -
  assume "finite64 x" "finite64 y"
  then obtain s m e s' m' e' where xy: "x = FFin s m e" "y = FFin s' m' e'" by (cases x; cases y) auto
  let ?e0 = "min e e'"
  have "ltF x y \<longleftrightarrow> of_int (mantAt s m e ?e0) * (2::real) powi ?e0 < of_int (mantAt s' m' e' ?e0) * 2 powi ?e0"
    unfolding xy by (simp add: Let_def)
  then show ?thesis unfolding xy by (simp only: mantAt_val min.cobounded1 min.cobounded2)
qed

section \<open>One rounding\<close>

text \<open>A bound below which nothing overflows, and above whose inverse nothing is subnormal.\<close>

definition huge :: real where
  "huge = 2 ^ 1000"

lemma huge_powi: "huge = 2 powi 1000"
  by (simp only: huge_def power_int_numeral)

lemma less_huge: "x < 2 ^ 53 \<Longrightarrow> x < huge"
proof -
  have "(2::real) ^ 53 < 2 ^ 1000" by (rule power_strict_increasing) simp_all
  then show "x < 2 ^ 53 \<Longrightarrow> x < huge" unfolding huge_def by linarith
qed

lemma huge_inverse: "1 / huge \<le> 1 / 2 ^ 110"
  unfolding huge_def by (intro divide_left_mono power_increasing) auto

lemma bitLen_nonneg: "0 \<le> bitLen n"
  by (induction n rule: bitLen.induct) (subst bitLen.simps, simp)

lemma bitLen_half: "1 < n \<Longrightarrow> bitLen n = 1 + bitLen (n div 2) \<and> 0 < bitLen (n div 2)"
  using bitLen_nonneg [of "n div 2 div 2"] by (auto simp: bitLen.simps [of n] bitLen.simps [of "n div 2"])

lemma bitLen_one [simp]: "bitLen 1 = 1"
  by (simp add: bitLen.simps)

lemma bitLen_nat: "0 < n \<Longrightarrow> \<exists>b. bitLen n = int (Suc b) \<and> 2 ^ b \<le> n \<and> n < 2 ^ Suc b"
proof (induction n rule: bitLen.induct)
  case (1 n)
  show ?case
  proof (cases "n = 1")
    case True
    then show ?thesis by (intro exI [of _ 0]) simp
  next
    case False
    with 1 have "1 < n" by simp
    moreover from this 1 obtain b where "bitLen (n div 2) = int (Suc b)" "2 ^ b \<le> n div 2" "n div 2 < 2 ^ Suc b"
      by fastforce
    ultimately show ?thesis using bitLen_half [of n] by (intro exI [of _ "Suc b"]) auto
  qed
qed

lemma bitLen_bounds: "0 < n \<Longrightarrow> 2 powi (bitLen n - 1) \<le> real_of_int n \<and> real_of_int n < 2 powi bitLen n"
proof -
  assume "0 < n"
  then obtain b where b: "bitLen n = int (Suc b)" "2 ^ b \<le> n" "n < 2 ^ Suc b" using bitLen_nat by blast
  then have "real_of_int (2 ^ b) \<le> n" "n < real_of_int (2 ^ Suc b)" by linarith+
  moreover have "int (Suc b) - 1 = int b" by simp
  ultimately show ?thesis unfolding b(1) by (simp only: power_int_of_nat of_int_power of_int_numeral simp_thms)
qed

lemma scale_ratio: "0 < d \<Longrightarrow> real_of_int (scaleUp n (- e)) / real_of_int (scaleUp d e) = n / d * 2 powi (- e)"
  by (auto simp: scaleUp_def power_int_def field_simps)

lemma scaleUp_pos: "0 < n \<Longrightarrow> 0 < scaleUp n e"
  by (simp add: scaleUp_def)

lemma roundDiv_error:
  assumes "0 < d" shows "\<bar>real_of_int (roundDiv n d) - n / d\<bar> \<le> 1 / 2"
proof -
  define q r where "q = n div d" and "r = n mod d"
  then have nd: "n = d * q + r" and r: "0 \<le> r" "r < d" using assms by auto
  have "real_of_int n / d = q + real_of_int r / d"
    using assms unfolding nd by (simp add: field_simps)
  moreover have "roundDiv n d = (if 2 * r < d \<or> (2 * r = d \<and> even q) then q else q + 1)"
    by (simp add: roundDiv_def Let_def q_def r_def)
  moreover have "2 * r \<le> d \<Longrightarrow> 2 * real_of_int r \<le> d" "d \<le> 2 * r \<Longrightarrow> d \<le> 2 * real_of_int r" by linarith+
  ultimately show ?thesis using assms r
    by (cases "2 * r < d"; cases "2 * r = d") (auto simp: field_simps abs_le_iff)
qed

lemma roundDiv_ge: "0 < d \<Longrightarrow> real_of_int j \<le> real_of_int n / d \<Longrightarrow> j \<le> roundDiv n d"
proof -
  assume "0 < d" "real_of_int j \<le> real_of_int n / d"
  moreover have "\<bar>real_of_int (roundDiv n d) - n / d\<bar> \<le> 1 / 2" using roundDiv_error \<open>0 < d\<close> .
  ultimately have "real_of_int j < real_of_int (roundDiv n d) + 1" by linarith
  then show ?thesis by linarith
qed

lemma roundDiv_le: "0 < d \<Longrightarrow> real_of_int n / d \<le> real_of_int j \<Longrightarrow> roundDiv n d \<le> j"
proof -
  assume "0 < d" "real_of_int n / d \<le> real_of_int j"
  moreover have "\<bar>real_of_int (roundDiv n d) - n / d\<bar> \<le> 1 / 2" using roundDiv_error \<open>0 < d\<close> .
  ultimately have "real_of_int (roundDiv n d) < real_of_int j + 1" by linarith
  then show ?thesis by linarith
qed

section \<open>Rounding a quotient\<close>

text \<open>The exponent of the leading bit of \<open>n / d\<close>, as \<open>roundQ\<close> finds it.\<close>

definition leadExp :: "int \<Rightarrow> int \<Rightarrow> int" where
  "leadExp n d = (let k = bitLen n - bitLen d in if scaleUp d k \<le> scaleUp n (- k) then k else k - 1)"

lemma leadExp_bounds:
  assumes "0 < n" "0 < d"
  shows "2 powi leadExp n d \<le> real_of_int n / d \<and> real_of_int n / d < 2 powi (leadExp n d + 1)"
proof -
  define k where "k = bitLen n - bitLen d"
  have p: "(0::real) < 2 powi j" for j by simp
  have "scaleUp d k \<le> scaleUp n (- k) \<longleftrightarrow> 1 \<le> real_of_int (scaleUp n (- k)) / scaleUp d k"
    using scaleUp_pos [OF assms(2), of k] by (simp add: le_divide_eq_1)
  also have "\<dots> \<longleftrightarrow> 2 powi k \<le> real_of_int n / d"
    unfolding scale_ratio [OF assms(2)] using p [of k] assms by (simp add: power_int_minus field_simps)
  finally have c: "scaleUp d k \<le> scaleUp n (- k) \<longleftrightarrow> 2 powi k \<le> real_of_int n / d" .
  have n: "2 powi (bitLen n - 1) \<le> real_of_int n" "real_of_int n < 2 powi bitLen n"
    and d: "2 powi (bitLen d - 1) \<le> real_of_int d" "real_of_int d < 2 powi bitLen d"
    using bitLen_bounds assms by auto
  have "real_of_int n / d < 2 powi bitLen n / 2 powi (bitLen d - 1)"
    using n d assms p by (intro frac_less) auto
  then have up: "real_of_int n / d < 2 powi (k + 1)" by (simp add: k_def power_int_diff power_int_add field_simps)
  have "2 powi (bitLen n - 1) / 2 powi bitLen d \<le> real_of_int n / d"
    using n d assms p by (intro frac_le) auto
  then have "2 powi (k - 1) \<le> real_of_int n / d" by (simp add: k_def power_int_diff power_int_add field_simps)
  with up c show ?thesis by (auto simp: leadExp_def Let_def k_def)
qed

lemma roundQ_eq:
  "0 < n \<Longrightarrow> roundQ s n d =
    (let e = max (-1074) (leadExp n d - 52); m = roundDiv (scaleUp n (- e)) (scaleUp d e) in
     let (m, e) = (if m = 2 ^ 53 then (2 ^ 52, e + 1) else (m, e)) in
     if 971 < e then FInf s else FFin s m e)"
  unfolding roundQ_def leadExp_def Let_def by simp

lemma roundQ_val:
  assumes "0 < n" "0 < d" "real_of_int n / d < huge"
  defines "e \<equiv> max (-1074) (leadExp n d - 52)"
  defines "m \<equiv> roundDiv (scaleUp n (- e)) (scaleUp d e)"
  shows "finite64 (roundQ s n d) \<and> valF (roundQ s n d) = sgnF s * of_int m * 2 powi e"
proof -
  have "2 powi leadExp n d < (2::real) powi 1000" using leadExp_bounds [OF assms(1,2)] assms(3) unfolding huge_powi by linarith
  then have "leadExp n d < 1000" by (meson linorder_not_less one_le_numeral power_int_increasing)
  then have "e \<le> 970" unfolding e_def by simp
  moreover have "roundQ s n d = (let (m, e) = (if m = 2 ^ 53 then (2 ^ 52, e + 1) else (m, e)) in if 971 < e then FInf s else FFin s m e)"
    unfolding roundQ_eq [OF assms(1)] e_def [symmetric] Let_def m_def [symmetric] ..
  moreover have "0 \<le> m" unfolding m_def using assms(1,2) scaleUp_pos by (intro roundDiv_ge) (auto simp: less_imp_le)
  ultimately show ?thesis by (cases "m = 2 ^ 53") (simp_all add: power_int_add Let_def)
qed

lemma leadExp_less: "0 < n \<Longrightarrow> 0 < d \<Longrightarrow> real_of_int n / d < 2 powi k \<Longrightarrow> leadExp n d < k"
proof -
  assume "0 < n" "0 < d" "real_of_int n / d < 2 powi k"
  with leadExp_bounds [of n d] have "(2::real) powi leadExp n d < 2 powi k" by linarith
  then show ?thesis by (meson linorder_not_less one_le_numeral power_int_increasing)
qed

text \<open>A quotient that is \<open>q * 2^f\<close> with \<open>q < 2^53\<close> is represented exactly.\<close>

lemma roundQ_exact:
  assumes "0 < n" "0 < d" "real_of_int n / d = of_int q * 2 powi f" "q < 2 ^ 53" "-1074 \<le> f" "real_of_int n / d < huge"
  shows "finite64 (roundQ s n d) \<and> valF (roundQ s n d) = sgnF s * (real_of_int n / d)"
proof -
  define e where "e = max (-1074) (leadExp n d - 52)"
  define m where "m = roundDiv (scaleUp n (- e)) (scaleUp d e)"
  have "real_of_int q < 2 ^ 53" 
  proof -
    have "real_of_int q < real_of_int (2 ^ 53)" using assms(4) by (simp only: of_int_less_iff)
    then show ?thesis by simp
  qed
  then have "real_of_int n / d < 2 powi (53 + f)" using assms(3)
    by (simp add: power_int_add mult_strict_right_mono)
  with assms(1,2,5) have "e \<le> f" using leadExp_less [of n d "53 + f"] unfolding e_def by simp
  then have "real_of_int n / d * 2 powi (- e) = of_int (q * 2 ^ nat (f - e))"
    by (simp add: assms(3) power_int_minus power_int_diff field_simps flip: power_int_of_nat)
  then have j: "real_of_int (scaleUp n (- e)) / scaleUp d e = of_int (q * 2 ^ nat (f - e))"
    using scale_ratio [OF assms(2)] by simp
  have "0 < scaleUp d e" using assms(2) scaleUp_pos by simp
  then have "m = q * 2 ^ nat (f - e)" unfolding m_def
    using roundDiv_ge roundDiv_le j by (intro antisym) auto
  then have "real_of_int m = real_of_int n / d * 2 powi (- e)" using j scale_ratio [OF assms(2), of n e] by simp
  moreover have "finite64 (roundQ s n d) \<and> valF (roundQ s n d) = sgnF s * of_int m * 2 powi e"
    using roundQ_val [OF assms(1,2,6)] unfolding m_def e_def by simp
  ultimately show ?thesis by (simp add: power_int_minus)
qed

text \<open>Rounding keeps the integers below and above the quotient where they are.\<close>

lemma roundQ_ge_int:
  assumes "0 < n" "0 < d" "real_of_int n / d < 2 ^ 53"
  shows "\<And>q. of_int q \<le> real_of_int n / d \<Longrightarrow> of_int q \<le> valF (roundQ False n d)"
  and roundQ_le_int: "\<And>q. real_of_int n / d \<le> of_int q \<Longrightarrow> valF (roundQ False n d) \<le> of_int q"
  and roundQ_finite: "finite64 (roundQ s n d)"
proof -
  define e where "e = max (-1074) (leadExp n d - 52)"
  define m where "m = roundDiv (scaleUp n (- e)) (scaleUp d e)"
  have "real_of_int n / d < 2 powi 53" using assms(3) by simp
  then have e: "e \<le> 0" using leadExp_less [OF assms(1,2), of 53] unfolding e_def by simp
  have l: "real_of_int n / d < huge" using assms(3) by (rule less_huge)
  have v: "finite64 (roundQ s n d) \<and> valF (roundQ s n d) = sgnF s * of_int m * 2 powi e" for s
    using roundQ_val [OF assms(1,2) l] unfolding m_def e_def by simp
  have sp: "0 < scaleUp d e" using assms(2) scaleUp_pos by simp
  have p: "real_of_int (2 ^ nat (- e)) * 2 powi e = 1" using e by (simp add: power_int_def power_one_over)
  have i: "of_int q * 2 powi (- e) = real_of_int (q * 2 ^ nat (- e))" for q :: int using e by (simp add: power_int_def)
  have r: "real_of_int (scaleUp n (- e)) / scaleUp d e = n / d * 2 powi (- e)" using scale_ratio assms(2) by simp
  show "finite64 (roundQ s n d)" using v by simp
  fix q :: int
  { assume "of_int q \<le> real_of_int n / d"
    from mult_right_mono [OF this, of "2 powi (- e)"] have "q * 2 ^ nat (- e) \<le> m" unfolding m_def
      using sp by (intro roundDiv_ge) (simp_all only: r flip: i, simp)
    then have "real_of_int (q * 2 ^ nat (- e)) * 2 powi e \<le> of_int m * 2 powi e" by (intro mult_right_mono) (simp_all only: of_int_le_iff, simp)
    with v [of False] p show "of_int q \<le> valF (roundQ False n d)" by (simp add: mult.assoc) }
  { assume "real_of_int n / d \<le> of_int q"
    from mult_right_mono [OF this, of "2 powi (- e)"] have "m \<le> q * 2 ^ nat (- e)" unfolding m_def
      using sp by (intro roundDiv_le) (simp_all only: r flip: i, simp)
    then have "of_int m * 2 powi e \<le> real_of_int (q * 2 ^ nat (- e)) * 2 powi e" by (intro mult_right_mono) (simp_all only: of_int_le_iff, simp)
    with v [of False] p show "valF (roundQ False n d) \<le> of_int q" by (simp add: mult.assoc) }
qed

lemma abs_scaled: "\<bar>a - x * 2 powi (- e)\<bar> * 2 powi e = \<bar>a * 2 powi e - x\<bar>" for a x :: real
proof -
  have "\<bar>a - x * 2 powi (- e)\<bar> * 2 powi e = \<bar>(a - x * 2 powi (- e)) * 2 powi e\<bar>" by (simp add: abs_mult)
  then show ?thesis by (simp add: left_diff_distrib power_int_minus mult.assoc)
qed

text \<open>The relative error of a rounding in the normal range.\<close>

lemma roundQ_error:
  assumes "0 < n" "0 < d" "real_of_int n / d < huge" "1 / huge \<le> real_of_int n / d"
  shows "\<bar>valF (roundQ False n d) - n / d\<bar> \<le> n / d / 2 ^ 53"
proof -
  define l where "l = leadExp n d"
  define m where "m = roundDiv (scaleUp n (- (l - 52))) (scaleUp d (l - 52))"
  have "(2::real) powi (-1000) \<le> real_of_int n / d" using assms(4) unfolding huge_powi by (simp only: power_int_minus inverse_eq_divide)
  also have "real_of_int n / d < 2 powi (l + 1)" unfolding l_def using leadExp_bounds assms by blast
  finally have "-1000 < l + 1" by (meson linorder_not_less one_le_numeral power_int_increasing)
  then have v: "valF (roundQ False n d) = of_int m * 2 powi (l - 52)"
    using roundQ_val [OF assms(1-3), of False] unfolding m_def l_def by simp
  have sp: "0 < scaleUp d (l - 52)" using assms(2) scaleUp_pos by simp
  have r: "real_of_int (scaleUp n (- (l - 52))) / scaleUp d (l - 52) = n / d * 2 powi (- (l - 52))"
    using scale_ratio assms(2) .
  have "\<bar>of_int m - n / d * 2 powi (- (l - 52))\<bar> \<le> 1 / 2"
    using roundDiv_error [OF sp, of "scaleUp n (- (l - 52))"] unfolding r m_def by simp
  then have "\<bar>of_int m - n / d * 2 powi (- (l - 52))\<bar> * 2 powi (l - 52) \<le> 1 / 2 * 2 powi (l - 52)"
    by (intro mult_right_mono) auto
  moreover have "\<bar>of_int m - n / d * 2 powi (- (l - 52))\<bar> * 2 powi (l - 52) = \<bar>of_int m * 2 powi (l - 52) - n / d\<bar>"
    by (rule abs_scaled)
  moreover have "1 / 2 * (2::real) powi (l - 52) = 2 powi l / 2 ^ 53"
    by (simp add: power_int_diff)
  moreover have "2 powi l \<le> real_of_int n / d" unfolding l_def using leadExp_bounds assms by blast
  ultimately show ?thesis unfolding v by (simp only: times_divide_eq_left) (meson divide_right_mono order_trans zero_le_numeral zero_le_power)
qed

section \<open>Whole numbers\<close>

definition whole :: "float64 \<Rightarrow> int \<Rightarrow> bool" where
  "whole x i \<longleftrightarrow> finite64 x \<and> valF x = of_int i"

lemma sgn_cases: "real_of_int i = sgnF (i < 0) * of_int \<bar>i\<bar>"
  by (simp add: sgnF_def)

lemma small_real: "\<bar>i\<bar> < 2 ^ 53 \<Longrightarrow> \<bar>real_of_int i\<bar> < 2 ^ 53"
proof -
  assume "\<bar>i\<bar> < 2 ^ 53"
  then have "real_of_int \<bar>i\<bar> < real_of_int (2 ^ 53)" by (simp only: of_int_less_iff)
  then show ?thesis by simp
qed

lemma roundQ_whole:
  assumes "0 < n" "0 < d" "real_of_int n / d = of_int \<bar>i\<bar>" "\<bar>i\<bar> < 2 ^ 53" "s = (i < 0)"
  shows "whole (roundQ s n d) i"
proof -
  have q: "real_of_int n / d = of_int \<bar>i\<bar> * 2 powi 0" using assms(3) by simp
  have h: "real_of_int n / d < huge"
    unfolding assms(3) using small_real [OF assms(4)] by (intro less_huge) (simp only: of_int_abs)
  have "finite64 (roundQ s n d) \<and> valF (roundQ s n d) = sgnF s * (real_of_int n / d)"
    by (rule roundQ_exact [OF assms(1,2) q assms(4) _ h]) simp
  then show ?thesis unfolding whole_def assms(3) assms(5) sgn_cases [of i, symmetric] .
qed

lemma roundQ_0: "whole (roundQ s 0 d) 0"
  by (simp add: roundQ_def whole_def)

lemma floatOfInt_whole: "\<bar>i\<bar> < 2 ^ 53 \<Longrightarrow> whole (floatOfInt i) i"
  using roundQ_whole [of "\<bar>i\<bar>" 1 i] roundQ_0 by (cases "i = 0") (auto simp: floatOfInt_def)

lemma powi_not_neg: "\<not> (2::real) powi e < 0"
  and powi_pos: "\<not> (2::real) powi e \<le> 0"
  by (simp_all add: not_less not_le)

lemma roundI_whole:
  assumes "of_int v * 2 powi e = real_of_int i" "\<bar>i\<bar> < 2 ^ 53"
  shows "whole (roundI z v e) i"
proof (cases "v = 0")
  case True
  with assms show ?thesis by (simp add: roundI_def whole_def)
next
  case False
  have "i < 0 \<longleftrightarrow> v < 0"
  proof -
    have "real_of_int i < 0 \<longleftrightarrow> real_of_int v < 0" unfolding assms(1) [symmetric] by (simp add: mult_less_0_iff powi_not_neg)
    then show ?thesis by simp
  qed
  moreover have "real_of_int (scaleUp \<bar>v\<bar> e) / scaleUp 1 (- e) = of_int \<bar>i\<bar>"
    using scale_ratio [of 1 "\<bar>v\<bar>" "- e"] arg_cong [OF assms(1), of abs] by (simp add: abs_mult)
  ultimately show ?thesis using False assms(2) roundQ_whole [of "scaleUp \<bar>v\<bar> e" "scaleUp 1 (- e)" i "v < 0"]
    by (simp add: roundI_def scaleUp_pos)
qed

lemma finite64_cases: "finite64 x \<Longrightarrow> (\<And>s m e. x = FFin s m e \<Longrightarrow> 0 \<le> m \<Longrightarrow> P) \<Longrightarrow> P"
  by (cases x) auto

lemma addF_whole: "whole x i \<Longrightarrow> whole y j \<Longrightarrow> \<bar>i + j\<bar> < 2 ^ 53 \<Longrightarrow> whole (addF x y) (i + j)"
proof -
  assume a: "whole x i" "whole y j" and b: "\<bar>i + j\<bar> < 2 ^ 53"
  then obtain s m e s' m' e' where xy: "x = FFin s m e" "y = FFin s' m' e'"
    unfolding whole_def by (meson finite64_cases)
  let ?e0 = "min e e'"
  have "of_int (mantAt s m e ?e0 + mantAt s' m' e' ?e0) * 2 powi ?e0 = real_of_int (i + j)"
    using a unfolding xy whole_def by (simp add: distrib_right mantAt_val del: valF.simps)
  then show ?thesis unfolding xy addF.simps Let_def using b by (rule roundI_whole)
qed

lemma negF_whole: "whole x i \<Longrightarrow> whole (negF x) (- i)"
  by (cases x) (auto simp: whole_def sgnF_def)

lemma subF_whole: "whole x i \<Longrightarrow> whole y j \<Longrightarrow> \<bar>i - j\<bar> < 2 ^ 53 \<Longrightarrow> whole (subF x y) (i - j)"
  using addF_whole [of x i "negF y" "- j"] negF_whole by (simp add: subF_def)

lemma prod_pos_int: "0 \<le> m \<Longrightarrow> real_of_int m * 2 powi e = of_int i \<Longrightarrow> i \<noteq> 0 \<Longrightarrow> 0 < m"
  by (cases "m = 0") auto

lemma whole_cases:
  assumes "whole x i"
  shows "\<exists>s m e. x = FFin s m e \<and> 0 \<le> m \<and> of_int m * 2 powi e = real_of_int \<bar>i\<bar> \<and>
    (i \<noteq> 0 \<longrightarrow> s = (i < 0) \<and> 0 < m)"
proof -
  obtain s m e where x: "x = FFin s m e" "0 \<le> m" using assms unfolding whole_def by (meson finite64_cases)
  then have v: "sgnF s * of_int m * 2 powi e = real_of_int i" using assms by (simp add: whole_def)
  have nn: "0 \<le> real_of_int m * 2 powi e" using x(2) by simp
  have a: "of_int m * 2 powi e = real_of_int \<bar>i\<bar>" using v nn by (cases s) auto
  moreover have "s = (i < 0)" if "i \<noteq> 0"
  proof -
    have "real_of_int i = sgnF s * of_int \<bar>i\<bar>" using v a by (simp add: mult.assoc)
    then have "i = (if s then - \<bar>i\<bar> else \<bar>i\<bar>)" by (cases s) (simp_all flip: of_int_minus)
    with that show ?thesis by (auto split: if_splits)
  qed
  moreover have "0 < m" if "i \<noteq> 0" using prod_pos_int [OF x(2) a] that by simp
  ultimately show ?thesis using x by blast
qed

lemma mulF_whole:
  assumes "whole x i" "whole y j" "\<bar>i * j\<bar> < 2 ^ 53" shows "whole (mulF x y) (i * j)"
proof -
  obtain s m e where x: "x = FFin s m e" "0 \<le> m" "of_int m * 2 powi e = real_of_int \<bar>i\<bar>" "i \<noteq> 0 \<longrightarrow> s = (i < 0) \<and> 0 < m"
    using whole_cases [OF assms(1)] by blast
  obtain s' m' e' where y: "y = FFin s' m' e'" "0 \<le> m'" "of_int m' * 2 powi e' = real_of_int \<bar>j\<bar>" "j \<noteq> 0 \<longrightarrow> s' = (j < 0) \<and> 0 < m'"
    using whole_cases [OF assms(2)] by blast
  show ?thesis
  proof (cases "i * j = 0")
    case True
    then have "m * m' = 0" using x(3) y(3) by auto
    then have "scaleUp (m * m') (e + e') = 0" by (simp add: scaleUp_def)
    then show ?thesis unfolding x(1) y(1) mulF.simps by (simp only: True roundQ_0)
  next
    case False
    then have p: "0 < m * m'" using x(4) y(4) by simp
    have "real_of_int (scaleUp (m * m') (e + e')) / scaleUp 1 (- (e + e')) = (of_int m * 2 powi e) * (of_int m' * 2 powi e')"
      using scale_ratio [of 1 "m * m'" "- (e + e')"] by (simp add: power_int_add ac_simps)
    then have "real_of_int (scaleUp (m * m') (e + e')) / scaleUp 1 (- (e + e')) = of_int \<bar>i * j\<bar>"
      unfolding x(3) y(3) by (simp add: abs_mult)
    moreover have "(s \<noteq> s') = (i * j < 0)" using False x(4) y(4) by (auto simp: mult_less_0_iff)
    ultimately show ?thesis unfolding x(1) y(1) mulF.simps using p assms(3)
      by (intro roundQ_whole) (simp_all add: scaleUp_pos)
  qed
qed

lemma divF_ratio:
  assumes "finite64 x" "finite64 y" "0 < valF x" "0 < valF y"
  obtains n d where "0 < n" "0 < d" "divF x y = roundQ False n d" "real_of_int n / d = valF x / valF y"
proof -
  obtain s m e s' m' e' where xy: "x = FFin s m e" "y = FFin s' m' e'" "0 \<le> m" "0 \<le> m'"
    using assms(1,2) by (metis finite64_cases)
  have pos: "\<not> s \<and> 0 < m" if "0 < valF (FFin s m e)" "0 \<le> m" for s m e
    using that zero_less_power_int [of "2::real" e] by (cases s; cases "m = 0") (auto simp: mult_less_0_iff powi_not_neg zero_less_mult_iff)
  from xy assms(3,4) pos have p: "\<not> s" "0 < m" "\<not> s'" "0 < m'" by blast+
  have "real_of_int (scaleUp m (e - e')) / scaleUp m' (e' - e) = valF x / valF y"
    using scale_ratio [OF p(4), of m "e' - e"] p unfolding xy by (simp add: power_int_diff)
  with xy p show ?thesis by (intro that [of "scaleUp m (e - e')" "scaleUp m' (e' - e)"]) (simp_all add: scaleUp_pos)
qed

lemma divF_0: "whole x 0 \<Longrightarrow> whole y j \<Longrightarrow> 0 < j \<Longrightarrow> whole (divF x y) 0"
  using whole_cases [of x 0] whole_cases [of y j] by (auto simp: roundQ_0 scaleUp_def)

lemma divF_whole: "whole x (i * j) \<Longrightarrow> whole y j \<Longrightarrow> 0 \<le> i \<Longrightarrow> 0 < j \<Longrightarrow> i < 2 ^ 53 \<Longrightarrow> whole (divF x y) i"
proof (cases "i = 0")
  case False
  assume a: "whole x (i * j)" "whole y j" "0 \<le> i" "0 < j" "i < 2 ^ 53"
  with False have "0 < real_of_int i * real_of_int j" by simp
  with a obtain n d where "0 < n" "0 < d" "divF x y = roundQ False n d" "real_of_int n / d = real_of_int (i * j) / j"
    using divF_ratio [of x y] by (auto simp: whole_def)
  with a show ?thesis by (auto intro!: roundQ_whole)
qed (simp add: divF_0)

text \<open>Rounding up a rounded quotient of whole numbers is rounding up the quotient.\<close>

lemma divF_round:
  assumes "finite64 x" "finite64 y" "0 < valF x" "0 < valF y" "q = valF x / valF y" "1 / 2 ^ 110 \<le> q" "q < 2 ^ 53"
  shows "finite64 (divF x y)" "\<bar>valF (divF x y) - q\<bar> \<le> q / 2 ^ 53" "0 < valF (divF x y)"
    "\<And>j. q \<le> of_int j \<Longrightarrow> valF (divF x y) \<le> of_int j"
proof -
  obtain n d where nd: "0 < n" "0 < d" "divF x y = roundQ False n d" "real_of_int n / d = q"
    using divF_ratio [OF assms(1-4)] assms(5) by auto
  have b: "real_of_int n / d < 2 ^ 53" unfolding nd(4) by (rule assms(7))
  have "1 / huge \<le> real_of_int n / d" unfolding nd(4) using huge_inverse assms(6) by linarith
  from roundQ_error [OF nd(1,2) less_huge [OF b] this]
  show e: "\<bar>valF (divF x y) - q\<bar> \<le> q / 2 ^ 53" unfolding nd(3,4) .
  show "finite64 (divF x y)" unfolding nd(3) using nd(1,2) b by (rule roundQ_finite)
  have "0 < q" using nd(1,2) by (simp flip: nd(4))
  then have "q / 2 ^ 53 < q" by simp
  with e show "0 < valF (divF x y)" by (simp only: abs_le_iff) linarith
  show "valF (divF x y) \<le> of_int j" if "q \<le> of_int j" for j
    unfolding nd(3) using nd(1,2,4) b that by (intro roundQ_le_int) auto
qed

lemma ceiling_margin:
  assumes "0 < j" shows "of_int (\<lceil>real_of_int i / of_int j\<rceil> - 1) + 1 / of_int j \<le> real_of_int i / of_int j"
proof -
  let ?q = "\<lceil>real_of_int i / of_int j\<rceil>"
  have "of_int (?q - 1) < real_of_int i / of_int j" by linarith
  then have "real_of_int ((?q - 1) * j) < real_of_int i" using assms by (simp add: less_divide_eq)
  then have "(?q - 1) * j + 1 \<le> i" by linarith
  then have "real_of_int ((?q - 1) * j + 1) \<le> real_of_int i" by (simp only: of_int_le_iff)
  then have "real_of_int ((?q - 1) * j + 1) / of_int j \<le> real_of_int i / of_int j" using assms by (intro divide_right_mono) auto
  then show ?thesis using assms by (simp add: add_divide_distrib)
qed

lemma quotient_small:
  assumes "0 < i" "0 < j" "j < 2 ^ 53"
  shows "0 < real_of_int i / of_int j" "real_of_int i / of_int j \<le> of_int i" "1 / 2 ^ 53 \<le> real_of_int i / of_int j"
proof -
  have j: "0 < real_of_int j" "1 \<le> real_of_int j" "real_of_int j < 2 ^ 53" using assms small_real [of j] by auto
  then show "0 < real_of_int i / of_int j" "real_of_int i / of_int j \<le> of_int i"
    using assms by (simp_all add: divide_le_eq mult_le_cancel_left1)
  have "1 / 2 ^ 53 \<le> 1 / real_of_int j" using j by (intro divide_left_mono) auto
  also have "\<dots> \<le> real_of_int i / of_int j" using assms by (intro divide_right_mono) auto
  finally show "1 / 2 ^ 53 \<le> real_of_int i / of_int j" .
qed

lemma inv_110: "1 / (2::real) ^ 110 \<le> 1 / 2 ^ 53" "1 / (2::real) ^ 110 \<le> 1 / 2 ^ 53 / 2 * (1 / 2 ^ 53)"
  by simp_all

lemma ceil_div:
  assumes "whole x i" "whole y j" "0 \<le> i" "0 < j" "i < 2 ^ 53" "j < 2 ^ 53"
  shows "finite64 (divF x y) \<and> 0 \<le> valF (divF x y) \<and> \<lceil>valF (divF x y)\<rceil> = \<lceil>real_of_int i / j\<rceil>"
proof (cases "i = 0")
  case True
  with assms divF_0 show ?thesis by (simp add: whole_def)
next
  case False
  with assms have i: "0 < i" by simp
  define q where "q = real_of_int i / j"
  note q = quotient_small [OF i assms(4,6), folded q_def]
  have si: "real_of_int i < 2 ^ 53" using small_real [of i] assms(5) i by simp
  have b: "1 / 2 ^ 110 \<le> q" "q < 2 ^ 53" using q inv_110 si by linarith+
  have x: "finite64 x" "finite64 y" "0 < valF x" "0 < valF y" "q = valF x / valF y"
    using assms(1,2,4) i by (simp_all add: whole_def q_def)
  note r = divF_round [OF x b]
  have "q / 2 ^ 53 < 1 / of_int j" unfolding q_def using si assms(4) by (simp add: divide_strict_right_mono field_simps)
  with ceiling_margin [OF assms(4), of i, folded q_def] r(2)
  have "of_int (\<lceil>q\<rceil> - 1) < valF (divF x y)" by (simp only: abs_le_iff) linarith
  moreover have "valF (divF x y) \<le> of_int \<lceil>q\<rceil>" by (rule r(4)) simp
  ultimately show ?thesis using r(1,3) unfolding q_def by (simp add: ceiling_eq_iff)
qed

lemma ceilF_whole:
  assumes "finite64 x" "0 \<le> valF x" "\<lceil>valF x\<rceil> < 2 ^ 53"
  shows "whole (ceilF x) \<lceil>valF x\<rceil>"
proof -
  obtain s m e where x: "x = FFin s m e" "0 \<le> m" using assms(1) by (metis finite64_cases)
  show ?thesis
  proof (cases "m = 0")
    case True
    then show ?thesis unfolding x by (simp add: whole_def)
  next
    case False
    with assms(2) x have s: "\<not> s" by (cases s) (auto simp: mult_le_0_iff zero_le_mult_iff powi_not_neg powi_pos)
    let ?q = "scaleUp m e" let ?d = "scaleUp 1 (- e)"
    have "real_of_int ?q / ?d = valF x" using scale_ratio [of 1 m "- e"] s unfolding x by simp
    then have c: "- (- ?q div ?d) = \<lceil>valF x\<rceil>" by (metis ceiling_divide_eq_div)
    have "0 < \<lceil>valF x\<rceil>" using False s x(2) unfolding x(1) by (simp add: zero_less_mult_iff)
    then have "whole (roundQ False \<lceil>valF x\<rceil> 1) \<lceil>valF x\<rceil>" using assms(3) by (intro roundQ_whole) auto
    then show ?thesis using False s unfolding c [symmetric] unfolding x by (simp add: Let_def)
  qed
qed

lemma int64OfFloat_whole:
  assumes "whole x i" "\<bar>i\<bar> < 2 ^ 63" shows "int64OfFloat x = i"
proof -
  obtain s m e where x: "x = FFin s m e" "of_int m * 2 powi e = real_of_int \<bar>i\<bar>" "i \<noteq> 0 \<longrightarrow> s = (i < 0) \<and> 0 < m"
    using whole_cases [OF assms(1)] by blast
  have "real_of_int (scaleUp m e) / scaleUp 1 (- e) = of_int \<bar>i\<bar>" using scale_ratio [of 1 m "- e"] x(2) by simp
  then have "scaleUp m e div scaleUp 1 (- e) = \<bar>i\<bar>" by (metis floor_divide_of_int_eq floor_of_int)
  with x(3) assms(2) show ?thesis
    by (cases "i = 0") (auto simp: int64OfFloat_def Let_def x(1) abs_if split: if_splits)
qed

lemma whole_eqF: "whole x i \<Longrightarrow> whole y j \<Longrightarrow> eqF x y \<longleftrightarrow> i = j"
  by (simp add: whole_def eqF_val)

lemma whole_ltF: "whole x i \<Longrightarrow> whole y j \<Longrightarrow> ltF x y \<longleftrightarrow> i < j"
  by (simp add: whole_def ltF_val)

lemma whole_not: "whole x i \<Longrightarrow> x \<noteq> FNaN \<and> x \<noteq> FInf s"
  by (auto simp: whole_def)

lemma zero64_whole: "whole zero64 0"
  by (simp add: zero64_def whole_def)

lemma maxF_whole: "whole x i \<Longrightarrow> whole y j \<Longrightarrow> whole (maxF x y) (max i j)"
proof -
  assume a: "whole x i" "whole y j"
  then have "maxF x y = (if i = 0 \<and> i = j then (case x of FFin True _ _ \<Rightarrow> y | _ \<Rightarrow> x) else if j < i then x else y)"
    using whole_not a by (simp add: maxF_def isNaN_def whole_eqF [OF a(1) zero64_whole] whole_eqF whole_ltF)
  with a show ?thesis by (auto simp: max_def split: float64.split bool.split)
qed

text \<open>The same for two divisions in a row, as in the computation of a query's step.\<close>

lemma ceil_div_div:
  assumes "whole x t" "whole y m" "whole z k" "0 < t" "0 < m" "0 < k" "t < 2 ^ 51" "m < 2 ^ 53" "k < 2 ^ 53"
  shows "finite64 (divF (divF x y) z) \<and> 0 \<le> valF (divF (divF x y) z) \<and>
    \<lceil>valF (divF (divF x y) z)\<rceil> = \<lceil>real_of_int t / (m * k)\<rceil>"
proof -
  define u where "u = real_of_int t / m"
  note u = quotient_small [OF assms(4,5,8), folded u_def]
  have k: "0 < real_of_int k" "1 \<le> real_of_int k" using assms(6) by simp_all
  have "real_of_int t < real_of_int (2 ^ 51)" using assms(7) by (simp only: of_int_less_iff)
  then have t: "4 * real_of_int t < 2 ^ 53" by simp
  have b: "1 / 2 ^ 110 \<le> u" "u < 2 ^ 53" using u inv_110 t by linarith+
  have x: "finite64 x" "finite64 y" "0 < valF x" "0 < valF y" "u = valF x / valF y"
    using assms(1,2,4,5) by (simp_all add: whole_def u_def)
  note r = divF_round [OF x b]
  define v where "v = valF (divF x y) / k"
  have h: "u / 2 ^ 53 \<le> u / 2" using u(1) by (intro divide_left_mono) auto
  with r(2) have x1: "u / 2 \<le> valF (divF x y)" "valF (divF x y) \<le> 2 * u" by (simp_all only: abs_le_iff) linarith+
  have vx: "v \<le> valF (divF x y)" unfolding v_def using k r(3) by (simp add: divide_le_eq mult_le_cancel_left1)
  have "1 / 2 ^ 53 \<le> 1 / real_of_int k" using quotient_small(3) [of 1 k] assms(6,9) by simp
  moreover have "1 / 2 ^ 53 / 2 \<le> valF (divF x y)"
    using u(3) by (intro order_trans [OF _ x1(1)] divide_right_mono) auto
  ultimately have "1 / 2 ^ 53 / 2 * (1 / 2 ^ 53) \<le> valF (divF x y) * (1 / k)" by (intro mult_mono) auto
  with inv_110(2) have "1 / 2 ^ 110 \<le> valF (divF x y) * (1 / k)" by (rule order_trans)
  then have b': "1 / 2 ^ 110 \<le> v" unfolding v_def by (simp only: times_divide_eq_right mult_1_right)
  have b'': "v < 2 ^ 53" using vx x1(2) u(2) t u(1) k by linarith
  have y: "finite64 z" "0 < valF z" "v = valF (divF x y) / valF z" using assms(3,6) by (simp_all add: whole_def v_def)
  note r' = divF_round [OF r(1) y(1) r(3) y(2,3) b' b'']
  have mk: "0 < m * k" using assms(5,6) by simp
  have w: "real_of_int t / of_int (m * k) = u / k" by (simp add: u_def)
  have "u / k \<le> of_int \<lceil>u / k\<rceil>" by simp
  then have "u \<le> of_int \<lceil>u / k\<rceil> * real_of_int k" unfolding pos_divide_le_eq [OF k(1)] .
  then have "u \<le> of_int (\<lceil>u / k\<rceil> * k)" by simp
  from r(4) [OF this] have "v \<le> of_int \<lceil>u / k\<rceil>" unfolding v_def using k by (simp add: divide_le_eq)
  then have up: "valF (divF (divF x y) z) \<le> of_int \<lceil>u / k\<rceil>" by (rule r'(4))
  have "\<bar>v - u / k\<bar> = \<bar>valF (divF x y) - u\<bar> / k" unfolding v_def using k by (simp add: diff_divide_distrib [symmetric])
  also have "\<dots> \<le> u / 2 ^ 53 / k" using r(2) k by (intro divide_right_mono) auto
  finally have e: "\<bar>v - u / k\<bar> \<le> u / k / 2 ^ 53" by simp
  have "v \<le> 2 * u / k" unfolding v_def using x1(2) k by (intro divide_right_mono) auto
  then have "v / 2 ^ 53 \<le> 2 * (u / k) / 2 ^ 53" by (intro divide_right_mono) auto
  moreover have "3 * (u / k) / 2 ^ 53 < 1 / of_int (m * k)"
  proof -
    have "3 * real_of_int t / 2 ^ 53 < 1" using t assms(4) by simp
    then have "3 * real_of_int t / 2 ^ 53 / of_int (m * k) < 1 / of_int (m * k)" using mk by (intro divide_strict_right_mono) (auto simp only: of_int_0_less_iff)
    then show ?thesis by (simp add: u_def mult.commute mult.left_commute)
  qed
  ultimately have lo: "of_int (\<lceil>u / k\<rceil> - 1) < valF (divF (divF x y) z)"
    using ceiling_margin [OF mk, of t, unfolded w] e r'(2) by (simp only: abs_le_iff) (elim conjE, simp)
  with r' up show ?thesis using w by (simp add: ceiling_eq_iff)
qed

end
