(* ===== verification/Response.thy ===== *)
theory Response
  imports FloatFacts
begin

text \<open>
  \<open>src/prometheus/response.go\<close>: the replies of the storage's HTTP interface, and how a
  \<open>[time, "value"]\<close> pair is read from JSON. The part of \<open>encoding/json\<close> that reads a document into
  \<open>[]interface{}\<close> is written out, and \<open>strconv.ParseFloat\<close> with hexadecimal mantissas and
  underscores, which a value of a pair may use.
\<close>

section \<open>\<open>ParseFloat\<close> on every literal\<close>

text \<open>\<open>underscoreOK\<close>: underscores stand between digits only; a base prefix counts as a digit.\<close>

fun underscores_from :: "bool \<Rightarrow> char \<Rightarrow> string \<Rightarrow> bool" where
  "underscores_from hex saw [] \<longleftrightarrow> saw \<noteq> CHR ''_''"
| "underscores_from hex saw (c # cs) \<longleftrightarrow>
     (if isDecimalChar c \<or> (hex \<and> between CHR ''a'' (toLowerByte c) CHR ''f'') then underscores_from hex CHR ''0'' cs
      else if c = CHR ''_'' then saw = CHR ''0'' \<and> underscores_from hex CHR ''_'' cs
      else saw \<noteq> CHR ''_'' \<and> underscores_from hex CHR ''!'' cs)"

definition underscoreOK :: "string \<Rightarrow> bool" where
  "underscoreOK s =
     (let t = (if s \<noteq> [] \<and> (s ! 0 = CHR ''-'' \<or> s ! 0 = CHR ''+'') then drop 1 s else s) in
      if length t \<ge> 2 \<and> t ! 0 = CHR ''0'' \<and> toLowerByte (t ! 1) \<in> {CHR ''b'', CHR ''o'', CHR ''x''} then
        underscores_from (toLowerByte (t ! 1) = CHR ''x'') CHR ''0'' (drop 2 t)
      else underscores_from False CHR ''^'' t)"

definition isHexDigit :: "char \<Rightarrow> bool" where
  "isHexDigit c \<longleftrightarrow> fromHex c \<ge> 0"

fun hexDigitsValue :: "string \<Rightarrow> int \<Rightarrow> int" where
  "hexDigitsValue [] v = v"
| "hexDigitsValue (c # cs) v = hexDigitsValue cs (v * 16 + fromHex c)"

text \<open>The digits after \<open>0x\<close>: a mantissa and a binary exponent, which must be there.\<close>

definition hexFloat :: "bool \<Rightarrow> string \<Rightarrow> float64 option" where
  "hexFloat neg t =
     (let ip = takeWhile isHexDigit t; t1 = dropWhile isHexDigit t;
          dot = (t1 \<noteq> [] \<and> t1 ! 0 = CHR ''.'');
          fp = (if dot then takeWhile isHexDigit (drop 1 t1) else []);
          t2 = (if dot then dropWhile isHexDigit (drop 1 t1) else t1);
          t3 = drop 1 t2;
          eneg = (t3 \<noteq> [] \<and> t3 ! 0 = CHR ''-'');
          ed = (if t3 \<noteq> [] \<and> (t3 ! 0 = CHR ''-'' \<or> t3 ! 0 = CHR ''+'') then drop 1 t3 else t3);
          e = (if eneg then - clampExp ed 0 else clampExp ed 0) - 4 * int (length fp);
          m = hexDigitsValue (ip @ fp) 0 in
      if ip @ fp = [] \<or> t2 = [] \<or> toLowerByte (t2 ! 0) \<noteq> CHR ''p'' \<or> ed = [] \<or> \<not> list_all isDecimalChar ed then None
      else Some (roundQ neg (scaleUp m e) (scaleUp 1 (- e))))"

definition ParseFloatLit :: "string \<Rightarrow> float64 result" where
  "ParseFloatLit s =
     (let bad = Inl (Errorf ''strconv.ParseFloat: parsing %q: invalid syntax'' [s]);
          neg = (s \<noteq> [] \<and> s ! 0 = CHR ''-'');
          u = filter (\<lambda>c. c \<noteq> CHR ''_'') s;
          t = (if u \<noteq> [] \<and> (u ! 0 = CHR ''-'' \<or> u ! 0 = CHR ''+'') then drop 1 u else u) in
      if CHR ''_'' \<in> set s \<and> \<not> underscoreOK s then bad
      else if length t > 2 \<and> t ! 0 = CHR ''0'' \<and> toLowerByte (t ! 1) = CHR ''x'' then
        (case hexFloat neg (drop 2 t) of
           None \<Rightarrow> bad
         | Some (FInf _) \<Rightarrow> Inl (Errorf ''strconv.ParseFloat: parsing %q: value out of range'' [s])
         | Some x \<Rightarrow> Inr x)
      else ParseFloat u)"

section \<open>\<open>encoding/json\<close> into \<open>interface{}\<close>\<close>

datatype json =
    JNull
  | JBool bool
  | JNum float64
  | JStr string
  | JArr "json list"
  | JObj "(string \<times> json) list"

definition skipWs :: "string \<Rightarrow> string" where
  "skipWs s = dropWhile (\<lambda>c. c = CHR '' '' \<or> c = CHR 0x09 \<or> c = CHR 0x0D \<or> c = newline) s"

text \<open>The token of a number and what follows it.\<close>

definition jsonDigits :: "string \<Rightarrow> (string \<times> string) option" where
  "jsonDigits s = (let ds = takeWhile isDecimalChar s in if ds = [] then None else Some (ds, dropWhile isDecimalChar s))"

definition jsonInt :: "string \<Rightarrow> (string \<times> string) option" where
  "jsonInt s = (if s \<noteq> [] \<and> s ! 0 = CHR ''0'' then Some (''0'', drop 1 s) else jsonDigits s)"

definition jsonFrac :: "string \<Rightarrow> (string \<times> string) option" where
  "jsonFrac s =
     (if s \<noteq> [] \<and> s ! 0 = CHR ''.'' then map_option (\<lambda>(ds, t). (CHR ''.'' # ds, t)) (jsonDigits (drop 1 s))
      else Some ([], s))"

definition jsonExp :: "string \<Rightarrow> (string \<times> string) option" where
  "jsonExp s =
     (if s \<noteq> [] \<and> (s ! 0 = CHR ''e'' \<or> s ! 0 = CHR ''E'') then
        (let t = drop 1 s; sgn = take 1 t in
         if sgn = ''+'' \<or> sgn = ''-'' then map_option (\<lambda>(ds, t). (take 1 s @ sgn @ ds, t)) (jsonDigits (drop 1 t))
         else map_option (\<lambda>(ds, t). (take 1 s @ ds, t)) (jsonDigits t))
      else Some ([], s))"

definition jsonNumber :: "string \<Rightarrow> (string \<times> string) option" where
  "jsonNumber s =
     (let neg = (s \<noteq> [] \<and> s ! 0 = CHR ''-''); sgn = (if neg then ''-'' else []); t = (if neg then drop 1 s else s) in
      case jsonInt t of None \<Rightarrow> None
      | Some (ip, t1) \<Rightarrow> (case jsonFrac t1 of None \<Rightarrow> None
        | Some (fp, t2) \<Rightarrow> (case jsonExp t2 of None \<Rightarrow> None
          | Some (ep, t3) \<Rightarrow> Some (sgn @ ip @ fp @ ep, t3))))"

text \<open>\<open>getu4\<close>: the code unit of \<open>uXXXX\<close> after a backslash.\<close>

definition getu4 :: "string \<Rightarrow> nat option" where
  "getu4 s = (if length s < 6 \<or> s ! 0 \<noteq> bslash \<or> s ! 1 \<noteq> CHR ''u'' then None else hexVal 0 (take 4 (drop 2 s)))"

definition simpleEscape :: "char \<Rightarrow> char option" where
  "simpleEscape c =
     (if c = dquote \<or> c = bslash \<or> c = CHR ''/'' then Some c
      else if c = CHR ''b'' then Some (CHR 0x08) else if c = CHR ''f'' then Some (CHR 0x0C)
      else if c = CHR ''n'' then Some newline else if c = CHR ''r'' then Some (CHR 0x0D)
      else if c = CHR ''t'' then Some (CHR 0x09) else None)"

text \<open>One character of a string body: what it stands for, and how many bytes it takes.\<close>

definition jsonChar :: "string \<Rightarrow> (string \<times> nat) option" where
  "jsonChar s =
     (let c = s ! 0 in
      if c = bslash then
        (if length s < 2 then None
         else if s ! 1 = CHR ''u'' then
           (case getu4 s of
              None \<Rightarrow> None
            | Some r \<Rightarrow>
                if 0xD800 \<le> r \<and> r < 0xE000 then
                  (case getu4 (drop 6 s) of
                     Some r1 \<Rightarrow>
                       if r < 0xDC00 \<and> 0xDC00 \<le> r1 \<and> r1 < 0xE000 then
                         Some (encodeRune ((r - 0xD800) * 1024 + (r1 - 0xDC00) + 0x10000), 12)
                       else Some (encodeRune 0xFFFD, 6)
                   | None \<Rightarrow> Some (encodeRune 0xFFFD, 6))
                else Some (encodeRune r, 6))
         else map_option (\<lambda>x. ([x], 2)) (simpleEscape (s ! 1)))
      else if byte c < 0x20 then None
      else if byte c < 0x80 then Some ([c], 1)
      else (let (r, w) = decodeRune s in Some (encodeRune r, w)))"

lemma jsonChar_width: "s \<noteq> [] \<Longrightarrow> jsonChar s = Some (x, w) \<Longrightarrow> 0 < w"
  using decodeRune_width [of s]
  by (auto simp: jsonChar_def Let_def split: if_splits option.splits prod.splits)

function jsonString :: "string \<Rightarrow> (string \<times> string) option" where
  "jsonString s =
     (if s = [] then None
      else if s ! 0 = dquote then Some ([], drop 1 s)
      else case jsonChar s of
        None \<Rightarrow> None
      | Some (x, w) \<Rightarrow> map_option (\<lambda>(u, t). (x @ u, t)) (jsonString (drop w s)))"
  by pat_completeness auto
termination
  by (relation "measure length") (auto intro: diff_less dest: jsonChar_width)

declare jsonString.simps [simp del]

text \<open>
  Values, the elements of an array and the members of an object. Every call reads at least one
  byte; that the rest is shorter is tested in the definition, which makes the recursion total.
\<close>

function jsonValue :: "string \<Rightarrow> (json \<times> string) option"
  and jsonElems :: "string \<Rightarrow> (json list \<times> string) option"
  and jsonMembers :: "string \<Rightarrow> ((string \<times> json) list \<times> string) option" where
  "jsonValue s =
     (case skipWs s of [] \<Rightarrow> None
      | c # cs \<Rightarrow>
          if \<not> length cs < length s then None
          else if c = dquote then map_option (\<lambda>(v, t). (JStr v, t)) (jsonString cs)
          else if c = CHR ''['' then
            (case skipWs cs of [] \<Rightarrow> None
             | d # ds \<Rightarrow> if d = CHR '']'' then Some (JArr [], ds)
                 else map_option (\<lambda>(vs, t). (JArr vs, t)) (jsonElems cs))
          else if c = CHR ''{'' then
            (case skipWs cs of [] \<Rightarrow> None
             | d # ds \<Rightarrow> if d = CHR ''}'' then Some (JObj [], ds)
                 else map_option (\<lambda>(ms, t). (JObj ms, t)) (jsonMembers cs))
          else if HasPrefix (c # cs) ''true'' then Some (JBool True, drop 3 cs)
          else if HasPrefix (c # cs) ''false'' then Some (JBool False, drop 4 cs)
          else if HasPrefix (c # cs) ''null'' then Some (JNull, drop 3 cs)
          else (case jsonNumber (c # cs) of None \<Rightarrow> None
            | Some (tok, t) \<Rightarrow> (case ParseFloat tok of Inl e \<Rightarrow> None | Inr x \<Rightarrow> Some (JNum x, t))))"
| "jsonElems s =
     (case jsonValue s of None \<Rightarrow> None
      | Some (v, t) \<Rightarrow>
          (case skipWs t of [] \<Rightarrow> None
           | c # cs \<Rightarrow>
               if c = CHR '']'' then Some ([v], cs)
               else if c = CHR '','' \<and> length cs < length s then
                 map_option (\<lambda>(vs, t). (v # vs, t)) (jsonElems cs)
               else None))"
| "jsonMembers s =
     (case skipWs s of [] \<Rightarrow> None
      | q # qs \<Rightarrow>
          if q \<noteq> dquote then None
          else (case jsonString qs of None \<Rightarrow> None
            | Some (k, t) \<Rightarrow>
                (case skipWs t of [] \<Rightarrow> None
                 | c # cs \<Rightarrow>
                     if c \<noteq> CHR '':'' \<or> \<not> length cs < length s then None
                     else (case jsonValue cs of None \<Rightarrow> None
                       | Some (v, t) \<Rightarrow>
                           (case skipWs t of [] \<Rightarrow> None
                            | d # ds \<Rightarrow>
                                if d = CHR ''}'' then Some ([(k, v)], ds)
                                else if d = CHR '','' \<and> length ds < length s then
                                  map_option (\<lambda>(ms, t). ((k, v) # ms, t)) (jsonMembers ds)
                                else None)))))"
  by pat_completeness auto
termination
  by (relation "measure (\<lambda>x. case x of Inl s \<Rightarrow> 2 * length s | Inr (Inl s) \<Rightarrow> 2 * length s + 1 | Inr (Inr s) \<Rightarrow> 2 * length s + 1)")
    auto

declare jsonValue.simps [simp del] jsonElems.simps [simp del] jsonMembers.simps [simp del]

text \<open>\<open>json.Unmarshal(data, &arr)\<close> for \<open>arr\<close> of type \<open>[]interface{}\<close>; the text of its errors is not kept.\<close>

definition UnmarshalArray :: "string \<Rightarrow> json list result" where
  "UnmarshalArray data =
     (let bad = Inl (Errorf ''json: cannot unmarshal'' [data]) in
      case jsonValue data of
        None \<Rightarrow> bad
      | Some (v, t) \<Rightarrow>
          if skipWs t \<noteq> [] then bad
          else (case v of JArr arr \<Rightarrow> Inr arr | JNull \<Rightarrow> Inr [] | _ \<Rightarrow> bad))"

section \<open>The replies\<close>

record MatrixPair =
  Timestamp :: float64
  PairValue :: float64

record MatrixData =
  Metric :: "(string \<times> string) list"
  Values :: "MatrixPair list"

record MatrixResult =
  Result :: "MatrixData list"
  ResultType :: string

record MatrixResponse =
  MatrixStatus :: string
  MatrixOf :: MatrixResult

record ValuesResponse =
  ValuesStatus :: string
  ValuesOf :: "string list"

text \<open>\<open>%T\<close> of a decoded value.\<close>

fun typeName :: "json \<Rightarrow> string" where
  "typeName JNull = ''<nil>''"
| "typeName (JBool b) = ''bool''"
| "typeName (JNum x) = ''float64''"
| "typeName (JStr s) = ''string''"
| "typeName (JArr vs) = ''[]interface {}''"
| "typeName (JObj ms) = ''map[string]interface {}''"

text \<open>
  \<open>UnmarshalJSON\<close> on the receiver \<open>m\<close>: the timestamp is stored before the value is looked at, so
  the receiver is part of the result even when there is an error.
\<close>

definition UnmarshalJSON :: "string \<Rightarrow> (MatrixPair, unit) comp" where
  "UnmarshalJSON data m =
     (case UnmarshalArray data of
        Inl err \<Rightarrow> (Inl err, m)
      | Inr arr \<Rightarrow>
          if length arr \<noteq> 2 then (Inl (Errorf ''length mismatch, got %v, expected 2'' [Itoa (int (length arr))]), m)
          else (case arr ! 0 of
            JNum timestamp \<Rightarrow>
              (let m = m\<lparr>Timestamp := timestamp\<rparr> in
               case arr ! 1 of
                 JStr str \<Rightarrow>
                   (case ParseFloatLit str of
                      Inl err \<Rightarrow> (Inl err, m)
                    | Inr f \<Rightarrow> (Inr (), m\<lparr>PairValue := f\<rparr>))
               | v \<Rightarrow> (Inl (Errorf ''type mismatch for element[1/1], expected 'string', got '%T', str=%v'' [typeName v, data]), m))
          | v \<Rightarrow> (Inl (Errorf ''type mismatch for element[0/1], expected 'float64', got '%T', str=%v'' [typeName v, data]), m)))"

section \<open>Whole seconds and plain strings are read back\<close>

lemma isDecimalChar_lower: "isDecimalChar c \<Longrightarrow> toLowerByte c = c"
  by (auto simp: isDecimalChar_def toLowerByte_def between_def)

lemma ParseFloat_digits:
  assumes "list_all isDecimalChar ds" "ds \<noteq> []" "roundQ False (decDigits ds 0) 1 \<noteq> FInf False"
  shows "ParseFloat ds = Inr (roundQ False (decDigits ds 0) 1)"
proof -
  obtain c cs where ds: "ds = c # cs" using assms(2) by (cases ds) auto
  then have c: "isDecimalChar c" using assms(1) by simp
  then have n: "c \<noteq> CHR ''-''" "c \<noteq> CHR ''+''" by (auto simp: isDecimalChar_def between_def)
  have l: "map toLowerByte ds = ds" using assms(1) by (intro map_idI) (auto simp: isDecimalChar_lower list_all_iff)
  have sp: "ds \<noteq> ''inf''" "ds \<noteq> ''infinity''" "ds \<noteq> ''nan''" using c ds by (auto simp: isDecimalChar_def between_def)
  have tw: "takeWhile isDecimalChar ds = ds" "dropWhile isDecimalChar ds = []"
    using assms(1) by (auto simp: list_all_iff takeWhile_eq_all_conv dropWhile_eq_Nil_conv)
  have s: "ds ! 0 = c" using ds by simp
  have inf: "roundQ False (decDigits ds 0) 1 \<noteq> FInf b" for b
    using assms(3) by (cases b) (auto simp: roundQ_def Let_def split: if_splits prod.splits)
  show ?thesis
    using assms(2) n sp inf unfolding ParseFloat_def s l Let_def
    by (simp add: l tw s decimalValue_def split: float64.split)
qed

lemma ParseFloat_Itoa:
  assumes "n < 2 ^ 53" shows "ParseFloat (Itoa (int n)) = Inr (floatOfInt (int n))"
proof -
  have "whole (floatOfInt (int n)) (int n)" using assms by (intro floatOfInt_whole) simp
  then have "roundQ False (decDigits (natDec n) 0) 1 \<noteq> FInf False"
    using whole_not by (auto simp: floatOfInt_def decDigits_natDec)
  from ParseFloat_digits [OF natDec_decimal natDec_not_Nil this] show ?thesis
    by (simp add: Itoa_of_nat decDigits_natDec floatOfInt_def)
qed

lemma natDec_first: "natDec n = c # cs \<Longrightarrow> c \<noteq> CHR ''0'' \<or> cs = []"
proof (induction n arbitrary: c cs rule: natDec.induct)
  case (1 n)
  show ?case
  proof (cases "n < 10")
    case True
    with "1.prems" show ?thesis by (subst (asm) natDec.simps) simp
  next
    case False
    then have e: "natDec n = natDec (n div 10) @ [digitChar (n mod 10)]" by (subst natDec.simps) simp
    obtain d ds where d: "natDec (n div 10) = d # ds" using natDec_not_Nil by (cases "natDec (n div 10)") auto
    from 1(1) [OF False d] have "d \<noteq> CHR ''0'' \<or> ds = []" .
    moreover have "d = CHR ''0'' \<and> ds = [] \<Longrightarrow> False"
    proof -
      assume "d = CHR ''0'' \<and> ds = []"
      then have "decVal (natDec (n div 10)) = 0" unfolding d by (simp add: decVal_def digitVal_def)
      with False show False by simp
    qed
    ultimately show ?thesis using e d "1.prems" by auto
  qed
qed

text \<open>A whole number is a token of its own, and a string body without escapes stands for itself.\<close>

lemma jsonNumber_Itoa:
  assumes "\<not> isDecimalChar c" "c \<noteq> CHR ''.''" "c \<noteq> CHR ''e''" "c \<noteq> CHR ''E''"
  shows "jsonNumber (Itoa (int n) @ c # rest) = Some (Itoa (int n), c # rest)"
proof -
  obtain d ds where d: "natDec n = d # ds" using natDec_not_Nil by (cases "natDec n") auto
  have dec: "list_all isDecimalChar (d # ds)" using natDec_decimal [of n] unfolding d .
  then have "d \<noteq> CHR ''-''" by (auto simp: isDecimalChar_def between_def)
  moreover have "jsonInt (d # ds @ c # rest) = Some (d # ds, c # rest)"
  proof (cases "d = CHR ''0''")
    case True
    then show ?thesis using natDec_first [OF d] by (simp add: jsonInt_def)
  next
    case False
    have tw: "takeWhile isDecimalChar (xs @ c # rest) = xs" "dropWhile isDecimalChar (xs @ c # rest) = c # rest"
      if "list_all isDecimalChar xs" for xs using that assms(1) by (induction xs) auto
    from tw [OF dec] False show ?thesis by (simp add: jsonInt_def jsonDigits_def)
  qed
  moreover have "jsonFrac (c # rest) = Some ([], c # rest)" "jsonExp (c # rest) = Some ([], c # rest)"
    using assms by (simp_all add: jsonFrac_def jsonExp_def)
  ultimately show ?thesis unfolding Itoa_of_nat d by (simp add: jsonNumber_def)
qed

definition bodyChar :: "char \<Rightarrow> bool" where
  "bodyChar c \<longleftrightarrow> 0x20 \<le> byte c \<and> byte c < 0x80 \<and> c \<noteq> dquote \<and> c \<noteq> bslash"

lemma jsonString_plain: "list_all bodyChar v \<Longrightarrow> jsonString (v @ dquote # rest) = Some (v, rest)"
proof (induction v)
  case Nil
  show ?case by (subst jsonString.simps) simp
next
  case (Cons c v)
  then have "jsonChar ((c # v) @ dquote # rest) = Some ([c], 1)" by (simp add: jsonChar_def bodyChar_def Let_def)
  then show ?case using Cons by (subst jsonString.simps) (simp add: bodyChar_def)
qed

lemma skipWs_digit: "isDecimalChar c \<Longrightarrow> skipWs (c # s) = c # s"
  by (auto simp: skipWs_def isDecimalChar_def between_def)

lemma skipWs_other: "c \<notin> {CHR '' '', CHR 0x09, CHR 0x0D, newline} \<Longrightarrow> skipWs (c # s) = c # s"
  by (simp add: skipWs_def)

text \<open>How the storage writes a pair: the time as a whole number, the value as a string.\<close>

definition pairText :: "nat \<Rightarrow> string \<Rightarrow> string" where
  "pairText t v = ''['' @ Itoa (int t) @ '','' @ [dquote] @ v @ [dquote] @ '']''"

lemma jsonValue_number:
  assumes "\<not> isDecimalChar c" "c \<noteq> CHR ''.''" "c \<noteq> CHR ''e''" "c \<noteq> CHR ''E''" "n < 2 ^ 53"
  shows "jsonValue (Itoa (int n) @ c # rest) = Some (JNum (floatOfInt (int n)), c # rest)"
proof -
  obtain d ds where d: "natDec n = d # ds" using natDec_not_Nil by (cases "natDec n") auto
  have dd: "isDecimalChar d" using natDec_decimal [of n] unfolding d by simp
  have num: "jsonNumber (d # ds @ c # rest) = Some (d # ds, c # rest)"
    using jsonNumber_Itoa [OF assms(1-4), of n rest] unfolding Itoa_of_nat d by simp
  have pf: "ParseFloat (d # ds) = Inr (floatOfInt (int n))" using ParseFloat_Itoa [OF assms(5)] unfolding Itoa_of_nat d .
  have "d \<noteq> dquote" "d \<noteq> CHR ''[''" "d \<noteq> CHR ''{''" "d \<noteq> CHR ''t''" "d \<noteq> CHR ''f''" "d \<noteq> CHR ''n''"
    using dd by (auto simp: isDecimalChar_def between_def)
  then show ?thesis unfolding Itoa_of_nat d
    by (subst jsonValue.simps) (simp add: skipWs_digit [OF dd] num pf HasPrefix_def)
qed

lemma UnmarshalArray_pair:
  assumes "list_all bodyChar v" "t < 2 ^ 53"
  shows "UnmarshalArray (pairText t v) = Inr [JNum (floatOfInt (int t)), JStr v]"
proof -
  have str: "jsonValue (dquote # v @ dquote # '']'') = Some (JStr v, '']'')"
    by (subst jsonValue.simps) (simp add: skipWs_other jsonString_plain [OF assms(1)])
  have e1: "jsonElems (dquote # v @ dquote # '']'') = Some ([JStr v], [])"
    by (subst jsonElems.simps) (simp add: str skipWs_other)
  have num: "jsonValue (Itoa (int t) @ CHR '','' # dquote # v @ dquote # '']'') =
      Some (JNum (floatOfInt (int t)), CHR '','' # dquote # v @ dquote # '']'')"
    using assms(2) by (intro jsonValue_number) (auto simp: isDecimalChar_def between_def)
  have e2: "jsonElems (Itoa (int t) @ CHR '','' # dquote # v @ dquote # '']'') = Some ([JNum (floatOfInt (int t)), JStr v], [])"
    by (subst jsonElems.simps) (simp add: num skipWs_other e1)
  obtain d ds where d: "Itoa (int t) = d # ds" "isDecimalChar d"
    using natDec_not_Nil natDec_decimal [of t] by (cases "natDec t") (auto simp: Itoa_of_nat)
  then have "d \<noteq> CHR '']''" by (auto simp: isDecimalChar_def between_def)
  then have "jsonValue (pairText t v) = Some (JArr [JNum (floatOfInt (int t)), JStr v], [])"
    using e2 d skipWs_digit [OF d(2)] unfolding pairText_def by (subst jsonValue.simps) (simp add: skipWs_other)
  then show ?thesis by (simp add: UnmarshalArray_def skipWs_def)
qed

lemma UnmarshalJSON_pairText:
  assumes "list_all bodyChar v" "t < 2 ^ 53"
  shows "UnmarshalJSON (pairText t v) m =
    (case ParseFloatLit v of
       Inl err \<Rightarrow> (Inl err, m\<lparr>Timestamp := floatOfInt (int t)\<rparr>)
     | Inr f \<Rightarrow> (Inr (), m\<lparr>Timestamp := floatOfInt (int t), PairValue := f\<rparr>))"
  using UnmarshalArray_pair [OF assms] by (simp add: UnmarshalJSON_def Let_def split: sum.split)

text \<open>C28: a pair as the storage writes it, a whole time below \<open>2^53\<close> and a quoted value, is decoded
  to exactly that time and to what \<open>ParseFloat\<close> makes of the value; when the value is no number, the
  decoding fails with that error, and the timestamp has been stored nevertheless.\<close>

theorem UnmarshalJSON_pair:
  assumes "list_all bodyChar v" "t < 2 ^ 53"
  shows "UnmarshalJSON (pairText t v) m =
    (case ParseFloatLit v of
       Inl err \<Rightarrow> (Inl err, m\<lparr>Timestamp := floatOfInt (int t)\<rparr>)
     | Inr f \<Rightarrow> (Inr (), m\<lparr>Timestamp := floatOfInt (int t), PairValue := f\<rparr>))"
  using assms by (rule UnmarshalJSON_pairText)

theorem UnmarshalJSON_pair_witness:
  "UnmarshalJSON (pairText 1590249600 ''1.5'') \<lparr>Timestamp = zero64, PairValue = zero64\<rparr> =
     (Inr (), \<lparr>Timestamp = floatOfInt 1590249600, PairValue = FFin False (3 * 2 ^ 51) (-52)\<rparr>)"
proof -
  have "ParseFloatLit ''1.5'' = Inr (FFin False (3 * 2 ^ 51) (-52))" by code_simp
  moreover have "list_all bodyChar ''1.5''" by code_simp
  ultimately show ?thesis using UnmarshalJSON_pair [of "''1.5''" 1590249600] by simp
qed

end
