(* ===== verification/Matecarbon.thy ===== *)
theory Matecarbon
  imports Response Converter "HOL-Library.Signed_Division"
begin

text \<open>
  \<open>src/cmd/matecarbon/main.go\<close>: what one goroutine of \<open>Find\<close> and of \<open>Render\<close> does with its target,
  and the configuration. A goroutine is a computation whose state is the list of metrics it has
  appended to the shared answer; an \<open>Inl\<close> result is a panic, which the server does not recover.
  The HTTP client, the JSON and protobuf packages, YAML and the matching of regular expressions
  are third-party code and parameters (record \<open>carbonEnv\<close>).
\<close>

section \<open>64-bit integers and slices\<close>

definition wrap64 :: "int \<Rightarrow> int" where
  "wrap64 i = (i + 2 ^ 63) mod 2 ^ 64 - 2 ^ 63"

definition add64 :: "int \<Rightarrow> int \<Rightarrow> int" where "add64 i j = wrap64 (i + j)"
definition sub64 :: "int \<Rightarrow> int \<Rightarrow> int" where "sub64 i j = wrap64 (i - j)"
definition mul64 :: "int \<Rightarrow> int \<Rightarrow> int" where "mul64 i j = wrap64 (i * j)"

definition div64 :: "int \<Rightarrow> int \<Rightarrow> ('s, int) comp" where
  "div64 i j = (if j = 0 then fail (Panicf ''integer divide by zero'') else ret (wrap64 (i sdiv j)))"

text \<open>\<open>make([]float64, n)\<close>: at most \<open>2^48\<close> bytes of 8-byte elements.\<close>

definition makeFloats :: "int \<Rightarrow> ('s, nat) comp" where
  "makeFloats n = (if n < 0 \<or> n > 2 ^ 45 then fail (Panicf ''makeslice: len out of range'') else ret (nat n))"

definition makeNanArr :: "int \<Rightarrow> ('s, float64 list) comp" where
  "makeNanArr count = andThen (makeFloats count) (\<lambda>n. ret (replicate n FNaN))"

definition sliceFrom :: "'a list \<Rightarrow> int \<Rightarrow> ('s, 'a list) comp" where
  "sliceFrom values lo =
     (if lo < 0 \<or> lo > int (length values) then fail (Panicf ''slice bounds out of range'')
      else ret (drop (nat lo) values))"

text \<open>
  \<open>values[:hi]\<close> may reach past the length up to the capacity: \<open>spare\<close> are the elements between
  the two, which \<open>append\<close> is free to choose.
\<close>

definition sliceTo :: "('a list \<Rightarrow> 'a list) \<Rightarrow> 'a list \<Rightarrow> int \<Rightarrow> ('s, 'a list) comp" where
  "sliceTo spare values hi =
     (if hi < 0 \<or> hi > int (length (values @ spare values)) then fail (Panicf ''slice bounds out of range'')
      else ret (take (nat hi) (values @ spare values)))"

section \<open>Configuration and environment\<close>

text \<open>A compiled \<open>MatchSuffixRe\<close> is kept as the expression it was compiled from.\<close>

record RollupConfig =
  MatchSuffix :: string
  MatchSuffixRe :: string
  RollupFunc :: string

text \<open>\<open>Rollups\<close> are pointers; an empty YAML item decodes to \<open>nil\<close>.\<close>

record Config =
  Listen :: string
  StatsdFlushInterval :: float64
  PrometheusURL :: string
  PrometheusMaxBody :: int
  Rollups :: "RollupConfig option list"
  DefaultRollupFunc :: string

definition nilPointer :: failure where
  "nilPointer = Panicf ''invalid memory address or nil pointer dereference''"

fun compileRollups :: "golib \<Rightarrow> RollupConfig option list \<Rightarrow> RollupConfig option list result" where
  "compileRollups L [] = Inr []"
| "compileRollups L (None # rs) = Inl nilPointer"
| "compileRollups L (Some rollup # rs) =
     (let re = MatchSuffix rollup @ ''$'' in
      case regexpCompile L re of
        Some err \<Rightarrow> Inl err
      | None \<Rightarrow> (case compileRollups L rs of Inl err \<Rightarrow> Inl err
          | Inr rs \<Rightarrow> Inr (Some (rollup\<lparr>MatchSuffixRe := re\<rparr>) # rs)))"

text \<open>\<open>readFile\<close> and \<open>yaml\<close> stand for \<open>ioutil.ReadFile\<close> and \<open>yaml.Unmarshal\<close>; the document \<open>null\<close> leaves a nil pointer.\<close>

definition LoadConfig ::
    "golib \<Rightarrow> (string \<Rightarrow> string result) \<Rightarrow> (string \<Rightarrow> Config option result) \<Rightarrow> string \<Rightarrow> Config result" where
  "LoadConfig L readFile yaml configPath =
     (case readFile configPath of
        Inl err \<Rightarrow> Inl err
      | Inr body \<Rightarrow> (case yaml body of
          Inl err \<Rightarrow> Inl err
        | Inr None \<Rightarrow> Inl nilPointer
        | Inr (Some config) \<Rightarrow> (case compileRollups L (Rollups config) of
            Inl err \<Rightarrow> Inl err
          | Inr rs \<Rightarrow> Inr (config\<lparr>Rollups := rs\<rparr>))))"

datatype param = PInt int | PStr string

text \<open>What a request yields: an error, or a body and perhaps an error after it.\<close>

datatype reply = GetFailed failure | Reply string "failure option"

text \<open>
  \<open>httpGet i\<close> are the answers the goroutine number \<open>i\<close> gets, \<open>decodeMatrix\<close> leaves the pairs of
  a series as raw texts for \<open>UnmarshalJSON\<close>.
\<close>

record carbonEnv =
  httpGet :: "nat \<Rightarrow> string \<Rightarrow> (string \<times> param) list \<Rightarrow> reply"
  decodeValues :: "string \<Rightarrow> ValuesResponse result"
  decodeMatrix :: "string \<Rightarrow> ((string \<times> string) list \<times> string list) list result"
  reMatch :: "string \<Rightarrow> string \<Rightarrow> bool"
  spareFloats :: "float64 list \<Rightarrow> float64 list"

text \<open>\<open>ioutil.ReadAll(io.LimitReader(body, n))\<close>: an error behind the limit is not seen.\<close>

definition readLimited :: "string \<Rightarrow> failure option \<Rightarrow> int \<Rightarrow> string result" where
  "readLimited body err n =
     (if n \<le> int (length body) then Inr (take (nat n) body)
      else case err of None \<Rightarrow> Inr body | Some e \<Rightarrow> Inl e)"

section \<open>\<open>Find\<close>\<close>

record GlobMatch =
  IsLeaf :: bool
  Path :: string

record GlobResponse =
  GlobName :: string
  Matches :: "GlobMatch list"

record MultiGlobRequest =
  GlobMetrics :: "string list"
  GlobStartTime :: int
  GlobStopTime :: int

definition selectorOf :: "string \<Rightarrow> bool \<Rightarrow> string \<times> string" where
  "selectorOf target terminal =
     (let (name, filters) = ConvertGraphiteTarget target terminal in
      (name, Build (case filters of None \<Rightarrow> [] | Some fs \<Rightarrow> fs) name))"

definition findTarget :: "carbonEnv \<Rightarrow> Config \<Rightarrow> MultiGlobRequest \<Rightarrow> nat \<Rightarrow> string \<Rightarrow> (GlobResponse list, unit) comp" where
  "findTarget E cfg req i target =
     (if target = ''*'' then ret ()
      else if length target > 8192 then ret ()
      else
      let (name, selector) = selectorOf target False;
          (prefix, query, fast) = ConvertQueryLabel target;
          params = (if fast then [] else
            [(''start'', PInt (GlobStartTime req)), (''end'', PInt (GlobStopTime req)), (''match[]'', PStr selector)]) in
      case httpGet E i (PrometheusURL cfg @ ''/api/v1/label/'' @ query @ ''/values'') params of
        GetFailed err \<Rightarrow> ret ()
      | Reply body err \<Rightarrow> (case readLimited body err (PrometheusMaxBody cfg) of
          Inl err \<Rightarrow> ret ()
        | Inr body \<Rightarrow> (case decodeValues E body of
            Inl err \<Rightarrow> ret ()
          | Inr data \<Rightarrow>
              modifyS (\<lambda>ms. ms @ [\<lparr>GlobName = target,
                 Matches = map (\<lambda>label. \<lparr>IsLeaf = False, Path = prefix @ label\<rparr>) (ValuesOf data)\<rparr>]))))"

section \<open>\<open>Render\<close>\<close>

record FetchRequest =
  PathExpression :: string
  StartTime :: int
  StopTime :: int
  MaxDataPoints :: int

record FetchResponse =
  FetchName :: string
  FetchPath :: string
  ConsolidationFunc :: string
  MetricStart :: int
  MetricStop :: int
  StepTime :: int
  FetchValues :: "float64 list"
  RequestStartTime :: int
  RequestStopTime :: int

definition defaultMaxDatapoints :: float64 where
  "defaultMaxDatapoints = floatOfInt 1024"

definition queryStep :: "Config \<Rightarrow> FetchRequest \<Rightarrow> float64" where
  "queryStep cfg req =
     (let maxDataPoints = floatOfInt (MaxDataPoints req);
          maxDataPoints = (if eqF maxDataPoints zero64 then defaultMaxDatapoints else maxDataPoints);
          timeRange = floatOfInt (sub64 (StopTime req) (StartTime req));
          multipleInterval = mulF (ceilF (divF (divF timeRange maxDataPoints) (StatsdFlushInterval cfg))) (StatsdFlushInterval cfg) in
      maxF multipleInterval (StatsdFlushInterval cfg))"

text \<open>The function of the first rollup whose suffix matches the path.\<close>

fun chooseRollup :: "carbonEnv \<Rightarrow> string \<Rightarrow> RollupConfig option list \<Rightarrow> ('s, string option) comp" where
  "chooseRollup E path [] = ret None"
| "chooseRollup E path (None # rs) = fail nilPointer"
| "chooseRollup E path (Some rollup # rs) =
     (if reMatch E (MatchSuffixRe rollup) path then ret (Some (RollupFunc rollup)) else chooseRollup E path rs)"

definition rangeQuery :: "string \<Rightarrow> string \<Rightarrow> float64 \<Rightarrow> string" where
  "rangeQuery func selector step = func @ ''('' @ selector @ ''['' @ Itoa (int64OfFloat step) @ ''s])''"

text \<open>The inner loop of the filling: the pairs at the time \<open>t\<close>, the last of which stays.\<close>

fun takeAt :: "float64 \<Rightarrow> float64 \<Rightarrow> MatrixPair list \<Rightarrow> float64 \<times> MatrixPair list" where
  "takeAt t v [] = (v, [])"
| "takeAt t v (p # ps) = (if \<not> eqF t (Timestamp p) then (v, p # ps) else takeAt t (PairValue p) ps)"

fun fillValues :: "float64 \<Rightarrow> float64 \<Rightarrow> nat \<Rightarrow> nat \<Rightarrow> MatrixPair list \<Rightarrow> float64 list" where
  "fillValues start step i 0 ps = []"
| "fillValues start step i (Suc k) ps =
     (let (v, ps) = takeAt (addF start (mulF (floatOfInt (int i)) step)) FNaN ps in
      v # fillValues start step (i + 1) k ps)"

text \<open>The start and the end of the points are moved to the time of the request.\<close>

definition alignStart :: "int \<Rightarrow> int \<Rightarrow> int \<Rightarrow> float64 list \<Rightarrow> ('s, int \<times> float64 list) comp" where
  "alignStart requestStart metricStart metricStep values =
     (if metricStart < requestStart then
        (let startStep = int64OfFloat (ceilF (divF (floatOfInt (sub64 requestStart metricStart)) (floatOfInt metricStep))) in
         andThen (sliceFrom values startStep) (\<lambda>values.
         ret (add64 metricStart (mul64 startStep metricStep), values)))
      else
        andThen (div64 (sub64 metricStart requestStart) metricStep) (\<lambda>startStep.
        andThen (makeNanArr startStep) (\<lambda>nans.
        ret (sub64 metricStart (mul64 startStep metricStep), nans @ values))))"

definition alignEnd ::
    "(float64 list \<Rightarrow> float64 list) \<Rightarrow> int \<Rightarrow> int \<Rightarrow> int \<Rightarrow> int \<Rightarrow> float64 list \<Rightarrow> ('s, int \<times> float64 list) comp" where
  "alignEnd spare requestStart requestEnd metricEnd metricStep values =
     (if metricEnd > requestEnd then
        (let stopStep = int64OfFloat (ceilF (divF (floatOfInt (sub64 metricEnd requestEnd)) (floatOfInt metricStep))) in
         andThen (sliceTo spare values (sub64 (int (length values)) stopStep)) (\<lambda>values.
         ret (sub64 metricEnd (mul64 stopStep metricStep), values)))
      else
        andThen (div64 (sub64 requestEnd requestStart) metricStep) (\<lambda>q.
        let stopStep = sub64 (add64 q 1) (int (length values)) in
        andThen (makeNanArr stopStep) (\<lambda>nans.
        ret (add64 metricEnd (mul64 stopStep metricStep), values @ nans))))"

definition seriesValues :: "float64 \<Rightarrow> MatrixPair list \<Rightarrow> ('s, float64 list) comp" where
  "seriesValues step ps =
     (let start = Timestamp (hd ps); end' = Timestamp (last ps);
          count = addF (divF (subF end' start) step) one64 in
      andThen (makeFloats (int64OfFloat count)) (\<lambda>n. ret (fillValues start step 0 n ps)))"

definition renderSeries ::
    "carbonEnv \<Rightarrow> float64 \<Rightarrow> string \<Rightarrow> FetchRequest \<Rightarrow> MatrixData \<Rightarrow> (FetchResponse list, unit) comp" where
  "renderSeries E step name req m =
     (if Values m = [] then ret ()
      else let target = ConvertPrometheusMetric name (Metric m) in
      if target = [] then ret ()
      else
        andThen (seriesValues step (Values m)) (\<lambda>values.
        let metricStart = int64OfFloat (Timestamp (hd (Values m)));
            metricEnd = int64OfFloat (Timestamp (last (Values m)));
            metricStep = int64OfFloat step in
        andThen (alignStart (StartTime req) metricStart metricStep values) (\<lambda>(metricStart, values).
        andThen (alignEnd (spareFloats E) (StartTime req) (StopTime req) metricEnd metricStep values) (\<lambda>(metricEnd, values).
        modifyS (\<lambda>ms. ms @ [\<lparr>FetchName = target, FetchPath = PathExpression req, ConsolidationFunc = ''avg'',
          MetricStart = metricStart, MetricStop = metricEnd, StepTime = metricStep, FetchValues = values,
          RequestStartTime = StartTime req, RequestStopTime = StopTime req\<rparr>])))))"

text \<open>Decoding a series calls \<open>UnmarshalJSON\<close> on each pair; the first error ends it.\<close>

fun pairsOf :: "string list \<Rightarrow> MatrixPair list result" where
  "pairsOf [] = Inr []"
| "pairsOf (t # ts) =
     (case UnmarshalJSON t \<lparr>Timestamp = zero64, PairValue = zero64\<rparr> of
        (Inl err, m) \<Rightarrow> Inl err
      | (Inr u, m) \<Rightarrow> (case pairsOf ts of Inl err \<Rightarrow> Inl err | Inr ms \<Rightarrow> Inr (m # ms)))"

fun seriesOf :: "((string \<times> string) list \<times> string list) list \<Rightarrow> MatrixData list result" where
  "seriesOf [] = Inr []"
| "seriesOf ((metric, ts) # ds) =
     (case pairsOf ts of Inl err \<Rightarrow> Inl err
      | Inr ps \<Rightarrow> (case seriesOf ds of Inl err \<Rightarrow> Inl err
          | Inr ms \<Rightarrow> Inr (\<lparr>Metric = metric, Values = ps\<rparr> # ms)))"

definition renderTarget :: "carbonEnv \<Rightarrow> Config \<Rightarrow> nat \<Rightarrow> FetchRequest \<Rightarrow> (FetchResponse list, unit) comp" where
  "renderTarget E cfg i req =
     (if length (PathExpression req) > 8192 then ret ()
      else
      let (name, selector) = selectorOf (PathExpression req) True;
          step = queryStep cfg req;
          window = Itoa (int64OfFloat step) @ ''s'' in
      andThen (chooseRollup E (PathExpression req) (Rollups cfg)) (\<lambda>func.
      let query = rangeQuery (case func of None \<Rightarrow> DefaultRollupFunc cfg | Some f \<Rightarrow> f) selector step;
          params = [(''query'', PStr query), (''start'', PInt (StartTime req)), (''end'', PInt (StopTime req)),
            (''step'', PStr window), (''max_lookback'', PStr window)] in
      case httpGet E i (PrometheusURL cfg @ ''/api/v1/query_range'') params of
        GetFailed err \<Rightarrow> ret ()
      | Reply body err \<Rightarrow> (case readLimited body err (PrometheusMaxBody cfg) of
          Inl err \<Rightarrow> ret ()
        | Inr body \<Rightarrow> (case decodeMatrix E body of
            Inl err \<Rightarrow> ret ()
          | Inr raw \<Rightarrow> (case seriesOf raw of
              Inl err \<Rightarrow> ret ()
            | Inr ms \<Rightarrow> andThen (mapM (renderSeries E step name req) ms) (\<lambda>us. ret ()))))))"

section \<open>The server\<close>

text \<open>A goroutine's work on its own: what it appends, and whether it ends in a panic.\<close>

definition runWork :: "('b list, unit) comp \<Rightarrow> 'b list \<times> bool" where
  "runWork m = (case m [] of (Inl e, ms) \<Rightarrow> (ms, True) | (Inr u, ms) \<Rightarrow> (ms, False))"

definition findWork :: "carbonEnv \<Rightarrow> Config \<Rightarrow> MultiGlobRequest \<Rightarrow> nat \<Rightarrow> string \<Rightarrow> GlobResponse list \<times> bool" where
  "findWork E cfg req i target = runWork (findTarget E cfg req i target)"

definition renderWork :: "carbonEnv \<Rightarrow> Config \<Rightarrow> nat \<Rightarrow> FetchRequest \<Rightarrow> FetchResponse list \<times> bool" where
  "renderWork E cfg i req = runWork (renderTarget E cfg i req)"

text \<open>
  The HTTP handlers around them: reading and decoding the request, \<open>handle\<close>, encoding the answer.
\<close>

datatype httpReply = HttpError int failure | HttpOk string string

definition serve ::
    "string result \<Rightarrow> (string \<Rightarrow> 'q result) \<Rightarrow> ('q \<Rightarrow> 'p result) \<Rightarrow> ('p \<Rightarrow> string result) \<Rightarrow> httpReply" where
  "serve readBody unmarshal handle marshal =
     (case readBody of Inl err \<Rightarrow> HttpError 400 err
      | Inr body \<Rightarrow> (case unmarshal body of Inl err \<Rightarrow> HttpError 400 err
        | Inr req \<Rightarrow> (case handle req of Inl err \<Rightarrow> HttpError 500 err
          | Inr resp \<Rightarrow> (case marshal resp of Inl err \<Rightarrow> HttpError 500 err
            | Inr blob \<Rightarrow> HttpOk ''application/x-protobuf'' blob))))"

text \<open>The routes: \<open>answer\<close> is what a run of \<open>Find\<close> or \<open>Render\<close> returned; neither returns an error.\<close>

definition serveFind ::
    "string result \<Rightarrow> (string \<Rightarrow> MultiGlobRequest result) \<Rightarrow> (MultiGlobRequest \<Rightarrow> GlobResponse list) \<Rightarrow>
     (GlobResponse list \<Rightarrow> string result) \<Rightarrow> httpReply" where
  "serveFind readBody unmarshal answer marshal = serve readBody unmarshal (\<lambda>req. Inr (answer req)) marshal"

definition serveRender ::
    "string result \<Rightarrow> (string \<Rightarrow> FetchRequest list result) \<Rightarrow> (FetchRequest list \<Rightarrow> FetchResponse list) \<Rightarrow>
     (FetchResponse list \<Rightarrow> string result) \<Rightarrow> httpReply" where
  "serveRender readBody unmarshal answer marshal = serve readBody unmarshal (\<lambda>req. Inr (answer req)) marshal"

end
