(* ===== verification/RenderProps.thy ===== *)
theory RenderProps
  imports Matecarbon
begin

text \<open>
  What \<open>Render\<close> answers: the step is a multiple of the flush interval that keeps to the number of
  points asked for, and an answered series is the stored one resampled on that step and moved to
  the time of the request.
\<close>

lemma wrap64_small: "\<bar>i\<bar> < 2 ^ 63 \<Longrightarrow> wrap64 i = i"
  by (simp add: wrap64_def)

section \<open>The step of a query\<close>

definition ceilDiv :: "int \<Rightarrow> int \<Rightarrow> int" where
  "ceilDiv n d = - (- n div d)"

lemma ceilDiv_real: "\<lceil>real_of_int n / real_of_int d\<rceil> = ceilDiv n d"
  unfolding ceilDiv_def by (rule ceiling_divide_eq_div)

lemma ceilDiv_bounds: "0 < d \<Longrightarrow> n \<le> ceilDiv n d * d \<and> ceilDiv n d * d < n + d"
proof -
  assume "0 < d"
  then have "0 \<le> - n mod d" "- n mod d < d" by simp_all
  moreover have "- n = d * (- n div d) + - n mod d" by simp
  ultimately show ?thesis unfolding ceilDiv_def minus_mult_left [symmetric] mult.commute [of _ d] by linarith
qed

lemma ceilDiv_nonneg: "0 < d \<Longrightarrow> 0 \<le> n \<Longrightarrow> 0 \<le> ceilDiv n d"
  using ceilDiv_bounds [of d n] by (metis mult_neg_pos not_le order_trans)

lemma ceilDiv_unique: "0 < d \<Longrightarrow> n \<le> k * d \<Longrightarrow> k * d < n + d \<Longrightarrow> ceilDiv n d = k"
proof -
  assume d: "0 < d" "n \<le> k * d" "k * d < n + d"
  note b = ceilDiv_bounds [OF d(1), of n]
  from b d have "(ceilDiv n d - k) * d < 1 * d" "(k - ceilDiv n d) * d < 1 * d" by (simp_all add: left_diff_distrib)
  then have "ceilDiv n d - k < 1" "k - ceilDiv n d < 1" using d(1) by (simp_all only: mult_less_cancel_right_pos)
  then show ?thesis by simp
qed

text \<open>The number of points asked for; 0 means the default.\<close>

definition pointLimit :: "FetchRequest \<Rightarrow> int" where
  "pointLimit req = (if MaxDataPoints req = 0 then 1024 else MaxDataPoints req)"

definition stepSpec :: "int \<Rightarrow> FetchRequest \<Rightarrow> int" where
  "stepSpec interval req = max interval (ceilDiv (StopTime req - StartTime req) (pointLimit req * interval) * interval)"

definition plainRequest :: "int \<Rightarrow> FetchRequest \<Rightarrow> bool" where
  "plainRequest interval req \<longleftrightarrow>
     0 < interval \<and> interval < 2 ^ 50 \<and> 0 \<le> MaxDataPoints req \<and> MaxDataPoints req < 2 ^ 50 \<and>
     0 \<le> StartTime req \<and> StartTime req \<le> StopTime req \<and> StopTime req < 2 ^ 40"

lemma whole_ceil_steps:
  assumes "whole x t" "whole y m" "whole z k" "0 \<le> t" "0 < m" "0 < k" "t < 2 ^ 50" "m < 2 ^ 50" "k < 2 ^ 50"
  shows "whole (ceilF (divF (divF x y) z)) (ceilDiv t (m * k))"
proof (cases "t = 0")
  case True
  have "whole (divF (divF x y) z) 0" using divF_0 assms True by blast
  then have "whole (ceilF (divF (divF x y) z)) 0" using ceilF_whole [of "divF (divF x y) z"] by (simp add: whole_def)
  with True show ?thesis by (simp add: ceilDiv_def)
next
  case False
  with assms have "finite64 (divF (divF x y) z)" "0 \<le> valF (divF (divF x y) z)" "\<lceil>valF (divF (divF x y) z)\<rceil> = ceilDiv t (m * k)"
    using ceil_div_div [of x t y m z k] by (auto simp flip: ceilDiv_real)
  moreover have "ceilDiv t (m * k) < 2 ^ 53"
  proof -
    have mk: "1 \<le> m * k" using assms(5,6) by (simp add: int_one_le_iff_zero_less)
    with ceilDiv_bounds [of "m * k" t] have b: "ceilDiv t (m * k) * (m * k) < t + m * k" by simp
    have "ceilDiv t (m * k) \<le> t + 1"
    proof (rule ccontr)
      assume "\<not> ?thesis"
      then have "(t + 2) * (m * k) \<le> ceilDiv t (m * k) * (m * k)" using mk by (intro mult_right_mono) auto
      moreover have "t * 1 \<le> t * (m * k)" using mk assms(4) by (intro mult_left_mono) auto
      ultimately show False using b mk by (simp add: distrib_right)
    qed
    with assms(7) show ?thesis by simp
  qed
  ultimately show ?thesis using ceilF_whole by metis
qed

lemma queryStep_whole:
  assumes "plainRequest interval req" "StatsdFlushInterval cfg = floatOfInt interval"
  shows "whole (queryStep cfg req) (stepSpec interval req) \<and> stepSpec interval req < 2 ^ 51"
proof -
  have r: "0 < interval" "interval < 2 ^ 50" "0 \<le> MaxDataPoints req" "MaxDataPoints req < 2 ^ 50"
    "0 \<le> StartTime req" "StartTime req \<le> StopTime req" "StopTime req < 2 ^ 40"
    using assms(1) by (auto simp: plainRequest_def)
  let ?t = "StopTime req - StartTime req" and ?m = "pointLimit req" and ?x = "floatOfInt (MaxDataPoints req)"
  have w: "whole (floatOfInt j) j" if "0 \<le> j" "j < 2 ^ 50" for j using that by (intro floatOfInt_whole) auto
  have "eqF ?x zero64 \<longleftrightarrow> MaxDataPoints req = 0" using whole_eqF w r(3,4) zero64_whole by blast
  then have m: "(if eqF ?x zero64 then defaultMaxDatapoints else ?x) = floatOfInt ?m"
    by (simp add: pointLimit_def defaultMaxDatapoints_def)
  have mb: "0 < ?m" "?m < 2 ^ 50" using r by (auto simp: pointLimit_def)
  have t: "sub64 (StopTime req) (StartTime req) = ?t" using r by (simp add: sub64_def wrap64_small)
  have c: "whole (ceilF (divF (divF (floatOfInt ?t) (floatOfInt ?m)) (floatOfInt interval))) (ceilDiv ?t (?m * interval))"
    using r mb by (intro whole_ceil_steps w) auto
  have mi: "0 < ?m * interval" using r mb by simp
  have k: "0 \<le> ceilDiv ?t (?m * interval) * interval \<and> ceilDiv ?t (?m * interval) * interval < ?t + interval"
  proof -
    let ?c = "ceilDiv ?t (?m * interval)"
    have c0: "0 \<le> ?c" using ceilDiv_nonneg mi r by simp
    have "?c * (?m * interval) < ?t + ?m * interval" using ceilDiv_bounds mi by blast
    then have "(?c - 1) * (interval * ?m) < ?t" by (simp add: algebra_simps)
    moreover have "(?c - 1) * interval \<le> (?c - 1) * (interval * ?m)" if "1 \<le> ?c"
      using that r(1) mb(1) by (intro mult_left_mono) (auto simp: mult_le_cancel_left1)
    ultimately have "1 \<le> ?c \<Longrightarrow> (?c - 1) * interval < ?t" by linarith
    then show ?thesis using c0 r(1,6) by (cases "?c = 0") (auto simp: algebra_simps)
  qed
  have "whole (mulF (ceilF (divF (divF (floatOfInt ?t) (floatOfInt ?m)) (floatOfInt interval))) (floatOfInt interval))
      (ceilDiv ?t (?m * interval) * interval)"
    using c w r k by (intro mulF_whole) auto
  then have "whole (queryStep cfg req) (max (ceilDiv ?t (?m * interval) * interval) interval)"
    unfolding queryStep_def Let_def t m assms(2) using w r by (intro maxF_whole) auto
  then show ?thesis using k r by (auto simp: stepSpec_def max.commute)
qed

section \<open>Filling the gaps\<close>

text \<open>The points of a series, and the value at a time: not a number where there is none.\<close>

definition valueAt :: "(int \<times> float64) list \<Rightarrow> int \<Rightarrow> float64" where
  "valueAt pts t = (case map_of pts t of None \<Rightarrow> FNaN | Some v \<Rightarrow> v)"

definition toPairs :: "(int \<times> float64) list \<Rightarrow> MatrixPair list" where
  "toPairs pts = map (\<lambda>(t, v). \<lparr>Timestamp = floatOfInt t, PairValue = v\<rparr>) pts"

definition smallTimes :: "(int \<times> float64) list \<Rightarrow> bool" where
  "smallTimes pts \<longleftrightarrow> list_all (\<lambda>p. 0 \<le> fst p \<and> fst p < 2 ^ 40) pts"

lemma floatTime: "smallTimes pts \<Longrightarrow> (t, v) \<in> set pts \<Longrightarrow> whole (floatOfInt t) t"
  by (intro floatOfInt_whole) (auto simp: smallTimes_def list_all_iff)

lemma valueAt_none: "t \<notin> fst ` set pts \<Longrightarrow> valueAt pts t = FNaN"
  by (auto simp: valueAt_def split: option.split dest: map_of_SomeD intro: rev_image_eqI)

lemma takeAt_later:
  assumes "whole x t" "smallTimes pts" "\<forall>t' \<in> fst ` set pts. t < t'"
  shows "takeAt x v (toPairs pts) = (v, toPairs pts)"
proof (cases pts)
  case (Cons p r)
  obtain t' v' where p: "p = (t', v')" by (cases p)
  have "whole (floatOfInt t') t'" using floatTime [OF assms(2)] Cons p by auto
  then have "\<not> eqF x (floatOfInt t')" using whole_eqF [OF assms(1)] assms(3) Cons p by auto
  then show ?thesis using Cons p by (simp add: toPairs_def)
qed (simp add: toPairs_def)

lemma takeAt_first:
  assumes "whole x t" "smallTimes ((t, v') # pts)" "\<forall>t' \<in> fst ` set pts. t < t'"
  shows "takeAt x v (toPairs ((t, v') # pts)) = (v', toPairs pts)"
proof -
  have "whole (floatOfInt t) t" using floatTime [OF assms(2)] by auto
  then have "eqF x (floatOfInt t)" using whole_eqF [OF assms(1)] by simp
  moreover have "takeAt x v' (toPairs pts) = (v', toPairs pts)"
    using assms by (intro takeAt_later) (auto simp: smallTimes_def)
  ultimately show ?thesis by (simp add: toPairs_def)
qed

text \<open>On a grid of steps the filling is the series as a function of time.\<close>

lemma fillValues_grid:
  assumes "whole start s" "whole step d" "0 < d" "0 \<le> s"
    and "s + int (i + k) * d < 2 ^ 52" "smallTimes pts" "sorted_wrt (<) (map fst pts)"
    and "\<forall>t \<in> fst ` set pts. s + int i * d \<le> t \<and> d dvd (t - s)"
  shows "fillValues start step i k (toPairs pts) = map (\<lambda>j. valueAt pts (s + int j * d)) [i..<i + k]"
  using assms(5-)
proof (induction k arbitrary: i pts)
  case (Suc k)
  let ?t = "s + int i * d" and ?x = "addF start (mulF (floatOfInt (int i)) step)"
  have id: "0 \<le> int i * d" "int i * d < 2 ^ 52"
  proof -
    show "0 \<le> int i * d" using assms(3) by simp
    have "int i * d \<le> int (i + Suc k) * d" using assms(3) by (intro mult_right_mono) auto
    with Suc.prems(1) assms(4) show "int i * d < 2 ^ 52" by linarith
  qed
  have "int i * 1 \<le> int i * d" using assms(3) by (intro mult_left_mono) auto
  with id have "whole (floatOfInt (int i)) (int i)" by (intro floatOfInt_whole) auto
  with assms(2) id have "whole (mulF (floatOfInt (int i)) step) (int i * d)" by (intro mulF_whole) auto
  moreover have "?t < 2 ^ 52"
  proof -
    have "int i * d \<le> int (i + Suc k) * d" using assms(3) by (intro mult_right_mono) auto
    with Suc.prems(1) show ?thesis by linarith
  qed
  ultimately have x: "whole ?x ?t" using assms(1,4) id by (intro addF_whole) auto
  have later: "s + int (Suc i) * d \<le> t" if lt: "?t < t" and dv: "d dvd (t - s)" for t
  proof -
    obtain c where c: "t = s + d * c" using dv by (metis add_diff_cancel_left' dvdE add.commute diff_add_cancel)
    with lt assms(3) have "int i < c" by (simp add: mult.commute)
    then have "int (Suc i) * d \<le> c * d" using assms(3) by (intro mult_right_mono) auto
    with c show ?thesis by (simp add: mult.commute)
  qed
  have u: "[i..<Suc (i + k)] = i # [Suc i..<Suc (i + k)]" by (simp add: upt_conv_Cons del: upt_Suc)
  show ?case
  proof (cases "\<exists>v r. pts = (?t, v) # r")
    case True
    then obtain v r where pts: "pts = (?t, v) # r" by blast
    with Suc.prems(3) have gt: "\<forall>t' \<in> fst ` set r. ?t < t'" by auto
    have "fillValues start step (Suc i) k (toPairs r) = map (\<lambda>j. valueAt r (s + int j * d)) [Suc i..<Suc i + k]"
      using Suc.prems pts gt later by (intro Suc.IH) (auto simp: smallTimes_def)
    then have ih: "fillValues start step (Suc i) k (toPairs r) = map (\<lambda>j. valueAt r (s + int j * d)) [Suc i..<Suc (i + k)]"
      by (simp only: add_Suc)
    have "valueAt r (s + int j * d) = valueAt pts (s + int j * d)" if "Suc i \<le> j" for j
      using that assms(3) pts by (simp add: valueAt_def)
    then have e: "map (\<lambda>j. valueAt r (s + int j * d)) [Suc i..<Suc (i + k)] = map (\<lambda>j. valueAt pts (s + int j * d)) [Suc i..<Suc (i + k)]"
      by (rule map_cong [OF refl]) (simp only: set_upt atLeastLessThan_iff)
    have "takeAt ?x FNaN (toPairs pts) = (v, toPairs r)"
      unfolding pts using x Suc.prems(2) gt pts by (intro takeAt_first) auto
    moreover have "valueAt pts ?t = v" by (simp add: pts valueAt_def)
    ultimately show ?thesis by (simp add: u ih e del: upt_Suc map_eq_conv)
  next
    case False
    then have gt: "\<forall>t' \<in> fst ` set pts. ?t < t'"
    proof (cases pts)
      case (Cons p r)
      with False Suc.prems(4) have "?t < fst p" by (cases p) (force simp: order_less_le)
      with Cons Suc.prems(3) show ?thesis by force
    qed simp
    then have "fillValues start step (Suc i) k (toPairs pts) = map (\<lambda>j. valueAt pts (s + int j * d)) [Suc i..<Suc i + k]"
      using Suc.prems later by (intro Suc.IH) auto
    then have ih: "fillValues start step (Suc i) k (toPairs pts) = map (\<lambda>j. valueAt pts (s + int j * d)) [Suc i..<Suc (i + k)]"
      by (simp only: add_Suc)
    have "takeAt ?x FNaN (toPairs pts) = (FNaN, toPairs pts)"
      using x Suc.prems(2) gt by (intro takeAt_later)
    moreover have "valueAt pts ?t = FNaN" using gt by (intro valueAt_none) auto
    ultimately show ?thesis by (simp add: u ih del: upt_Suc map_eq_conv)
  qed
qed simp

section \<open>Alignment\<close>

text \<open>\<open>n\<close> samples of a function of time, from \<open>t0\<close> in steps of \<open>d\<close>.\<close>

definition samples :: "(int \<Rightarrow> float64) \<Rightarrow> int \<Rightarrow> int \<Rightarrow> nat \<Rightarrow> float64 list" where
  "samples g t0 d n = map (\<lambda>j. g (t0 + int j * d)) [0..<n]"

lemma length_samples [simp]: "length (samples g t0 d n) = n"
  by (simp add: samples_def)

lemma nth_samples [simp]: "j < n \<Longrightarrow> samples g t0 d n ! j = g (t0 + int j * d)"
  by (simp add: samples_def)

lemma samples_append: "samples g t0 d k @ samples g (t0 + int k * d) d n = samples g t0 d (k + n)"
  by (rule nth_equalityI) (auto simp: nth_append algebra_simps of_nat_diff)

lemma drop_samples: "k \<le> n \<Longrightarrow> drop k (samples g t0 d n) = samples g (t0 + int k * d) d (n - k)"
  by (rule nth_equalityI) (auto simp: algebra_simps)

lemma take_samples: "k \<le> n \<Longrightarrow> take k (samples g t0 d n) = samples g t0 d k"
  by (rule nth_equalityI) auto

lemma samples_const: "(\<And>j. j < n \<Longrightarrow> g (t0 + int j * d) = FNaN) \<Longrightarrow> replicate n FNaN = samples g t0 d n"
  by (rule nth_equalityI) auto

lemma makeNanArr_ok: "0 \<le> k \<Longrightarrow> k \<le> 2 ^ 45 \<Longrightarrow> makeNanArr k = ret (replicate (nat k) FNaN)"
  by (simp add: makeNanArr_def makeFloats_def)

lemma sliceFrom_samples:
  "0 \<le> k \<Longrightarrow> k \<le> int n \<Longrightarrow> sliceFrom (samples g t0 d n) k = ret (samples g (t0 + k * d) d (nat (int n - k)))"
  by (simp add: sliceFrom_def drop_samples nat_diff_distrib)

lemma sliceTo_samples:
  "0 \<le> k \<Longrightarrow> k \<le> int n \<Longrightarrow> sliceTo spare (samples g t0 d n) k = ret (samples g t0 d (nat k))"
  by (simp add: sliceTo_def take_samples)

text \<open>The number of steps between two times, as the code rounds it up.\<close>

lemma steps_up:
  assumes "0 \<le> b - a" "b - a < 2 ^ 50" "0 < d" "d < 2 ^ 52"
  shows "int64OfFloat (ceilF (divF (floatOfInt (sub64 b a)) (floatOfInt d))) = ceilDiv (b - a) d"
proof -
  have w: "whole (floatOfInt (b - a)) (b - a)" "whole (floatOfInt d) d" using assms by (auto intro!: floatOfInt_whole)
  have f: "finite64 (divF (floatOfInt (b - a)) (floatOfInt d))" "0 \<le> valF (divF (floatOfInt (b - a)) (floatOfInt d))"
    "\<lceil>valF (divF (floatOfInt (b - a)) (floatOfInt d))\<rceil> = ceilDiv (b - a) d"
    using ceil_div [OF w assms(1,3)] assms by (auto simp flip: ceilDiv_real)
  have "ceilDiv (b - a) d \<le> ceilDiv (b - a) d * d" using assms ceilDiv_nonneg [of d "b - a"] by (simp add: mult_le_cancel_left1)
  with ceilDiv_bounds [of d "b - a"] have c: "ceilDiv (b - a) d < 2 ^ 50 + 2 ^ 52" using assms by linarith
  with f have "whole (ceilF (divF (floatOfInt (b - a)) (floatOfInt d))) (ceilDiv (b - a) d)"
    using ceilF_whole [of "divF (floatOfInt (b - a)) (floatOfInt d)"] by simp
  moreover have "sub64 b a = b - a" using assms by (simp add: sub64_def wrap64_small)
  moreover have "0 \<le> ceilDiv (b - a) d" using ceilDiv_nonneg assms by simp
  ultimately show ?thesis using int64OfFloat_whole c by (simp del: mult_le_cancel_left1)
qed

lemma div_le_self: "0 \<le> n \<Longrightarrow> 0 < d \<Longrightarrow> n div d \<le> (n::int)"
  using zdiv_mono2 [of n 1 d] by simp

lemma div_bounds: "0 < d \<Longrightarrow> n div d * d \<le> n \<and> n < n div d * d + d" for n d :: int
proof -
  assume "0 < d"
  then have "0 \<le> n mod d" "n mod d < d" by simp_all
  moreover have "n = n div d * d + n mod d" by simp
  ultimately show ?thesis by linarith
qed

lemma div_between: "0 < d \<Longrightarrow> k * d \<le> n \<Longrightarrow> n < k * d + d \<Longrightarrow> n div d = k" for k n d :: int
  using int_div_pos_eq [of n d k "n - k * d"] by (simp add: mult.commute)

lemma mod_between: "0 < d \<Longrightarrow> 0 \<le> x + k * d \<Longrightarrow> x + k * d < d \<Longrightarrow> x mod d = x + k * d" for x k d :: int
  by (metis mod_mult_self1 mod_pos_pos_trivial)

lemma div64_pos:
  assumes "0 \<le> n" "n < 2 ^ 50" "0 < d"
  shows "div64 n d = ret (n div d)"
proof -
  have "0 \<le> n div d" "n div d \<le> n" using assms by (simp_all add: pos_imp_zdiv_nonneg_iff div_le_self)
  moreover have "n sdiv d = n div d" using assms by (cases "n = 0") (simp_all add: signed_divide_int_def)
  ultimately show ?thesis using assms by (simp add: div64_def wrap64_small)
qed

lemma alignStart_samples:
  assumes "0 \<le> R" "R < 2 ^ 40" "0 \<le> s" "s < 2 ^ 40" "0 < d" "d < 2 ^ 52"
    and "R \<le> s + int n * d" "\<And>t. t < s \<Longrightarrow> g t = FNaN"
  shows "\<exists>s' n'. alignStart R s d (samples g s d n) = ret (s', samples g s' d n') \<and>
    s' = R + (s - R) mod d \<and> s' + int n' * d = s + int n * d"
proof (cases "s < R")
  case True
  let ?k = "ceilDiv (R - s) d"
  have k: "R - s \<le> ?k * d" "?k * d < R - s + d" "0 \<le> ?k"
    using ceilDiv_bounds [OF assms(5), of "R - s"] ceilDiv_nonneg [OF assms(5), of "R - s"] True by auto
  have "?k * d < (int n + 1) * d" using k(2) assms(7) by (simp add: algebra_simps)
  then have kn: "?k \<le> int n" using assms(5) by simp
  have step: "int64OfFloat (ceilF (divF (floatOfInt (sub64 R s)) (floatOfInt d))) = ?k"
    using assms True by (intro steps_up) auto
  have "add64 s (mul64 ?k d) = s + ?k * d"
    using assms k by (simp add: add64_def mul64_def wrap64_small)
  then have "alignStart R s d (samples g s d n) = ret (s + ?k * d, samples g (s + ?k * d) d (nat (int n - ?k)))"
    using True unfolding alignStart_def step Let_def by (simp add: sliceFrom_samples k(3) kn)
  moreover have "(s - R) mod d = s - R + ?k * d" using assms(5) k by (intro mod_between) auto
  ultimately show ?thesis using k kn by - (rule exI [of _ "s + ?k * d"], rule exI [of _ "nat (int n - ?k)"], simp add: algebra_simps)
next
  case False
  let ?k = "(s - R) div d"
  have k: "0 \<le> ?k" "?k \<le> s - R" "?k * d \<le> s - R" "s - R < ?k * d + d"
  proof -
    show "0 \<le> ?k" "?k \<le> s - R" using False assms(5) by (simp_all add: pos_imp_zdiv_nonneg_iff div_le_self)
    show "?k * d \<le> s - R" "s - R < ?k * d + d" using div_bounds [OF assms(5), of "s - R"] by simp_all
  qed
  let ?s = "s - ?k * d"
  have dv: "div64 (sub64 s R) d = ret ?k" using False assms by (subst div64_pos) (simp_all add: sub64_def wrap64_small)
  have mk: "makeNanArr ?k = ret (replicate (nat ?k) FNaN)" using k assms by (intro makeNanArr_ok) auto
  have "sub64 s (mul64 ?k d) = ?s" using assms k False by (simp add: sub64_def mul64_def wrap64_small)
  moreover have "replicate (nat ?k) FNaN = samples g ?s d (nat ?k)"
  proof (intro samples_const assms(8))
    fix j assume "j < nat ?k"
    then have "int j * d < ?k * d" using assms(5) by (intro mult_strict_right_mono) auto
    then show "?s + int j * d < s" by linarith
  qed
  moreover have "samples g ?s d (nat ?k) @ samples g s d n = samples g ?s d (nat ?k + n)"
    using samples_append [of g ?s d "nat ?k" n] k(1) by simp
  ultimately have "alignStart R s d (samples g s d n) = ret (?s, samples g ?s d (nat ?k + n))"
    using False unfolding alignStart_def by (simp add: dv mk)
  moreover have "(s - R) mod d = s - R + (- ?k) * d" using assms(5) k by (intro mod_between) auto
  ultimately show ?thesis using k by - (rule exI [of _ ?s], rule exI [of _ "nat ?k + n"], simp add: algebra_simps)
qed

lemma alignEnd_samples:
  assumes "0 \<le> R" "R \<le> Q" "Q < 2 ^ 40" "0 \<le> e" "e < 2 ^ 40" "0 < d" "d < 2 ^ 52" "n < 2 ^ 42"
    and "R \<le> s" "s < R + d" "s + int n * d = e + d" "\<And>t. e < t \<Longrightarrow> g t = FNaN"
  shows "\<exists>n'. alignEnd spare R Q e d (samples g s d n) = ret (s + (int n' - 1) * d, samples g s d n') \<and>
    int n' = (if e > Q then (Q - s) div d else (Q - R) div d) + 1"
proof (cases "e > Q")
  case True
  let ?k = "ceilDiv (e - Q) d"
  have k: "e - Q \<le> ?k * d" "?k * d < e - Q + d" "0 \<le> ?k"
    using ceilDiv_bounds [OF assms(6), of "e - Q"] ceilDiv_nonneg [OF assms(6), of "e - Q"] True by auto
  have "?k * d < (int n + 1) * d" using k(2) assms(2,10,11) by (simp add: algebra_simps)
  then have kn: "?k \<le> int n" using assms(6) by simp
  have step: "int64OfFloat (ceilF (divF (floatOfInt (sub64 e Q)) (floatOfInt d))) = ?k"
    using assms True by (intro steps_up) auto
  have "sub64 e (mul64 ?k d) = e - ?k * d" using assms k True by (simp add: sub64_def mul64_def wrap64_small)
  moreover have "sub64 (int n) ?k = int n - ?k" using k kn assms(8) by (simp add: sub64_def wrap64_small)
  ultimately have r: "alignEnd spare R Q e d (samples g s d n) = ret (e - ?k * d, samples g s d (nat (int n - ?k)))"
    using True unfolding alignEnd_def step Let_def by (simp add: sliceTo_samples k(3) kn)
  have e: "e - ?k * d = s + (int n - ?k - 1) * d" using assms(11) by (simp add: algebra_simps)
  have "(Q - s) div d = int n - ?k - 1" using k e assms(6) by (intro div_between) auto
  with r kn e True show ?thesis by - (rule exI [of _ "nat (int n - ?k)"], simp)
next
  case False
  let ?q = "(Q - R) div d"
  have q: "0 \<le> ?q" "?q \<le> Q - R" "?q * d \<le> Q - R" "Q - R < ?q * d + d"
  proof -
    show "0 \<le> ?q" "?q \<le> Q - R" using assms(2,6) by (simp_all add: pos_imp_zdiv_nonneg_iff div_le_self)
    show "?q * d \<le> Q - R" "Q - R < ?q * d + d" using div_bounds [OF assms(6), of "Q - R"] by simp_all
  qed
  let ?k = "?q + 1 - int n"
  have "int n * d < (?q + 2) * d" using assms(9,11) False q(4) by (simp add: algebra_simps)
  then have k: "0 \<le> ?k" using assms(6) by simp
  have kd: "?k * d = s + ?q * d - e" using assms(11) by (simp add: algebra_simps)
  have dv: "div64 (sub64 Q R) d = ret ?q" using assms by (subst div64_pos) (simp_all add: sub64_def wrap64_small)
  have "sub64 (add64 ?q 1) (int n) = ?k" using q assms k by (simp add: sub64_def add64_def wrap64_small)
  moreover have "add64 e (mul64 ?k d) = e + ?k * d"
    using assms q kd by (simp add: add64_def mul64_def wrap64_small)
  moreover have "replicate (nat ?k) FNaN = samples g (s + int n * d) d (nat ?k)"
    using assms(6,11) by (intro samples_const assms(12)) (simp add: add_pos_nonneg)
  moreover have "samples g s d n @ samples g (s + int n * d) d (nat ?k) = samples g s d (n + nat ?k)"
    by (rule samples_append)
  moreover have mk: "makeNanArr ?k = ret (replicate (nat ?k) FNaN)" using k q assms by (intro makeNanArr_ok) auto
  moreover have "e + ?k * d = s + ?q * d" using kd by simp
  ultimately have "alignEnd spare R Q e d (samples g s d n) = ret (s + ?q * d, samples g s d (n + nat ?k))"
    using False unfolding alignEnd_def Let_def dv by (simp add: mk)
  moreover have "int (n + nat ?k) = ?q + 1" using k by simp
  ultimately show ?thesis using False by - (rule exI [of _ "n + nat ?k"], simp)
qed

section \<open>A series of the answer\<close>

text \<open>The storage's points lie on a grid of steps, at increasing times.\<close>

definition gridSeries :: "int \<Rightarrow> (int \<times> float64) list \<Rightarrow> bool" where
  "gridSeries d pts \<longleftrightarrow> pts \<noteq> [] \<and> smallTimes pts \<and> sorted_wrt (<) (map fst pts) \<and>
     list_all (\<lambda>p. d dvd (fst p - fst (hd pts))) pts"

text \<open>
  The answer to a request for the series \<open>pts\<close>: it begins at the first point of the series' grid in
  the request. If the series goes on after the request, it has exactly the grid points up to the
  request's end; otherwise it is padded to as many points as the request has steps, and one, the
  last of which may be later than the request's end.
\<close>

definition answerStart :: "FetchRequest \<Rightarrow> int \<Rightarrow> (int \<times> float64) list \<Rightarrow> int" where
  "answerStart req d pts = StartTime req + (fst (hd pts) - StartTime req) mod d"

definition answerCount :: "FetchRequest \<Rightarrow> int \<Rightarrow> (int \<times> float64) list \<Rightarrow> int" where
  "answerCount req d pts =
     (if fst (last pts) > StopTime req then (StopTime req - answerStart req d pts) div d
      else (StopTime req - StartTime req) div d) + 1"

definition answersSeries :: "FetchRequest \<Rightarrow> int \<Rightarrow> (int \<times> float64) list \<Rightarrow> FetchResponse \<Rightarrow> bool" where
  "answersSeries req d pts r \<longleftrightarrow>
     FetchPath r = PathExpression req \<and> StepTime r = d \<and>
     MetricStart r = answerStart req d pts \<and>
     FetchValues r = samples (valueAt pts) (answerStart req d pts) d (nat (answerCount req d pts)) \<and>
     MetricStop r = answerStart req d pts + (answerCount req d pts - 1) * d \<and>
     RequestStartTime r = StartTime req \<and> RequestStopTime r = StopTime req"

lemma answerCount_bounds:
  assumes "0 < d" "StartTime req \<le> StopTime req"
  shows "0 \<le> answerCount req d pts" "answerCount req d pts \<le> (StopTime req - StartTime req) div d + 1"
proof -
  let ?t = "answerStart req d pts"
  have t: "StartTime req \<le> ?t" "?t < StartTime req + d" using assms(1) by (simp_all add: answerStart_def)
  from t assms have "- 1 * d \<le> StopTime req - ?t" by simp
  from zdiv_mono1 [OF this assms(1)] div_between [OF assms(1), of "- 1" "- 1 * d"] assms(1)
  have "- 1 \<le> (StopTime req - ?t) div d" by simp
  moreover have "(StopTime req - ?t) div d \<le> (StopTime req - StartTime req) div d" using t assms(1) by (intro zdiv_mono1) auto
  moreover have "0 \<le> (StopTime req - StartTime req) div d" using assms by (simp add: pos_imp_zdiv_nonneg_iff)
  ultimately show "0 \<le> answerCount req d pts" "answerCount req d pts \<le> (StopTime req - StartTime req) div d + 1"
    by (simp_all add: answerCount_def)
qed

lemma sorted_hd_last: "sorted xs \<Longrightarrow> t \<in> set xs \<Longrightarrow> hd xs \<le> t \<and> t \<le> last xs" for t :: int
  by (induction xs) force+

lemma grid_ends:
  assumes "gridSeries d pts" "0 < d"
  obtains s c where "fst (hd pts) = s" "fst (last pts) = s + int c * d" "0 \<le> s" "s < 2 ^ 40" "s + int c * d < 2 ^ 40"
    "\<forall>t \<in> fst ` set pts. s \<le> t \<and> t \<le> s + int c * d \<and> d dvd (t - s)"
    "Timestamp (hd (toPairs pts)) = floatOfInt s" "Timestamp (last (toPairs pts)) = floatOfInt (s + int c * d)"
proof -
  have pts: "pts \<noteq> []" "smallTimes pts" "sorted_wrt (<) (map fst pts)" "\<And>p. p \<in> set pts \<Longrightarrow> d dvd (fst p - fst (hd pts))"
    using assms(1) by (auto simp: gridSeries_def list_all_iff)
  define s e where "s = fst (hd pts)" and "e = fst (last pts)"
  have hl: "hd pts \<in> set pts" "last pts \<in> set pts" using pts(1) by simp_all
  have so: "s \<le> t \<and> t \<le> e" if "t \<in> fst ` set pts" for t
  proof -
    have "sorted (map fst pts)" using pts(3) by (rule strict_sorted_imp_sorted)
    moreover have "t \<in> set (map fst pts)" using that by simp
    ultimately have "hd (map fst pts) \<le> t \<and> t \<le> last (map fst pts)" by (rule sorted_hd_last)
    then show ?thesis using pts(1) by (simp add: s_def e_def hd_map last_map)
  qed
  have "d dvd (e - s)" "s \<le> e" using pts(4) [of "last pts"] so hl by (auto simp: s_def e_def)
  then obtain k where k: "e - s = d * k" by (meson dvdE)
  then have "0 \<le> k" using \<open>s \<le> e\<close> assms(2) by (metis diff_ge_0_iff_ge mult_neg_pos mult.commute not_le)
  then have e: "e = s + int (nat k) * d" using k by (simp add: mult.commute)
  have "0 \<le> s" "s < 2 ^ 40" "e < 2 ^ 40" using pts(2) hl by (auto simp: smallTimes_def list_all_iff s_def e_def)
  moreover have "Timestamp (hd (toPairs pts)) = floatOfInt s" "Timestamp (last (toPairs pts)) = floatOfInt e"
    using pts(1) by (simp_all add: toPairs_def hd_map last_map s_def e_def split: prod.splits)
  ultimately show ?thesis using so pts(4) e by (intro that [of s "nat k"]) (auto simp: s_def e_def)
qed

lemma seriesValues_grid:
  assumes "gridSeries d pts" "0 < d" "whole step d" "d < 2 ^ 51"
    and "fst (hd pts) = s" "fst (last pts) = s + int c * d"
  shows "seriesValues step (toPairs pts) = ret (samples (valueAt pts) s d (c + 1))"
proof -
  obtain s' c' where e: "fst (hd pts) = s'" "fst (last pts) = s' + int c' * d" "0 \<le> s'" "s' < 2 ^ 40" "s' + int c' * d < 2 ^ 40"
    "\<forall>t \<in> fst ` set pts. s' \<le> t \<and> t \<le> s' + int c' * d \<and> d dvd (t - s')"
    "Timestamp (hd (toPairs pts)) = floatOfInt s'" "Timestamp (last (toPairs pts)) = floatOfInt (s' + int c' * d)"
    using grid_ends [OF assms(1,2)] .
  have sc: "s' = s" "c' = c" using e(1,2) assms(2,5,6) by auto
  note e = e [unfolded sc]
  have "int c * 1 \<le> int c * d" using assms(2) by (intro mult_left_mono) auto
  then have c: "int c < 2 ^ 40" using e by linarith
  have ws: "whole (floatOfInt s) s" "whole (floatOfInt (s + int c * d)) (s + int c * d)"
    using e assms(2) by (auto intro!: floatOfInt_whole)
  have cd: "0 \<le> int c * d" "int c * d < 2 ^ 40" using e assms(2) by auto
  then have "whole (subF (floatOfInt (s + int c * d)) (floatOfInt s)) (int c * d)"
    using subF_whole [OF ws(2,1)] by simp
  then have "whole (divF (subF (floatOfInt (s + int c * d)) (floatOfInt s)) step) (int c)"
    using divF_whole [of _ "int c" d step] assms(2,3) c by simp
  moreover have "whole one64 1" by (simp add: one64_def whole_def)
  ultimately have "whole (addF (divF (subF (floatOfInt (s + int c * d)) (floatOfInt s)) step) one64) (int c + 1)"
    using c by (intro addF_whole) auto
  then have n: "int64OfFloat (addF (divF (subF (floatOfInt (s + int c * d)) (floatOfInt s)) step) one64) = int c + 1"
    using c by (intro int64OfFloat_whole) auto
  have fv: "fillValues (floatOfInt s) step 0 (c + 1) (toPairs pts) = map (\<lambda>j. valueAt pts (s + int j * d)) [0..<0 + (c + 1)]"
    using assms e ws(1) by (intro fillValues_grid) (auto simp: gridSeries_def distrib_right)
  have mf: "makeFloats (int c + 1) = ret (c + 1)" using c by (simp add: makeFloats_def nat_add_distrib)
  show ?thesis unfolding seriesValues_def e(7,8) Let_def n mf andThen_ret fv by (simp only: samples_def add_0)
qed

lemma renderSeries_resampled:
  assumes "plainRequest interval req" "StatsdFlushInterval cfg = floatOfInt interval"
    and "d = stepSpec interval req" "gridSeries d pts" "StartTime req \<le> fst (last pts) + d"
    and "Values m = toPairs pts" "ConvertPrometheusMetric name (Metric m) \<noteq> []"
  shows "\<exists>r. renderSeries E (queryStep cfg req) name req m ms = (Inr (), ms @ [r]) \<and> answersSeries req d pts r \<and>
    FetchName r = ConvertPrometheusMetric name (Metric m)"
proof -
  let ?R = "StartTime req" and ?Q = "StopTime req" and ?g = "valueAt pts"
  have req: "0 \<le> ?R" "?R \<le> ?Q" "?Q < 2 ^ 40" "0 < interval" using assms(1) by (auto simp: plainRequest_def)
  have w: "whole (queryStep cfg req) d" "0 < d" "d < 2 ^ 51"
    using queryStep_whole [OF assms(1,2)] req(4) by (auto simp: assms(3) stepSpec_def less_max_iff_disj)
  then have d: "int64OfFloat (queryStep cfg req) = d" by (intro int64OfFloat_whole) auto
  obtain s c where e: "fst (hd pts) = s" "fst (last pts) = s + int c * d" "0 \<le> s" "s < 2 ^ 40" "s + int c * d < 2 ^ 40"
    "\<forall>t \<in> fst ` set pts. s \<le> t \<and> t \<le> s + int c * d \<and> d dvd (t - s)"
    "Timestamp (hd (toPairs pts)) = floatOfInt s" "Timestamp (last (toPairs pts)) = floatOfInt (s + int c * d)"
    using grid_ends [OF assms(4) w(2)] .
  have "int c * 1 \<le> int c * d" using w by (intro mult_left_mono) auto
  then have c: "int c < 2 ^ 40" using e by linarith
  have times: "int64OfFloat (floatOfInt s) = s" "int64OfFloat (floatOfInt (s + int c * d)) = s + int c * d"
    using e w by (auto intro!: int64OfFloat_whole floatOfInt_whole)
  have "fst ` set pts \<subseteq> {s..s + int c * d}" using e(6) by auto
  then have g: "t < s \<Longrightarrow> ?g t = FNaN" "s + int c * d < t \<Longrightarrow> ?g t = FNaN" for t
    by (auto intro!: valueAt_none)
  let ?s' = "?R + (s - ?R) mod d"
  obtain n' where a: "(alignStart ?R s d (samples ?g s d (c + 1)) :: (FetchResponse list, int \<times> float64 list) comp) = ret (?s', samples ?g ?s' d n')"
    "?s' + int n' * d = s + int (c + 1) * d"
    using alignStart_samples [where R = ?R and s = s and d = d and n = "c + 1" and g = ?g] req e w g assms(5)
    by (auto simp: distrib_right)
  have s': "?R \<le> ?s'" "?s' < ?R + d" using w(2) by simp_all
  have n': "n' < 2 ^ 42"
  proof -
    have "int n' * d \<le> (2 ^ 40 + 1) * d"
    proof -
      have "int n' * d \<le> s + int (c + 1) * d" using a(2) s'(1) req(1) by linarith
      then have "int n' * d \<le> 2 ^ 40 + d" using e(5) by (simp add: distrib_right)
      moreover have "2 ^ 40 * 1 \<le> 2 ^ 40 * d" using w(2) by (intro mult_left_mono) auto
      ultimately show ?thesis unfolding distrib_right by linarith
    qed
    then have "int n' \<le> 2 ^ 40 + 1" using w(2) by (simp only: mult_le_cancel_right_pos)
    then show ?thesis by simp
  qed
  obtain n'' where b: "(alignEnd (spareFloats E) ?R ?Q (s + int c * d) d (samples ?g ?s' d n') :: (FetchResponse list, int \<times> float64 list) comp) =
      ret (?s' + (int n'' - 1) * d, samples ?g ?s' d n'')"
    "int n'' = (if s + int c * d > ?Q then (?Q - ?s') div d else (?Q - ?R) div d) + 1"
    using alignEnd_samples [where R = ?R and Q = ?Q and e = "s + int c * d" and d = d and n = n' and s = ?s' and g = ?g and spare = "spareFloats E"]
      req e w a s' n' g by (auto simp: distrib_right)
  have st: "answerStart req d pts = ?s'" "answerCount req d pts = int n''"
    by (simp_all add: answerStart_def answerCount_def e(1,2) b(2))
  have "toPairs pts \<noteq> []" using assms(4) by (simp add: gridSeries_def toPairs_def)
  then have r: "renderSeries E (queryStep cfg req) name req m ms = (Inr (), ms @ [\<lparr>FetchName = ConvertPrometheusMetric name (Metric m),
      FetchPath = PathExpression req, ConsolidationFunc = ''avg'', MetricStart = ?s', MetricStop = ?s' + (int n'' - 1) * d, StepTime = d,
      FetchValues = samples ?g ?s' d n'', RequestStartTime = ?R, RequestStopTime = ?Q\<rparr>])"
    unfolding renderSeries_def assms(6) seriesValues_grid [OF assms(4) w(2,1,3) e(1,2)] e(7,8) d times
    using assms(7) a(1) b(1) by (simp add: modifyS_def Let_def)
  show ?thesis by (rule exI, rule conjI, rule r) (simp add: answersSeries_def st)
qed


text \<open>A storage that answers every request with the same labels and the same series.\<close>

definition sampleEnv :: carbonEnv where
  "sampleEnv = \<lparr>httpGet = (\<lambda>i url params. Reply ''body'' None),
     decodeValues = (\<lambda>body. Inr \<lparr>ValuesStatus = ''success'', ValuesOf = [''b'', ''c'']\<rparr>),
     decodeMatrix = (\<lambda>body. Inr [([(''__name__'', ''a''), (''__a_g1__'', ''b'')], [pairText 90 ''1'', pairText 110 ''2''])]),
     reMatch = (\<lambda>re s. False), spareFloats = (\<lambda>vs. [])\<rparr>"

definition sampleConfig :: Config where
  "sampleConfig = \<lparr>Listen = '':8482'', StatsdFlushInterval = floatOfInt 10, PrometheusURL = ''http://vm'',
     PrometheusMaxBody = 1000, Rollups = [], DefaultRollupFunc = ''avg_over_time''\<rparr>"

definition sampleRequest :: FetchRequest where
  "sampleRequest = \<lparr>PathExpression = ''a.b'', StartTime = 100, StopTime = 160, MaxDataPoints = 100\<rparr>"

definition samplePoints :: "(int \<times> float64) list" where
  "samplePoints = [(90, one64), (110, zero64), (130, one64)]"

lemma sampleRequest_plain: "plainRequest 10 sampleRequest" "stepSpec 10 sampleRequest = 10"
  by (simp_all add: plainRequest_def sampleRequest_def stepSpec_def pointLimit_def ceilDiv_def)

lemma samplePoints_grid: "gridSeries 10 samplePoints"
  by (simp add: gridSeries_def samplePoints_def smallTimes_def)


section \<open>The step\<close>

lemma stepSpec_bounds:
  assumes "plainRequest interval req"
  shows "interval dvd stepSpec interval req" "interval \<le> stepSpec interval req"
    "StopTime req - StartTime req \<le> stepSpec interval req * pointLimit req"
    "stepSpec interval req = interval \<or> (stepSpec interval req - interval) * pointLimit req < StopTime req - StartTime req"
proof -
  let ?t = "StopTime req - StartTime req" and ?m = "pointLimit req"
  let ?c = "ceilDiv ?t (?m * interval)"
  have r: "0 < interval" "0 < ?m" "0 \<le> ?t" using assms by (auto simp: plainRequest_def pointLimit_def)
  have mi: "0 < ?m * interval" using r by simp
  note b = ceilDiv_bounds [OF mi, of ?t]
  show "interval dvd stepSpec interval req" "interval \<le> stepSpec interval req" by (simp_all add: stepSpec_def max_def)
  have "?t \<le> ?c * interval * ?m" using b by (simp add: ac_simps)
  also have "\<dots> \<le> stepSpec interval req * ?m" using r(2) by (intro mult_right_mono) (auto simp: stepSpec_def)
  finally show "?t \<le> stepSpec interval req * ?m" .
  show "stepSpec interval req = interval \<or> (stepSpec interval req - interval) * ?m < ?t"
    using b by (auto simp: stepSpec_def max_def algebra_simps)
qed

lemma stepSpec_least:
  assumes "plainRequest interval req" "interval dvd d" "interval \<le> d" "StopTime req - StartTime req \<le> d * pointLimit req"
  shows "stepSpec interval req \<le> d"
proof (rule ccontr)
  assume l: "\<not> stepSpec interval req \<le> d"
  have r: "0 < interval" "0 < pointLimit req" using assms(1) by (auto simp: plainRequest_def pointLimit_def)
  have "interval dvd stepSpec interval req - d" using assms(2) stepSpec_bounds(1) [OF assms(1)] by simp
  then have "interval \<le> stepSpec interval req - d" using l by (intro zdvd_imp_le) auto
  then have "d * pointLimit req \<le> (stepSpec interval req - interval) * pointLimit req" using r by (intro mult_right_mono) auto
  with stepSpec_bounds(4) [OF assms(1)] assms(3,4) l show False by auto
qed

lemma int_queryStep:
  assumes "plainRequest interval req" "StatsdFlushInterval cfg = floatOfInt interval"
  shows "int64OfFloat (queryStep cfg req) = stepSpec interval req" "0 < stepSpec interval req"
proof -
  have "whole (queryStep cfg req) (stepSpec interval req)" "stepSpec interval req < 2 ^ 51"
    using queryStep_whole [OF assms] by auto
  moreover show "0 < stepSpec interval req" using assms(1) by (simp add: stepSpec_def plainRequest_def less_max_iff_disj)
  ultimately show "int64OfFloat (queryStep cfg req) = stepSpec interval req" by (intro int64OfFloat_whole) auto
qed

lemma points_limit:
  assumes "plainRequest interval req"
  shows "(StopTime req - StartTime req) div stepSpec interval req \<le> pointLimit req"
proof -
  have "0 < stepSpec interval req" using assms by (simp add: stepSpec_def plainRequest_def less_max_iff_disj)
  from zdiv_mono1 [OF stepSpec_bounds(3) [OF assms] this] this show ?thesis by simp
qed

text \<open>C26: for a request with whole times and a whole flush interval, the step that \<open>Render\<close> computes in
  floating point is the least positive multiple of the flush interval with which the range of the request has no more
  steps than points were asked for (1024 when the request does not say). The range, both ends included, then has at most one
  point more than asked for; the witness is a request that gets this additional point.\<close>

theorem queryStep_least:
  assumes "plainRequest interval req" "StatsdFlushInterval cfg = floatOfInt interval"
  shows "\<exists>d. int64OfFloat (queryStep cfg req) = d \<and> interval dvd d \<and> interval \<le> d \<and>
    StopTime req - StartTime req \<le> d * pointLimit req \<and>
    (\<forall>d'. interval dvd d' \<and> interval \<le> d' \<and> StopTime req - StartTime req \<le> d' * pointLimit req \<longrightarrow> d \<le> d') \<and>
    (StopTime req - StartTime req) div d + 1 \<le> pointLimit req + 1"
  using int_queryStep(1) [OF assms] stepSpec_bounds [OF assms(1)] stepSpec_least [OF assms(1)] points_limit [OF assms(1)]
  by (intro exI [of _ "stepSpec interval req"]) auto

definition longRequest :: FetchRequest where
  "longRequest = \<lparr>PathExpression = ''a.b'', StartTime = 0, StopTime = 1000, MaxDataPoints = 100\<rparr>"

theorem queryStep_least_witness:
  "\<exists>d. int64OfFloat (queryStep sampleConfig longRequest) = d \<and> 10 dvd d \<and> (1000 - 0) div d + 1 = (101 :: int)"
proof -
  have p: "plainRequest 10 longRequest" "StatsdFlushInterval sampleConfig = floatOfInt 10"
    by (simp_all add: plainRequest_def longRequest_def sampleConfig_def)
  obtain d where d: "int64OfFloat (queryStep sampleConfig longRequest) = d" "10 dvd d" "10 \<le> d" "1000 \<le> d * 100"
    "\<forall>d'. 10 dvd d' \<and> 10 \<le> d' \<and> 1000 \<le> d' * 100 \<longrightarrow> d \<le> d'"
    using queryStep_least [OF p] by (auto simp: longRequest_def pointLimit_def)
  from d(3) d(5) [THEN spec, of 10] have "d = 10" by simp
  with d(1,2) show ?thesis by auto
qed

section \<open>Panics\<close>

lemma nan_ops [simp]: "divF x FNaN = FNaN" "addF FNaN y = FNaN" "mulF FNaN y = FNaN" "ceilF FNaN = FNaN" "int64OfFloat FNaN = - (2 ^ 63)"
  by (cases x; cases y; simp add: int64OfFloat_def)+

text \<open>Without a flush interval the step is not a number.\<close>

lemma queryStep_unset:
  assumes "StatsdFlushInterval cfg = zero64" shows "queryStep cfg req = FNaN"
proof -
  have "divF x zero64 = FNaN \<or> (\<exists>b. divF x zero64 = FInf b)" for x by (cases x) (auto simp: zero64_def)
  moreover have "mulF (ceilF (FInf b)) zero64 = FNaN" for b by (simp add: zero64_def)
  ultimately have m: "mulF (ceilF (divF x zero64)) zero64 = FNaN" for x by (metis nan_ops(3,4))
  have "maxF FNaN zero64 = FNaN" by (simp add: maxF_def zero64_def isNaN_def)
  then show ?thesis unfolding queryStep_def assms Let_def m .
qed

text \<open>C27: when no flush interval is configured, or the step comes out below one second, every series of the answer
  that has points and a name panics, and nothing is appended: making the slice of values fails if the number of points is
  out of range, as it always is for a step that is not a number; otherwise a series that begins before the request
  fails with a slice bound out of range, and any other with a division by zero. A goroutine's panic is not recovered, so the server ends.\<close>

theorem renderSeries_subsecond:
  assumes "StatsdFlushInterval cfg = zero64 \<or> int64OfFloat (queryStep cfg req) = 0"
    and "Values m \<noteq> []" "ConvertPrometheusMetric name (Metric m) \<noteq> []"
    and "n = int64OfFloat (addF (divF (subF (Timestamp (last (Values m))) (Timestamp (hd (Values m)))) (queryStep cfg req)) one64)"
  shows "renderSeries E (queryStep cfg req) name req m ms =
    (Inl (Panicf (if n < 0 \<or> n > 2 ^ 45 then ''makeslice: len out of range''
       else if int64OfFloat (Timestamp (hd (Values m))) < StartTime req then ''slice bounds out of range''
       else ''integer divide by zero'')), ms) \<and>
    (StatsdFlushInterval cfg = zero64 \<longrightarrow> n < 0)"
proof -
  have z: "int64OfFloat (ceilF (divF x (floatOfInt 0))) = - (2 ^ 63)" for x
    by (cases x) (auto simp: floatOfInt_def roundQ_def int64OfFloat_def)
  have a: "alignStart R s 0 vs ms = (Inl (Panicf (if s < R then ''slice bounds out of range'' else ''integer divide by zero'')), ms)"
    for R s vs and ms :: "FetchResponse list"
    by (auto simp: alignStart_def sliceFrom_def div64_def fail_def andThen_def z Let_def)
  have u: "StatsdFlushInterval cfg = zero64 \<Longrightarrow> n < 0" using queryStep_unset [of cfg req] by (simp add: assms(4))
  have "renderSeries E (queryStep cfg req) name req m ms =
    (Inl (Panicf (if n < 0 \<or> n > 2 ^ 45 then ''makeslice: len out of range''
       else if int64OfFloat (Timestamp (hd (Values m))) < StartTime req then ''slice bounds out of range''
       else ''integer divide by zero'')), ms)"
  proof (cases "n < 0 \<or> n > 2 ^ 45")
    case True
    then show ?thesis using assms(2,3)
      by (simp add: renderSeries_def seriesValues_def makeFloats_def fail_def andThen_def Let_def flip: assms(4))
  next
    case False
    with u assms(1) have "int64OfFloat (queryStep cfg req) = 0" by auto
    with False assms(2,3) show ?thesis
      by (simp add: renderSeries_def seriesValues_def makeFloats_def andThen_def ret_def a Let_def flip: assms(4))
  qed
  with u show ?thesis by blast
qed

definition fineRequest :: FetchRequest where
  "fineRequest = sampleRequest\<lparr>MaxDataPoints := 1000\<rparr>"

theorem renderSeries_subsecond_witness:
  "renderSeries sampleEnv (queryStep (sampleConfig\<lparr>StatsdFlushInterval := roundQ False 1 2\<rparr>) fineRequest) ''a'' fineRequest
      \<lparr>Metric = [], Values = toPairs (drop 1 samplePoints)\<rparr> [] = (Inl (Panicf ''integer divide by zero''), []) \<and>
   renderSeries sampleEnv (queryStep (sampleConfig\<lparr>StatsdFlushInterval := zero64\<rparr>) sampleRequest) ''a'' sampleRequest
      \<lparr>Metric = [], Values = toPairs samplePoints\<rparr> [] = (Inl (Panicf ''makeslice: len out of range''), [])"
proof -
  let ?c = "sampleConfig\<lparr>StatsdFlushInterval := roundQ False 1 2\<rparr>" and ?p = "toPairs (drop 1 samplePoints)"
  have c: "ConvertPrometheusMetric ''a'' [] = ''a''" by code_simp
  have q: "int64OfFloat (queryStep ?c fineRequest) = 0" by code_simp
  have n: "int64OfFloat (addF (divF (subF (Timestamp (last ?p)) (Timestamp (hd ?p))) (queryStep ?c fineRequest)) one64) = 41"
    "int64OfFloat (Timestamp (hd ?p)) = 110" by code_simp+
  have ne: "?p \<noteq> []" "toPairs samplePoints \<noteq> []" by (simp_all add: toPairs_def samplePoints_def)
  show ?thesis
  proof
    show "renderSeries sampleEnv (queryStep ?c fineRequest) ''a'' fineRequest \<lparr>Metric = [], Values = ?p\<rparr> [] =
        (Inl (Panicf ''integer divide by zero''), [])"
      using renderSeries_subsecond [OF disjI2 [OF q], of "\<lparr>Metric = [], Values = ?p\<rparr>" "''a''" 41 sampleEnv "[]"] n ne(1) c
      by (simp add: fineRequest_def sampleRequest_def)
    show "renderSeries sampleEnv (queryStep (sampleConfig\<lparr>StatsdFlushInterval := zero64\<rparr>) sampleRequest) ''a'' sampleRequest
        \<lparr>Metric = [], Values = toPairs samplePoints\<rparr> [] = (Inl (Panicf ''makeslice: len out of range''), [])"
      using renderSeries_subsecond [of "sampleConfig\<lparr>StatsdFlushInterval := zero64\<rparr>" sampleRequest
          "\<lparr>Metric = [], Values = toPairs samplePoints\<rparr>" "''a''" _ sampleEnv "[]", OF _ _ _ refl] ne(2) c by simp
  qed
qed

end
