(* ===== verification/FanOut.thy ===== *)
theory FanOut
  imports Prelude "HOL-Library.Multiset"
begin

text \<open>
  The shape \<open>Find\<close> and \<open>Render\<close> of \<open>src/cmd/matecarbon/main.go\<close> share: one goroutine per request, a
  \<open>WaitGroup\<close>, and a mutex around the appends to the answer. \<open>work i x\<close> is what the goroutine of
  request number \<open>i\<close> does on its own: the metrics it appends, in order, and whether it panics at
  the end. The steps of the goroutines interleave in any order.
\<close>

section \<open>States and steps\<close>

text \<open>
  A goroutine before its request, with metrics left to append, holding the lock (before it reads the
  shared slice, with the slice it read, and after it has written it back longer), and at its end:
  \<open>Dying\<close> has run its deferred calls and brings down the process. \<open>x = append(x, r)\<close> is a read and a
  write, with steps of other goroutines between them: without the lock an append would be lost.
\<close>

datatype ('a, 'b) goroutine =
    Started 'a
  | Pending "'b list" bool
  | Locked 'b "'b list" bool
  | Copied "'b list" 'b "'b list" bool
  | Appended "'b list" bool
  | Dying
  | Finished

record ('a, 'b) fanState =
  todo :: "'a list"
  workers :: "('a, 'b) goroutine list"
  counter :: int
  locked :: bool
  shared :: "'b list"
  returned :: "'b list option"
  crashed :: bool

definition fanInit :: "'a list \<Rightarrow> ('a, 'b) fanState" where
  "fanInit reqs = \<lparr>todo = reqs, workers = [], counter = 0, locked = False, shared = [], returned = None, crashed = False\<rparr>"

inductive fanStep :: "(nat \<Rightarrow> 'a \<Rightarrow> 'b list \<times> bool) \<Rightarrow> ('a, 'b) fanState \<Rightarrow> ('a, 'b) fanState \<Rightarrow> bool"
  for work where
  spawn: "\<not> crashed s \<Longrightarrow> todo s = x # xs \<Longrightarrow>
    fanStep work s (s\<lparr>todo := xs, workers := workers s @ [Started x], counter := counter s + 1\<rparr>)"
| compute: "\<not> crashed s \<Longrightarrow> i < length (workers s) \<Longrightarrow> workers s ! i = Started x \<Longrightarrow> work i x = (rs, p) \<Longrightarrow>
    fanStep work s (s\<lparr>workers := (workers s)[i := Pending rs p]\<rparr>)"
| lock: "\<not> crashed s \<Longrightarrow> i < length (workers s) \<Longrightarrow> workers s ! i = Pending (r # rs) p \<Longrightarrow> \<not> locked s \<Longrightarrow>
    fanStep work s (s\<lparr>workers := (workers s)[i := Locked r rs p], locked := True\<rparr>)"
| copy: "\<not> crashed s \<Longrightarrow> i < length (workers s) \<Longrightarrow> workers s ! i = Locked r rs p \<Longrightarrow>
    fanStep work s (s\<lparr>workers := (workers s)[i := Copied (shared s) r rs p]\<rparr>)"
| append: "\<not> crashed s \<Longrightarrow> i < length (workers s) \<Longrightarrow> workers s ! i = Copied sh r rs p \<Longrightarrow>
    fanStep work s (s\<lparr>workers := (workers s)[i := Appended rs p], shared := sh @ [r]\<rparr>)"
| unlock: "\<not> crashed s \<Longrightarrow> i < length (workers s) \<Longrightarrow> workers s ! i = Appended rs p \<Longrightarrow>
    fanStep work s (s\<lparr>workers := (workers s)[i := Pending rs p], locked := False\<rparr>)"
| finish: "\<not> crashed s \<Longrightarrow> i < length (workers s) \<Longrightarrow> workers s ! i = Pending [] p \<Longrightarrow>
    fanStep work s (s\<lparr>workers := (workers s)[i := if p then Dying else Finished], counter := counter s - 1\<rparr>)"
| crash: "\<not> crashed s \<Longrightarrow> i < length (workers s) \<Longrightarrow> workers s ! i = Dying \<Longrightarrow>
    fanStep work s (s\<lparr>crashed := True\<rparr>)"
| wait: "\<not> crashed s \<Longrightarrow> todo s = [] \<Longrightarrow> counter s = 0 \<Longrightarrow> returned s = None \<Longrightarrow>
    fanStep work s (s\<lparr>returned := Some (shared s)\<rparr>)"

inductive fanReach :: "(nat \<Rightarrow> 'a \<Rightarrow> 'b list \<times> bool) \<Rightarrow> 'a list \<Rightarrow> nat \<Rightarrow> ('a, 'b) fanState \<Rightarrow> bool"
  for work reqs where
  init: "fanReach work reqs 0 (fanInit reqs)"
| step: "fanReach work reqs n s \<Longrightarrow> fanStep work s s' \<Longrightarrow> fanReach work reqs (Suc n) s'"

section \<open>The invariant\<close>

text \<open>What a goroutine has still to append, whether it counts for the wait group, and whether it holds the lock.\<close>

fun remaining :: "(nat \<Rightarrow> 'a \<Rightarrow> 'b list \<times> bool) \<Rightarrow> nat \<Rightarrow> ('a, 'b) goroutine \<Rightarrow> 'b multiset" where
  "remaining work i (Started x) = mset (fst (work i x))"
| "remaining work i (Pending rs p) = mset rs"
| "remaining work i (Locked r rs p) = add_mset r (mset rs)"
| "remaining work i (Copied sh r rs p) = add_mset r (mset rs)"
| "remaining work i (Appended rs p) = mset rs"
| "remaining work i _ = {#}"

fun active :: "('a, 'b) goroutine \<Rightarrow> bool" where
  "active Dying \<longleftrightarrow> False" | "active Finished \<longleftrightarrow> False" | "active _ \<longleftrightarrow> True"

fun holding :: "('a, 'b) goroutine \<Rightarrow> bool" where
  "holding (Locked r rs p) \<longleftrightarrow> True" | "holding (Copied sh r rs p) \<longleftrightarrow> True" | "holding (Appended rs p) \<longleftrightarrow> True" | "holding _ \<longleftrightarrow> False"

text \<open>What was read is still what is there.\<close>

fun fresh :: "'b list \<Rightarrow> ('a, 'b) goroutine \<Rightarrow> bool" where
  "fresh sh (Copied sh' r rs p) \<longleftrightarrow> sh' = sh" | "fresh sh _ \<longleftrightarrow> True"

definition outputs :: "(nat \<Rightarrow> 'a \<Rightarrow> 'b list \<times> bool) \<Rightarrow> 'a list \<Rightarrow> nat \<Rightarrow> 'b multiset" where
  "outputs work reqs n = (\<Sum>i<n. mset (fst (work i (reqs ! i))))"

definition fanInv :: "(nat \<Rightarrow> 'a \<Rightarrow> 'b list \<times> bool) \<Rightarrow> 'a list \<Rightarrow> ('a, 'b) fanState \<Rightarrow> bool" where
  "fanInv work reqs s \<longleftrightarrow>
     todo s = drop (length (workers s)) reqs \<and> length (workers s) \<le> length reqs \<and>
     counter s = int (card {i. i < length (workers s) \<and> active (workers s ! i)}) \<and>
     card {i. i < length (workers s) \<and> holding (workers s ! i)} = (if locked s then 1 else 0) \<and>
     (\<forall>i < length (workers s). fresh (shared s) (workers s ! i)) \<and>
     mset (shared s) + (\<Sum>i<length (workers s). remaining work i (workers s ! i)) = outputs work reqs (length (workers s)) \<and>
     (\<forall>ms. returned s = Some ms \<longrightarrow> ms = shared s \<and> length (workers s) = length reqs \<and> counter s = 0)"

lemma fanInv_fresh: "fanInv work reqs s \<Longrightarrow> i < length (workers s) \<Longrightarrow> fresh (shared s) (workers s ! i)"
  by (simp add: fanInv_def)

lemma card_update:
  assumes "i < length ws"
  shows "int (card {j. j < length ws \<and> P (ws[i := w] ! j)}) =
    int (card {j. j < length ws \<and> P (ws ! j)}) + (if P w then 1 else 0) - (if P (ws ! i) then 1 else 0)"
proof -
  let ?A = "{j. j < length ws \<and> P (ws ! j)}"
  have "{j. j < length ws \<and> P (ws[i := w] ! j)} = (if P w then insert i (?A - {i}) else ?A - {i})"
    using assms by (auto simp: nth_list_update)
  moreover have f: "finite (?A - {i})" by simp
  moreover have "int (card ?A) = int (card (?A - {i})) + (if P (ws ! i) then 1 else 0)"
  proof (cases "P (ws ! i)")
    case True
    with assms have "?A = insert i (?A - {i})" by auto
    with f have "card ?A = Suc (card (?A - {i}))" by (metis card_insert_disjoint Diff_iff insertI1)
    with True show ?thesis by simp
  next
    case False
    then have "?A - {i} = ?A" by auto
    with False show ?thesis by simp
  qed
  moreover have "card (insert i (?A - {i})) = Suc (card (?A - {i}))" using f by (intro card_insert_disjoint) auto
  ultimately show ?thesis by simp
qed

lemma sum_update:
  fixes f :: "nat \<Rightarrow> 'w \<Rightarrow> 'm::cancel_comm_monoid_add"
  assumes "i < length ws"
  shows "(\<Sum>j<length ws. f j (ws[i := w] ! j)) + f i (ws ! i) = (\<Sum>j<length ws. f j (ws ! j)) + f i w"
proof -
  have s: "(\<Sum>j<length ws. f j (us ! j)) = f i (us ! i) + (\<Sum>j\<in>{..<length ws} - {i}. f j (us ! j))" for us
    using assms by (subst sum.remove [of _ i]) auto
  have "(\<Sum>j\<in>{..<length ws} - {i}. f j (ws[i := w] ! j)) = (\<Sum>j\<in>{..<length ws} - {i}. f j (ws ! j))"
    by (intro sum.cong) auto
  then show ?thesis using assms unfolding s [of "ws[i := w]"] s [of ws] by (simp add: ac_simps)
qed

lemma fanInv_update:
  assumes "fanInv work reqs s" "i < length (workers s)" "active (workers s ! i)"
    and "c = counter s + (if active w then 1 else 0) - 1"
    and "(if l then 1 else 0) = (if locked s then 1 else 0) + (if holding w then 1 else 0) - (if holding (workers s ! i) then 1 else (0::int))"
    and "mset sh + remaining work i w = mset (shared s) + remaining work i (workers s ! i)"
    and "fresh sh w" "sh = shared s \<or> holding (workers s ! i)"
  shows "fanInv work reqs (s\<lparr>workers := (workers s)[i := w], counter := c, locked := l, shared := sh\<rparr>)"
proof -
  let ?ws = "workers s" and ?ws' = "(workers s)[i := w]"
  note inv = assms(1) [unfolded fanInv_def]
  have f: "fresh sh (?ws' ! j)" if "j < length ?ws" for j
  proof (cases "j = i \<or> sh = shared s \<or> \<not> holding (?ws ! j)")
    case True
    with assms(2,7) inv that show ?thesis by (cases "?ws ! j") (auto simp: nth_list_update)
  next
    case False
    with assms(8) have "{j, i} \<subseteq> {i. i < length ?ws \<and> holding (?ws ! i)}" using assms(2) that by auto
    then have "card {j, i} \<le> card {i. i < length ?ws \<and> holding (?ws ! i)}" by (intro card_mono) auto
    with False inv show ?thesis by (simp split: if_splits)
  qed
  have "i \<in> {i. i < length ?ws \<and> active (?ws ! i)}" using assms(2,3) by simp
  then have "card {i. i < length ?ws \<and> active (?ws ! i)} \<noteq> 0" by (subst card_0_eq) auto
  with inv have ret: "returned s = None" by (cases "returned s") auto
  have c: "c = int (card {j. j < length ?ws \<and> active (?ws' ! j)})"
    unfolding card_update [OF assms(2)] using inv assms(3,4) by simp
  have "int (card {j. j < length ?ws \<and> holding (?ws' ! j)}) = (if l then 1 else 0)"
    unfolding card_update [OF assms(2)] using inv assms(5) by (simp split: if_splits)
  then have h: "card {j. j < length ?ws \<and> holding (?ws' ! j)} = (if l then 1 else 0)" by (simp split: if_splits)
  have "(\<Sum>j<length ?ws. remaining work j (?ws' ! j)) + remaining work i (?ws ! i) + mset sh =
      (\<Sum>j<length ?ws. remaining work j (?ws ! j)) + (mset sh + remaining work i w)"
    unfolding sum_update [OF assms(2)] by (simp add: ac_simps)
  also have "\<dots> = (mset (shared s) + (\<Sum>j<length ?ws. remaining work j (?ws ! j))) + remaining work i (?ws ! i)"
    unfolding assms(6) by (simp add: ac_simps)
  finally have "mset sh + (\<Sum>j<length ?ws. remaining work j (?ws' ! j)) = outputs work reqs (length ?ws)"
    using inv by (simp add: ac_simps)
  with c h f inv ret show ?thesis by (simp add: fanInv_def)
qed

lemma fanInv_init: "fanInv work reqs (fanInit reqs)"
  by (simp add: fanInv_def fanInit_def outputs_def)

lemma fanInv_spawn:
  assumes "fanInv work reqs s" "todo s = x # xs"
  shows "fanInv work reqs (s\<lparr>todo := xs, workers := workers s @ [Started x], counter := counter s + 1\<rparr>)"
proof -
  let ?ws = "workers s" and ?n = "length (workers s)"
  note inv = assms(1) [unfolded fanInv_def]
  have d: "drop ?n reqs = x # xs" using inv assms(2) by simp
  then have n: "?n < length reqs" "reqs ! ?n = x" "drop (Suc ?n) reqs = xs"
    by (metis drop_all list.distinct(1) not_le, metis hd_drop_conv_nth list.sel(1) drop_all list.distinct(1) not_le,
        metis drop_Suc list.sel(3) tl_drop)
  have ret: "returned s = None" using inv n by (cases "returned s") auto
  have "{i. i < Suc ?n \<and> active ((?ws @ [Started x]) ! i)} = insert ?n {i. i < ?n \<and> active (?ws ! i)}"
    by (auto simp: nth_append less_Suc_eq)
  then have c: "card {i. i < Suc ?n \<and> active ((?ws @ [Started x]) ! i)} = Suc (card {i. i < ?n \<and> active (?ws ! i)})" by simp
  have "{i. i < Suc ?n \<and> holding ((?ws @ [Started x]) ! i)} = {i. i < ?n \<and> holding (?ws ! i)}"
    by (auto simp: nth_append less_Suc_eq)
  moreover have "(\<Sum>i<?n. remaining work i ((?ws @ [Started x]) ! i)) = (\<Sum>i<?n. remaining work i (?ws ! i))"
    by (intro sum.cong) (auto simp: nth_append)
  moreover have "\<forall>i < Suc ?n. fresh (shared s) ((?ws @ [Started x]) ! i)" using inv by (auto simp: nth_append less_Suc_eq)
  ultimately show ?thesis using inv n ret c by (simp add: fanInv_def outputs_def ac_simps)
qed

lemma fanInv_step: "fanStep work s s' \<Longrightarrow> fanInv work reqs s \<Longrightarrow> fanInv work reqs s'"
proof (induction rule: fanStep.induct)
  case (spawn s x xs)
  then show ?case by (simp add: fanInv_spawn)
next
  case (compute s i x rs p)
  then show ?case
    using fanInv_update [where w = "Pending rs p" and c = "counter s" and l = "locked s" and sh = "shared s" and i = i and s = s] by simp
next
  case (lock s i r rs p)
  then show ?case
    using fanInv_update [where w = "Locked r rs p" and c = "counter s" and l = True and sh = "shared s" and i = i and s = s] by simp
next
  case (copy s i r rs p)
  then show ?case
    using fanInv_update [where w = "Copied (shared s) r rs p" and c = "counter s" and l = "locked s" and sh = "shared s" and i = i and s = s] by simp
next
  case (append s i sh r rs p)
  have "fresh (shared s) (workers s ! i)" by (rule fanInv_fresh [OF append.prems append.hyps(2)])
  with append.hyps(3) have "sh = shared s" by simp
  with append show ?case
    using fanInv_update [where w = "Appended rs p" and c = "counter s" and l = "locked s" and sh = "shared s @ [r]" and i = i and s = s] by simp
next
  case (unlock s i rs p)
  have "locked s"
  proof (rule ccontr)
    assume "\<not> locked s"
    then have "card {i. i < length (workers s) \<and> holding (workers s ! i)} = 0" using unlock by (simp add: fanInv_def)
    then show False using unlock by (subst (asm) card_0_eq) auto
  qed
  with unlock show ?case
    using fanInv_update [where w = "Pending rs p" and c = "counter s" and l = False and sh = "shared s" and i = i and s = s] by simp
next
  case (finish s i p)
  then show ?case
    using fanInv_update [where w = "if p then Dying else Finished" and c = "counter s - 1" and l = "locked s" and sh = "shared s" and i = i and s = s]
    by simp
next
  case (crash s i)
  then show ?case by (auto simp: fanInv_def)
next
  case (wait s)
  then show ?case by (auto simp: fanInv_def)
qed

lemma fanReach_inv: "fanReach work reqs n s \<Longrightarrow> fanInv work reqs s"
  by (induction rule: fanReach.induct) (auto intro: fanInv_init fanInv_step)

section \<open>Every run ends, and ends with the answer\<close>

fun weight :: "(nat \<Rightarrow> 'a \<Rightarrow> 'b list \<times> bool) \<Rightarrow> nat \<Rightarrow> ('a, 'b) goroutine \<Rightarrow> nat" where
  "weight work i (Started x) = 4 * length (fst (work i x)) + 3"
| "weight work i (Pending rs p) = 4 * length rs + 2"
| "weight work i (Locked r rs p) = 4 * length rs + 5"
| "weight work i (Copied sh r rs p) = 4 * length rs + 4"
| "weight work i (Appended rs p) = 4 * length rs + 3"
| "weight work i Dying = 1"
| "weight work i Finished = 0"

text \<open>A bound on the number of steps: each request costs its spawn, and its goroutine at most \<open>weight\<close>.\<close>

definition fanBound :: "(nat \<Rightarrow> 'a \<Rightarrow> 'b list \<times> bool) \<Rightarrow> 'a list \<Rightarrow> nat" where
  "fanBound work reqs = (\<Sum>i<length reqs. 4 * length (fst (work i (reqs ! i))) + 4) + 2"

definition fuelLeft :: "(nat \<Rightarrow> 'a \<Rightarrow> 'b list \<times> bool) \<Rightarrow> 'a list \<Rightarrow> ('a, 'b) fanState \<Rightarrow> nat" where
  "fuelLeft work reqs s =
     (\<Sum>i\<in>{length (workers s)..<length reqs}. 4 * length (fst (work i (reqs ! i))) + 4) +
     (\<Sum>i<length (workers s). weight work i (workers s ! i)) +
     (if returned s = None then 1 else 0) + (if crashed s then 0 else 1)"

lemma fuelLeft_init: "fuelLeft work reqs (fanInit reqs) = fanBound work reqs"
  by (simp add: fuelLeft_def fanBound_def fanInit_def atLeast0LessThan)

lemma fuelLeft_update:
  assumes "i < length (workers s)" "weight work i w < weight work i (workers s ! i)"
  shows "fuelLeft work reqs (s\<lparr>workers := (workers s)[i := w], counter := c, locked := l, shared := sh\<rparr>) < fuelLeft work reqs s"
  using sum_update [OF assms(1), of "weight work" w] assms(2) by (simp add: fuelLeft_def)

lemma fuelLeft_step:
  assumes "fanStep work s s'" "fanInv work reqs s"
  shows "fuelLeft work reqs s' < fuelLeft work reqs s"
  using assms
proof (induction rule: fanStep.induct)
  case (spawn s x xs)
  let ?n = "length (workers s)"
  have d: "drop ?n reqs = x # xs" using spawn by (simp add: fanInv_def)
  then have n: "?n < length reqs" by (metis drop_all list.distinct(1) not_le)
  with d have x: "reqs ! ?n = x" by (metis Cons_nth_drop_Suc list.inject)
  have "{?n..<length reqs} = insert ?n {Suc ?n..<length reqs}" using n by auto
  moreover have "(\<Sum>i<?n. weight work i ((workers s @ [Started x]) ! i)) = (\<Sum>i<?n. weight work i (workers s ! i))"
    by (intro sum.cong) (auto simp: nth_append)
  ultimately show ?case by (simp add: fuelLeft_def x)
next
  case (compute s i x rs p)
  then show ?case
    using fuelLeft_update [where i = i and s = s and w = "Pending rs p" and c = "counter s" and l = "locked s" and sh = "shared s"] by simp
next
  case (lock s i r rs p)
  then show ?case using fuelLeft_update [where i = i and s = s and w = "Locked r rs p" and c = "counter s" and l = True and sh = "shared s"] by simp
next
  case (copy s i r rs p)
  then show ?case using fuelLeft_update [where i = i and s = s and w = "Copied (shared s) r rs p" and c = "counter s" and l = "locked s" and sh = "shared s"] by simp
next
  case (append s i sh r rs p)
  then show ?case using fuelLeft_update [where i = i and s = s and w = "Appended rs p" and c = "counter s" and l = "locked s" and sh = "sh @ [r]"] by simp
next
  case (unlock s i rs p)
  then show ?case using fuelLeft_update [where i = i and s = s and w = "Pending rs p" and c = "counter s" and l = False and sh = "shared s"] by simp
next
  case (finish s i p)
  then show ?case
    using fuelLeft_update [where i = i and s = s and w = "if p then Dying else Finished" and c = "counter s - 1" and l = "locked s" and sh = "shared s"] by simp
next
  case (crash s i)
  then show ?case by (simp add: fuelLeft_def)
next
  case (wait s)
  then show ?case by (simp add: fuelLeft_def)
qed

lemma fanReach_bound: "fanReach work reqs n s \<Longrightarrow> n + fuelLeft work reqs s \<le> fanBound work reqs"
proof (induction rule: fanReach.induct)
  case init
  show ?case by (simp add: fuelLeft_init)
next
  case (step n s s')
  then show ?case using fuelLeft_step [OF step.hyps(2) fanReach_inv [OF step.hyps(1)]] by simp
qed

text \<open>A state without a step has crashed or has returned.\<close>

lemma fan_progress:
  assumes "fanInv work reqs s" "\<not> crashed s" "\<And>s'. \<not> fanStep work s s'"
  shows "\<exists>ms. returned s = Some ms \<and> mset ms = outputs work reqs (length reqs)"
proof -
  let ?ws = "workers s"
  note inv = assms(1) [unfolded fanInv_def]
  have todo: "todo s = []" using assms(2,3) spawn by (metis list.exhaust)
  have nolock: "\<not> holding (?ws ! i)" if "i < length ?ws" for i
  proof (cases "?ws ! i")
    case (Locked r rs p)
    then show ?thesis using assms(3) fanStep.copy [OF assms(2) that Locked] by blast
  next
    case (Copied sh r rs p)
    then show ?thesis using assms(3) fanStep.append [OF assms(2) that Copied] by blast
  next
    case (Appended rs p)
    then show ?thesis using assms(3) fanStep.unlock [OF assms(2) that Appended] by blast
  qed simp_all
  then have "{i. i < length ?ws \<and> holding (?ws ! i)} = {}" by blast
  with inv have unlocked: "\<not> locked s" by (metis card.empty zero_neq_one)
  have inactive: "\<not> active (?ws ! i)" if i: "i < length ?ws" for i
  proof (cases "?ws ! i")
    case (Started x)
    obtain rs p where "work i x = (rs, p)" by fastforce
    with Started show ?thesis using assms(2,3) compute [OF assms(2) i Started] by blast
  next
    case (Pending rs p)
    show ?thesis
    proof (cases rs)
      case Nil
      with Pending show ?thesis using assms(3) finish [OF assms(2) i, of p] by blast
    next
      case (Cons r rs')
      with Pending show ?thesis using assms(3) unlocked lock [OF assms(2) i, of r rs' p] by blast
    qed
  qed (use nolock [OF i] in simp_all)
  then have "{i. i < length ?ws \<and> active (?ws ! i)} = {}" by blast
  with inv have zero: "counter s = 0" by (metis card.empty of_nat_0)
  with todo assms(2,3) wait obtain ms where ms: "returned s = Some ms" by (metis not_None_eq)
  have "remaining work i (?ws ! i) = {#}" if "i < length ?ws" for i
    using inactive [OF that] by (cases "?ws ! i") simp_all
  then have "(\<Sum>i<length ?ws. remaining work i (?ws ! i)) = {#}" by simp
  then show ?thesis using inv ms by auto
qed

lemma fan_answer:
  assumes "fanReach work reqs n s" "returned s = Some ms"
  shows "mset ms = outputs work reqs (length reqs)"
proof -
  let ?ws = "workers s"
  note inv = fanReach_inv [OF assms(1), unfolded fanInv_def]
  with assms(2) have "counter s = 0" by auto
  with inv have "card {i. i < length ?ws \<and> active (?ws ! i)} = 0" by simp
  then have "\<not> active (?ws ! i)" if "i < length ?ws" for i using that by (subst (asm) card_0_eq) auto
  then have "remaining work i (?ws ! i) = {#}" if "i < length ?ws" for i
    using that by (cases "?ws ! i") force+
  then have "(\<Sum>i<length ?ws. remaining work i (?ws ! i)) = {#}" by simp
  then show ?thesis using inv assms(2) by auto
qed

section \<open>The contract of a goroutine's work\<close>

text \<open>Work that does not panic: no goroutine of a run is ever on its way to a crash.\<close>

fun calm :: "(nat \<Rightarrow> 'a \<Rightarrow> 'b list \<times> bool) \<Rightarrow> nat \<Rightarrow> ('a, 'b) goroutine \<Rightarrow> bool" where
  "calm work i (Started x) \<longleftrightarrow> \<not> snd (work i x)"
| "calm work i (Pending rs p) \<longleftrightarrow> \<not> p"
| "calm work i (Locked r rs p) \<longleftrightarrow> \<not> p"
| "calm work i (Copied sh r rs p) \<longleftrightarrow> \<not> p"
| "calm work i (Appended rs p) \<longleftrightarrow> \<not> p"
| "calm work i Dying \<longleftrightarrow> False"
| "calm work i Finished \<longleftrightarrow> True"

definition calmState :: "(nat \<Rightarrow> 'a \<Rightarrow> 'b list \<times> bool) \<Rightarrow> ('a, 'b) fanState \<Rightarrow> bool" where
  "calmState work s \<longleftrightarrow> \<not> crashed s \<and> (\<forall>i < length (workers s). calm work i (workers s ! i)) \<and>
     (\<forall>x \<in> set (todo s). \<forall>i. \<not> snd (work i x))"

lemma calmState_init: "\<forall>x \<in> set reqs. \<forall>i. \<not> snd (work i x) \<Longrightarrow> calmState work (fanInit reqs)"
  by (simp add: calmState_def fanInit_def)

lemma calmState_step: "fanStep work s s' \<Longrightarrow> calmState work s \<Longrightarrow> calmState work s'"
proof (induction rule: fanStep.induct)
  case (spawn s x xs)
  then show ?case by (auto simp: calmState_def nth_append less_Suc_eq)
next
  case (compute s i x rs p)
  then have "\<not> snd (work i x)" by (auto simp: calmState_def)
  with compute show ?case by (auto simp: calmState_def nth_list_update)
qed (auto simp: calmState_def nth_list_update)

lemma outputs_mem: "r \<in># outputs work reqs n \<Longrightarrow> n \<le> length reqs \<Longrightarrow> \<exists>i x. x \<in> set reqs \<and> r \<in> set (fst (work i x))"
proof -
  assume r: "r \<in># outputs work reqs n" "n \<le> length reqs"
  then obtain i where "i < n" "r \<in> set (fst (work i (reqs ! i)))" by (auto simp: outputs_def set_mset_sum)
  with r show ?thesis by (meson nth_mem order_less_le_trans)
qed

locale fan_handler =
  fixes work :: "nat \<Rightarrow> 'a \<Rightarrow> 'b list \<times> bool"
    and accepts :: "'a \<Rightarrow> bool"
    and ok :: "'a \<Rightarrow> 'b \<Rightarrow> bool"
  assumes no_panic: "accepts x \<Longrightarrow> \<not> snd (work i x)"
    and sound: "accepts x \<Longrightarrow> r \<in> set (fst (work i x)) \<Longrightarrow> ok x r"
begin

lemma stays_calm: "fanReach work reqs n s \<Longrightarrow> \<forall>x \<in> set reqs. accepts x \<Longrightarrow> calmState work s"
  by (induction rule: fanReach.induct) (simp_all add: calmState_init calmState_step no_panic)

lemma answers:
  assumes "fanReach work reqs n s" "\<forall>x \<in> set reqs. accepts x"
  shows "n \<le> fanBound work reqs \<and> \<not> crashed s \<and>
    ((\<exists>s'. fanStep work s s') \<or> (\<exists>ms. returned s = Some ms \<and> mset ms = outputs work reqs (length reqs)))"
proof -
  have "\<not> crashed s" using stays_calm [OF assms] by (simp add: calmState_def)
  with fan_progress [OF fanReach_inv [OF assms(1)]] fanReach_bound [OF assms(1)] show ?thesis by auto
qed

lemma exclusive:
  assumes "fanReach work reqs n s" "i < length (workers s)" "j < length (workers s)"
    "holding (workers s ! i)" "holding (workers s ! j)"
  shows "i = j"
proof (rule ccontr)
  assume "i \<noteq> j"
  note inv = fanReach_inv [OF assms(1), unfolded fanInv_def]
  have "card {i, j} \<le> card {i. i < length (workers s) \<and> holding (workers s ! i)}" using assms(2-5) by (intro card_mono) auto
  with inv \<open>i \<noteq> j\<close> show False by (simp split: if_splits)
qed

lemma shared_ok:
  assumes "fanReach work reqs n s" "\<forall>x \<in> set reqs. accepts x" "r \<in> set (shared s)"
  shows "\<exists>x \<in> set reqs. ok x r"
proof -
  note inv = fanReach_inv [OF assms(1), unfolded fanInv_def]
  then have "mset (shared s) \<subseteq># outputs work reqs (length (workers s))" by (metis mset_subset_eq_add_left)
  with assms(3) have "r \<in># outputs work reqs (length (workers s))" by (meson mset_subset_eqD set_mset_mset[THEN equalityD2, THEN subsetD])
  with inv outputs_mem assms(2) sound show ?thesis by metis
qed

end

text \<open>A run with one request: spawned, computed, appended under the lock, and returned.\<close>

lemma fan_single:
  assumes "work 0 x = ([r], False)"
  shows "fanReach work [x] 8 \<lparr>todo = [], workers = [Finished], counter = 0, locked = False, shared = [r],
    returned = Some [r], crashed = False\<rparr>"
proof -
  let ?st = "\<lambda>td w c l sh ret. \<lparr>todo = td, workers = w, counter = c, locked = l, shared = sh, returned = ret, crashed = False\<rparr>"
  have s0: "fanReach work [x] 0 (?st [x] [] 0 False [] None)" using init [of work "[x]"] by (simp add: fanInit_def)
  have s1: "fanReach work [x] (Suc 0) (?st [] [Started x] 1 False [] None)"
    by (rule step [OF s0]) (use spawn [of "?st [x] [] 0 False [] None" x "[]" work] in simp)
  have s2: "fanReach work [x] (Suc (Suc 0)) (?st [] [Pending [r] False] 1 False [] None)"
    by (rule step [OF s1]) (use compute [of "?st [] [Started x] 1 False [] None" 0 x work "[r]" False] assms in simp)
  have s3: "fanReach work [x] (Suc (Suc (Suc 0))) (?st [] [Locked r [] False] 1 True [] None)"
    by (rule step [OF s2]) (use lock [of "?st [] [Pending [r] False] 1 False [] None" 0 r "[]" False work] in simp)
  have s4: "fanReach work [x] (Suc (Suc (Suc (Suc 0)))) (?st [] [Copied [] r [] False] 1 True [] None)"
    by (rule step [OF s3]) (use copy [of "?st [] [Locked r [] False] 1 True [] None" 0 r "[]" False work] in simp)
  have s5: "fanReach work [x] (Suc (Suc (Suc (Suc (Suc 0))))) (?st [] [Appended [] False] 1 True [r] None)"
    by (rule step [OF s4]) (use append [of "?st [] [Copied [] r [] False] 1 True [] None" 0 "[]" r "[]" False work] in simp)
  have s6: "fanReach work [x] (Suc (Suc (Suc (Suc (Suc (Suc 0)))))) (?st [] [Pending [] False] 1 False [r] None)"
    by (rule step [OF s5]) (use unlock [of "?st [] [Appended [] False] 1 True [r] None" 0 "[]" False work] in simp)
  have s7: "fanReach work [x] (Suc (Suc (Suc (Suc (Suc (Suc (Suc 0))))))) (?st [] [Finished] 0 False [r] None)"
    by (rule step [OF s6]) (use finish [of "?st [] [Pending [] False] 1 False [r] None" 0 False work] in simp)
  have "fanReach work [x] (Suc (Suc (Suc (Suc (Suc (Suc (Suc (Suc 0)))))))) (?st [] [Finished] 0 False [r] (Some [r]))"
    by (rule step [OF s7]) (use wait [of "?st [] [Finished] 0 False [r] None" work] in simp)
  then show ?thesis by (simp add: eval_nat_numeral)
qed

end
