(* ===== verification/CarbonServer.thy ===== *)
theory CarbonServer
  imports RenderProps FanOut
begin

text \<open>
  \<open>Find\<close> and \<open>Render\<close> of \<open>src/cmd/matecarbon/main.go\<close> as a whole: every interleaving of their
  goroutines ends with the complete answer, \<open>Find\<close> lists the stored names below a path, and
  \<open>Render\<close> answers with aligned series.
\<close>

section \<open>Find\<close>

text \<open>What a metric of the answer is allowed to be.\<close>

definition findOk :: "string \<Rightarrow> GlobResponse \<Rightarrow> bool" where
  "findOk target r \<longleftrightarrow> GlobName r = target \<and> target \<noteq> ''*'' \<and> length target \<le> 8192 \<and>
     list_all (\<lambda>m. \<not> IsLeaf m \<and> HasPrefix (Path m) (fst (ConvertQueryLabel target))) (Matches r)"

lemma findTarget_cases:
  "findTarget E cfg req i target ms = (Inr (), ms) \<or>
   (\<exists>r. findTarget E cfg req i target ms = (Inr (), ms @ [r]) \<and> findOk target r)"
proof (cases "target = ''*'' \<or> length target > 8192")
  case True
  then show ?thesis by (auto simp: findTarget_def ret_def)
next
  case False
  then show ?thesis
    by (auto simp: findTarget_def ret_def modifyS_def findOk_def HasPrefix_def list_all_iff Let_def
        split: prod.splits reply.splits sum.splits)
qed

lemma findWork_cases: "findWork E cfg req i target = ([], False) \<or> (\<exists>r. findWork E cfg req i target = ([r], False) \<and> findOk target r)"
  using findTarget_cases [of E cfg req i target "[]"] by (auto simp: findWork_def runWork_def)

interpretation fh: fan_handler "findWork E cfg req" "\<lambda>target. True" findOk for E cfg req
proof unfold_locales
  show "\<not> snd (findWork E cfg req i x)" for i x using findWork_cases [of E cfg req i x] by auto
  show "r \<in> set (fst (findWork E cfg req i x)) \<Longrightarrow> findOk x r" for i x r
    using findWork_cases [of E cfg req i x] by auto
qed

text \<open>C10: every interleaving of the goroutines of \<open>Find\<close> takes a bounded number of steps and never
  crashes; it can only stop having returned, and what it returns is, up to order, exactly what the
  goroutines of all the targets produce on their own, nothing lost or doubled.\<close>

theorem Find_answers:
  assumes "fanReach (findWork E cfg req) (GlobMetrics req) n s"
  shows "n \<le> fanBound (findWork E cfg req) (GlobMetrics req) \<and> \<not> crashed s \<and>
    ((\<exists>s'. fanStep (findWork E cfg req) s s') \<or>
     (\<exists>ms. returned s = Some ms \<and>
        mset ms = (\<Sum>i<length (GlobMetrics req). mset (fst (findWork E cfg req i (GlobMetrics req ! i))))))"
  using fh.answers [OF assms] by (simp add: outputs_def)

definition sampleGlob :: MultiGlobRequest where
  "sampleGlob = \<lparr>GlobMetrics = [''a.*''], GlobStartTime = 0, GlobStopTime = 60\<rparr>"

definition sampleMatches :: GlobResponse where
  "sampleMatches = \<lparr>GlobName = ''a.*'', Matches = [\<lparr>IsLeaf = False, Path = ''a.b''\<rparr>, \<lparr>IsLeaf = False, Path = ''a.c''\<rparr>]\<rparr>"

lemma sampleFind: "findWork sampleEnv sampleConfig sampleGlob 0 ''a.*'' = ([sampleMatches], False)"
proof -
  have q: "ConvertQueryLabel ''a.*'' = (''a.'', ''__a_g1__'', True)" by code_simp
  have "readLimited ''body'' None 1000 = Inr ''body''" by code_simp
  then show ?thesis
    by (simp add: findWork_def runWork_def findTarget_def q sampleEnv_def sampleConfig_def sampleGlob_def sampleMatches_def
        modifyS_def split: prod.split)
qed

definition sampleDone :: "(string, GlobResponse) fanState" where
  "sampleDone = \<lparr>todo = [], workers = [Finished], counter = 0, locked = False, shared = [sampleMatches],
     returned = Some [sampleMatches], crashed = False\<rparr>"

lemma sampleRun: "fanReach (findWork sampleEnv sampleConfig sampleGlob) (GlobMetrics sampleGlob) 8 sampleDone"
proof -
  have "GlobMetrics sampleGlob = [''a.*'']" by (simp add: sampleGlob_def)
  then show ?thesis
    using fan_single [of "findWork sampleEnv sampleConfig sampleGlob", OF sampleFind] by (simp add: sampleDone_def)
qed

theorem Find_answers_witness:
  "8 \<le> fanBound (findWork sampleEnv sampleConfig sampleGlob) (GlobMetrics sampleGlob) \<and> \<not> crashed sampleDone \<and>
   returned sampleDone = Some [sampleMatches]"
  using Find_answers [OF sampleRun] by (simp add: sampleDone_def)

text \<open>C11: at every moment of a run of \<open>Find\<close> at most one goroutine is between \<open>Lock\<close> and \<open>Unlock\<close>, and
  each metric of the shared answer belongs to a target of the request, which is not \<open>*\<close> and not too
  long, and all its paths start with the query's prefix.\<close>

theorem Find_shared:
  assumes "fanReach (findWork E cfg req) (GlobMetrics req) n s"
  shows "(\<forall>i j. i < length (workers s) \<and> j < length (workers s) \<and> holding (workers s ! i) \<and> holding (workers s ! j) \<longrightarrow> i = j) \<and>
    (\<forall>r \<in> set (shared s). \<exists>target \<in> set (GlobMetrics req). GlobName r = target \<and> target \<noteq> ''*'' \<and> length target \<le> 8192 \<and>
       list_all (\<lambda>m. \<not> IsLeaf m \<and> HasPrefix (Path m) (fst (ConvertQueryLabel target))) (Matches r))"
  using fh.shared_ok [OF assms] fh.exclusive [OF assms] by (auto simp: findOk_def)

theorem Find_shared_witness:
  "GlobName sampleMatches = ''a.*'' \<and>
   list_all (\<lambda>m. \<not> IsLeaf m \<and> HasPrefix (Path m) (fst (ConvertQueryLabel ''a.*''))) (Matches sampleMatches)"
proof -
  have "sampleMatches \<in> set (shared sampleDone)" by (simp add: sampleDone_def)
  with conjunct2 [OF Find_shared [OF sampleRun]] obtain t where t: "t \<in> set (GlobMetrics sampleGlob)" "GlobName sampleMatches = t"
    "list_all (\<lambda>m. \<not> IsLeaf m \<and> HasPrefix (Path m) (fst (ConvertQueryLabel t))) (Matches sampleMatches)" by blast
  have "t = ''a.*''" using t(1) by (simp add: sampleGlob_def)
  from t(2,3) [unfolded this] show ?thesis by (rule conjI)
qed

subsection \<open>What Find lists\<close>

text \<open>
  The storage's answer to a request for label values: a body that fits the limit and decodes to
  the set \<open>vals\<close> of values.
\<close>

definition labelAnswer :: "carbonEnv \<Rightarrow> Config \<Rightarrow> nat \<Rightarrow> string \<Rightarrow> (string \<times> param) list \<Rightarrow> string set \<Rightarrow> bool" where
  "labelAnswer E cfg i label params vals \<longleftrightarrow>
     (\<exists>body data. httpGet E i (PrometheusURL cfg @ ''/api/v1/label/'' @ label @ ''/values'') params = Reply body None \<and>
        decodeValues E (take (nat (PrometheusMaxBody cfg)) body) = Inr data \<and> set (ValuesOf data) = vals)"

text \<open>
  The stored series, each a metric name with the nodes behind it, and their labels. The values of a
  label among the series that satisfy all filters, the empty ones left out.
\<close>

definition seriesLabels :: "string \<Rightarrow> string list \<Rightarrow> (string \<times> string) list" where
  "seriesLabels n vs = (''__name__'', n) # storedLabels n vs"

definition valuesAmong :: "(string \<Rightarrow> string \<Rightarrow> bool) \<Rightarrow> (string \<times> string list) list \<Rightarrow> LabelFilter list \<Rightarrow> string \<Rightarrow> string set" where
  "valuesAmong match db fs label =
     {v. v \<noteq> [] \<and> (\<exists>(n, vs) \<in> set db. list_all (filterMatches match (seriesLabels n vs)) fs \<and> labelValue (seriesLabels n vs) label = v)}"

text \<open>
  A series selector in the documented syntax of PromQL: label matchers in braces, with the operators
  \<open>=\<close>, \<open>!=\<close>, \<open>=~\<close> and \<open>!~\<close>. In a double-quoted string the backslash begins an escape, so that only a value
  without backslash, quote and newline stands for itself.
\<close>

definition promMatcher :: "LabelFilter \<Rightarrow> string" where
  "promMatcher f = Label f @ (if IsNegative f then ''!'' else ''='') @
     (if IsRegexp f then ''~'' else if IsNegative f then ''='' else []) @ [dquote] @ Value f @ [dquote]"

definition promSelector :: "LabelFilter list \<Rightarrow> string" where
  "promSelector fs = ''{'' @ joinWith '','' (map promMatcher fs) @ ''}''"

definition plainValue :: "string \<Rightarrow> bool" where
  "plainValue v \<longleftrightarrow> bslash \<notin> set v \<and> dquote \<notin> set v \<and> newline \<notin> set v"

text \<open>
  What the storage promises for the values of a label: without a selector the values in all
  series, with a selector for the filters \<open>fs\<close>, all of plain values, those in the series that satisfy them.
\<close>

definition storageLists :: "carbonEnv \<Rightarrow> Config \<Rightarrow> MultiGlobRequest \<Rightarrow> (string \<Rightarrow> string \<Rightarrow> bool) \<Rightarrow> (string \<times> string list) list
    \<Rightarrow> nat \<Rightarrow> string \<Rightarrow> LabelFilter list option \<Rightarrow> bool" where
  "storageLists E cfg req match db i label selector \<longleftrightarrow>
     (case selector of
        None \<Rightarrow> labelAnswer E cfg i label [] (valuesAmong match db [] label)
      | Some fs \<Rightarrow> list_all (\<lambda>f. plainValue (Value f)) fs \<longrightarrow>
          labelAnswer E cfg i label [(''start'', PInt (GlobStartTime req)), (''end'', PInt (GlobStopTime req)),
            (''match[]'', PStr (promSelector fs))] (valuesAmong match db fs label))"

definition nameIs :: "string \<Rightarrow> LabelFilter" where
  "nameIs name = \<lparr>Label = ''__name__'', Value = name, IsNegative = False, IsRegexp = False\<rparr>"

text \<open>What \<open>Build\<close> writes is the selector, except for a negative regular expression, which it writes as a positive one.\<close>

lemma joinWith_commas: "joinWith '','' (x # xs) = x @ concat (map (\<lambda>y. CHR '','' # y) xs)"
proof (induction xs arbitrary: x)
  case (Cons y ys)
  then show ?case by simp
qed simp

lemma Build_selector:
  assumes "list_all (\<lambda>f. \<not> (IsRegexp f \<and> IsNegative f)) fs"
  shows "Build fs name = promSelector (nameIs name # fs)"
proof -
  have "map buildFilter fs = map (\<lambda>f. CHR '','' # promMatcher f) fs"
    using assms by (auto simp: list_all_iff buildFilter_def promMatcher_def)
  then have "concat (map buildFilter fs) = concat (map (\<lambda>f. CHR '','' # promMatcher f) fs)" by (simp only:)
  moreover have "joinWith '','' (map promMatcher (nameIs name # fs)) =
      promMatcher (nameIs name) @ concat (map (\<lambda>f. CHR '','' # promMatcher f) fs)"
    by (simp only: list.map joinWith_commas map_map comp_def)
  ultimately show ?thesis by (simp add: Build_def promSelector_def) (simp add: promMatcher_def nameIs_def)
qed

lemma Build_negative_regexp:
  "Build [\<lparr>Label = ''l'', Value = ''x'', IsNegative = True, IsRegexp = True\<rparr>] ''a'' \<noteq>
     promSelector [nameIs ''a'', \<lparr>Label = ''l'', Value = ''x'', IsNegative = True, IsRegexp = True\<rparr>]"
  by code_simp

text \<open>A label name determines the metric name and the position.\<close>

lemma labelName_unique: "labelName n i = labelName m j \<longleftrightarrow> n = m \<and> i = j"
proof
  assume "labelName n i = labelName m j"
  then have e: "n @ ''_g'' @ natDec i = m @ ''_g'' @ natDec j" by (simp add: labelName_def Itoa_of_nat)
  have r: "rev (natDec i) @ CHR ''g'' # CHR ''_'' # rev n = rev (natDec j) @ CHR ''g'' # CHR ''_'' # rev m"
    using arg_cong [OF e, of rev] by simp
  have t: "takeWhile isDecimalChar (rev (natDec k) @ CHR ''g'' # x) = rev (natDec k)" for k x
    using natDec_decimal [of k] by (subst takeWhile_append2) (auto simp: list_all_iff isDecimalChar_def between_def)
  have d: "natDec i = natDec j" using arg_cong [OF r, of "takeWhile isDecimalChar"] unfolding t by simp
  with e natDec_inj show "n = m \<and> i = j" by auto
qed auto

lemma labelValue_series:
  "labelValue (seriesLabels n vs) (labelName name (Suc i)) = (if n = name then nodeAt vs i else [])"
proof (cases "n = name")
  case True
  then show ?thesis using labelValue_storedLabels by (simp add: seriesLabels_def labelValue_def)
next
  case False
  then have "map_of (storedLabels n vs) (labelName name (Suc i)) = None"
    by (auto simp: storedLabels_def map_of_eq_None_iff labelName_unique)
  with False show ?thesis by (simp add: seriesLabels_def labelValue_def)
qed

lemma filterMatches_series:
  assumes "\<forall>f \<in> set fs. \<exists>i. Label f = labelName name (Suc i)"
  shows "list_all (filterMatches match (seriesLabels name vs)) fs = list_all (filterMatches match (storedLabels name vs)) fs"
proof -
  have "filterMatches match (seriesLabels name vs) f = filterMatches match (storedLabels name vs) f" if f: "f \<in> set fs" for f
  proof -
    obtain i where "Label f = labelName name (Suc i)" using assms f by blast
    then show ?thesis by (simp add: filterMatches_def labelValue_series labelValue_storedLabels)
  qed
  then show ?thesis by (simp add: list_all_iff)
qed

text \<open>Without escapes and quoted characters the regular expression of a node is plain.\<close>

fun unescapedG :: "glob \<Rightarrow> bool" where
  "unescapedG (GEsc c) = False"
| "unescapedG (GQuote c) = False"
| "unescapedG (GAlt gss) = list_all (list_all unescapedG) gss"
| "unescapedG _ = True"

lemma plainValue_append: "plainValue (u @ v) = (plainValue u \<and> plainValue v)"
  by (auto simp: plainValue_def)

lemma plainValue_concat: "plainValue (concat xs) = list_all plainValue xs"
  by (auto simp: plainValue_def list_all_iff)

lemma plainValue_join: "plainValue s \<Longrightarrow> list_all plainValue xs \<Longrightarrow> plainValue (joinWith s xs)"
  using joinWith_set [of s xs] by (auto simp: plainValue_def list_all_iff)

lemma plainChar_value: "plainChar c \<Longrightarrow> c \<noteq> bslash \<and> c \<noteq> dquote \<and> c \<noteq> newline"
proof -
  have "list_all (\<lambda>c. c \<noteq> bslash \<and> c \<noteq> dquote \<and> c \<noteq> newline) ValidIdentifierRunes" by code_simp
  then show "plainChar c \<Longrightarrow> c \<noteq> bslash \<and> c \<noteq> dquote \<and> c \<noteq> newline" by (simp add: plainChar_def list_all_iff)
qed

lemma plainValue_printR: "wfG g \<Longrightarrow> unescapedG g \<Longrightarrow> plainValue (printR (toRegex g))"
proof (induction g)
  case (GAlt gss)
  have "plainValue (concat (map printR (map toRegex gs)))" if "gs \<in> set gss" for gs
    using GAlt that by (auto simp: plainValue_concat list_all_iff)
  then have "plainValue (joinWith ''|'' (map (\<lambda>rs. concat (map printR rs)) (map (map toRegex) gss)))"
    by (intro plainValue_join) (auto simp: list_all_iff plainValue_def)
  then show ?case by (simp add: plainValue_append) (simp add: plainValue_def)
next
  case (GRange cs)
  then have "plainValue cs" using plainChar_value by (auto simp: plainValue_def list_all_iff)
  then show ?case by (simp add: plainValue_def)
qed (use plainChar_value in \<open>auto simp: plainValue_def\<close>)

lemma pathFilters_shape:
  assumes "list_all wfNode gss" "list_all (list_all unescapedG) gss" "f \<in> set (pathFilters name gss terminal)"
  shows "(\<exists>i. Label f = labelName name (Suc i)) \<and> \<not> IsNegative f \<and> plainValue (Value f)"
proof -
  have "plainValue (printRs (map toRegex gs))" if "gs \<in> set gss" for gs
    using assms(1,2) that plainValue_printR unfolding printRs_def plainValue_concat by (auto simp: list_all_iff wfNode_def)
  then show ?thesis using assms(3) nth_mem
    by (auto simp: pathFilters_def nodeFilters_def nodeFilter_def in_set_zip plainValue_def split: if_splits simp del: upt_Suc)
qed

text \<open>The paths of a metric of the answer.\<close>

definition pathsOf :: "GlobResponse list \<Rightarrow> string set" where
  "pathsOf rs = Path ` (\<Union>r \<in> set rs. set (Matches r))"

lemma readLimited_None: "readLimited body None n = Inr (take (nat n) body)"
  by (simp add: readLimited_def)

lemma findWork_answer:
  assumes "target \<noteq> ''*''" "length target \<le> 8192"
    and "ConvertGraphiteTarget target False = (name, Some fs)" "ConvertQueryLabel target = (prefix, label, fast)"
    and "labelAnswer E cfg i label (if fast then [] else
      [(''start'', PInt (GlobStartTime req)), (''end'', PInt (GlobStopTime req)), (''match[]'', PStr (Build fs name))]) vals"
  shows "pathsOf (fst (findWork E cfg req i target)) = (\<lambda>v. prefix @ v) ` vals"
proof -
  obtain body data where b: "httpGet E i (PrometheusURL cfg @ ''/api/v1/label/'' @ label @ ''/values'') (if fast then [] else
      [(''start'', PInt (GlobStartTime req)), (''end'', PInt (GlobStopTime req)), (''match[]'', PStr (Build fs name))]) = Reply body None"
    "decodeValues E (take (nat (PrometheusMaxBody cfg)) body) = Inr data" "set (ValuesOf data) = vals"
    using assms(5) unfolding labelAnswer_def by blast
  have "findWork E cfg req i target = ([\<lparr>GlobName = target, Matches = map (\<lambda>l. \<lparr>IsLeaf = False, Path = prefix @ l\<rparr>) (ValuesOf data)\<rparr>], False)"
    using assms(1,2) b(1,2)
    unfolding findWork_def runWork_def findTarget_def selectorOf_def assms(3,4) Let_def
    by (simp add: readLimited_None modifyS_def)
  then show ?thesis using b(3) by (simp add: pathsOf_def image_image)
qed


definition sampleDb :: "(string \<times> string list) list" where
  "sampleDb = [(''a'', [''x1'', ''b'']), (''a'', [''x2'', ''c'']), (''a'', [''y'', ''d'']), (''e'', [''x1'', ''f''])]"

definition sampleGlobs :: "glob list list" where
  "sampleGlobs = [[GLit CHR ''x'', GQuest], [GStar]]"

definition sampleMatch :: "string \<Rightarrow> string \<Rightarrow> bool" where
  "sampleMatch p v \<longleftrightarrow> (\<exists>gs \<in> set sampleGlobs. p = printRs (map toRegex gs) \<and> runesOf v \<in> langRs (map toRegex gs))"

lemma sampleGlobs_ok:
  "list_all wfNode sampleGlobs" "list_all (list_all unescapedG) sampleGlobs" "sampleGlobs \<noteq> []" "length sampleGlobs = 2"
  "\<forall>gs \<in> set sampleGlobs. CHR ''.'' \<notin> set (printGs gs)"
  by (simp_all add: wfNode_def plainChar_def ValidIdentifierRunes_def sampleGlobs_def printGs_def)

lemma sampleGlobs_match: "gs \<in> set sampleGlobs \<Longrightarrow> list_ex isPattern gs \<Longrightarrow> readsRegex sampleMatch (map toRegex gs)"
  by (auto simp: sampleGlobs_def sampleMatch_def printRs_def readsRegex_def)

lemma sampleValues:
  "valuesAmong sampleMatch sampleDb (nameIs ''a'' # pathFilters ''a'' sampleGlobs False) (labelName ''a'' 2) = {''b'', ''c''}"
proof -
  have fs: "pathFilters ''a'' sampleGlobs False = [\<lparr>Label = labelName ''a'' (Suc 0), Value = ''x[^.]'', IsNegative = False, IsRegexp = True\<rparr>]"
    by (simp add: pathFilters_def sampleGlobs_def nodeFilters_def nodeFilter_def printGs_def printRs_def upt_rec)
  have r: "runesOf ''x1'' = [120, 49]" "runesOf ''x2'' = [120, 50]" "runesOf ''y'' = [121]" by (simp_all add: runesOf_ascii isAscii_def)
  have m: "sampleMatch ''x[^.]'' v \<longleftrightarrow> (\<exists>r. runesOf v = [120, r] \<and> r \<noteq> 46)" for v
    by (auto simp: sampleMatch_def sampleGlobs_def printRs_def langRs_def conc_def)
  have l: "labelName ''a'' 2 = labelName ''a'' (Suc (Suc 0))" by (simp add: numeral_2_eq_2)
  show ?thesis unfolding valuesAmong_def fs l
    by (auto simp: filterMatches_def labelValue_series m r nodeAt_def sampleDb_def nameIs_def)
      (auto simp: seriesLabels_def labelValue_def)
qed


section \<open>Render\<close>

text \<open>
  The series that the storage answers to the request of one goroutine: the reply to exactly the
  query, times and step that it sends, decoded. A failure on the way gives none.
\<close>

definition rollupOf :: "carbonEnv \<Rightarrow> Config \<Rightarrow> string \<Rightarrow> string" where
  "rollupOf E cfg path =
     (case filter (\<lambda>r. reMatch E (MatchSuffixRe r) path) (map the (Rollups cfg)) of [] \<Rightarrow> DefaultRollupFunc cfg | r # rs \<Rightarrow> RollupFunc r)"

definition rangeParams :: "carbonEnv \<Rightarrow> Config \<Rightarrow> FetchRequest \<Rightarrow> (string \<times> param) list" where
  "rangeParams E cfg req =
     [(''query'', PStr (rangeQuery (rollupOf E cfg (PathExpression req)) (snd (selectorOf (PathExpression req) True)) (queryStep cfg req))),
      (''start'', PInt (StartTime req)), (''end'', PInt (StopTime req)),
      (''step'', PStr (Itoa (int64OfFloat (queryStep cfg req)) @ ''s'')),
      (''max_lookback'', PStr (Itoa (int64OfFloat (queryStep cfg req)) @ ''s''))]"

definition replySeries :: "carbonEnv \<Rightarrow> Config \<Rightarrow> nat \<Rightarrow> FetchRequest \<Rightarrow> MatrixData list" where
  "replySeries E cfg i req =
     (if length (PathExpression req) > 8192 then []
      else case httpGet E i (PrometheusURL cfg @ ''/api/v1/query_range'') (rangeParams E cfg req) of
        GetFailed err \<Rightarrow> []
      | Reply body err \<Rightarrow> (case readLimited body err (PrometheusMaxBody cfg) of
          Inl err \<Rightarrow> []
        | Inr body \<Rightarrow> (case decodeMatrix E body of
            Inl err \<Rightarrow> []
          | Inr raw \<Rightarrow> (case seriesOf raw of Inl err \<Rightarrow> [] | Inr ms \<Rightarrow> ms))))"

lemma chooseRollup_filter:
  assumes "None \<notin> set rs"
  shows "chooseRollup E path rs =
    ret (case filter (\<lambda>r. reMatch E (MatchSuffixRe r) path) (map the rs) of [] \<Rightarrow> None | r # rs \<Rightarrow> Some (RollupFunc r))"
  using assms by (induction rs rule: chooseRollup.induct) auto

lemma renderTarget_reply:
  assumes "None \<notin> set (Rollups cfg)"
  shows "renderTarget E cfg i req =
    andThen (mapM (renderSeries E (queryStep cfg req) (fst (selectorOf (PathExpression req) True)) req) (replySeries E cfg i req)) (\<lambda>us. ret ())"
proof -
  let ?rs = "filter (\<lambda>r. reMatch E (MatchSuffixRe r) (PathExpression req)) (map the (Rollups cfg))"
  have f: "(case (case ?rs of [] \<Rightarrow> None | r # rs \<Rightarrow> Some (RollupFunc r)) of None \<Rightarrow> DefaultRollupFunc cfg | Some f \<Rightarrow> f) =
      rollupOf E cfg (PathExpression req)"
    by (simp add: rollupOf_def split: list.split)
  obtain name selector where ns: "selectorOf (PathExpression req) True = (name, selector)" by fastforce
  have none: "andThen (mapM g []) (\<lambda>us. ret ()) = (ret () :: ('s, unit) comp)" for g :: "MatrixData \<Rightarrow> ('s, unit) comp"
    by (simp add: andThen_ret)
  show ?thesis
    unfolding renderTarget_def ns prod.case Let_def chooseRollup_filter [OF assms] andThen_ret f replySeries_def rangeParams_def fst_conv snd_conv
    by (simp add: none split: reply.split sum.split)
qed

text \<open>
  The series is one of those the handler answers: it has points, and a path name. What the documented
  range query promises of it: points at whole times, a multiple of the step apart, up to the request's
  start at least. The metric of the answer for it.
\<close>

definition shown :: "FetchRequest \<Rightarrow> MatrixData \<Rightarrow> bool" where
  "shown req m \<longleftrightarrow> Values m \<noteq> [] \<and> ConvertPrometheusMetric (fst (selectorOf (PathExpression req) True)) (Metric m) \<noteq> []"

definition onGrid :: "int \<Rightarrow> FetchRequest \<Rightarrow> MatrixData \<Rightarrow> bool" where
  "onGrid interval req m \<longleftrightarrow>
     (\<exists>pts. Values m = toPairs pts \<and> gridSeries (stepSpec interval req) pts \<and> StartTime req \<le> fst (last pts) + stepSpec interval req)"

definition seriesAnswer :: "int \<Rightarrow> FetchRequest \<Rightarrow> MatrixData \<Rightarrow> FetchResponse \<Rightarrow> bool" where
  "seriesAnswer interval req m r \<longleftrightarrow>
     FetchName r = ConvertPrometheusMetric (fst (selectorOf (PathExpression req) True)) (Metric m) \<and>
     int (length (FetchValues r)) \<le> pointLimit req + 1 \<and>
     (\<exists>pts. Values m = toPairs pts \<and> gridSeries (stepSpec interval req) pts \<and> answersSeries req (stepSpec interval req) pts r)"

definition renderAccepts :: "carbonEnv \<Rightarrow> Config \<Rightarrow> int \<Rightarrow> FetchRequest \<Rightarrow> bool" where
  "renderAccepts E cfg interval req \<longleftrightarrow> plainRequest interval req \<and> StatsdFlushInterval cfg = floatOfInt interval \<and>
     None \<notin> set (Rollups cfg) \<and> (\<forall>i. \<forall>m \<in> set (replySeries E cfg i req). Values m \<noteq> [] \<longrightarrow> onGrid interval req m)"

definition renderOk :: "carbonEnv \<Rightarrow> Config \<Rightarrow> int \<Rightarrow> FetchRequest \<Rightarrow> FetchResponse \<Rightarrow> bool" where
  "renderOk E cfg interval req r \<longleftrightarrow> (\<exists>i. \<exists>m \<in> set (replySeries E cfg i req). shown req m \<and> seriesAnswer interval req m r)"

lemma answersSeries_limit:
  assumes "plainRequest interval req" "answersSeries req (stepSpec interval req) pts r"
  shows "int (length (FetchValues r)) \<le> pointLimit req + 1"
proof -
  have "0 < stepSpec interval req" "StartTime req \<le> StopTime req"
    using assms(1) by (simp_all add: stepSpec_def plainRequest_def less_max_iff_disj)
  from answerCount_bounds [OF this, of pts] points_limit [OF assms(1)] assms(2) show ?thesis by (simp add: answersSeries_def)
qed

lemma renderSeries_shown:
  assumes "plainRequest interval req" "StatsdFlushInterval cfg = floatOfInt interval" "Values m \<noteq> [] \<longrightarrow> onGrid interval req m"
  shows "\<exists>rs. renderSeries E (queryStep cfg req) (fst (selectorOf (PathExpression req) True)) req m ms = (Inr (), ms @ rs) \<and>
    list_all2 (seriesAnswer interval req) (filter (shown req) [m]) rs"
proof (cases "shown req m")
  case False
  then show ?thesis by (intro exI [of _ "[]"]) (auto simp: renderSeries_def ret_def shown_def Let_def)
next
  case True
  with assms(3) obtain pts where p: "Values m = toPairs pts" "gridSeries (stepSpec interval req) pts"
    "StartTime req \<le> fst (last pts) + stepSpec interval req" by (auto simp: shown_def onGrid_def)
  obtain r where "renderSeries E (queryStep cfg req) (fst (selectorOf (PathExpression req) True)) req m ms = (Inr (), ms @ [r])"
    "answersSeries req (stepSpec interval req) pts r" "FetchName r = ConvertPrometheusMetric (fst (selectorOf (PathExpression req) True)) (Metric m)"
    using renderSeries_resampled [OF assms(1,2) refl p(2,3,1)] True unfolding shown_def by blast
  with p(1,2) answersSeries_limit [OF assms(1)] True show ?thesis by (intro exI [of _ "[r]"]) (auto simp: seriesAnswer_def)
qed

lemma mapM_appends:
  assumes "\<And>m ms. m \<in> set mts \<Longrightarrow> \<exists>rs. f m ms = (Inr (), ms @ rs) \<and> list_all2 P (filter Q [m]) rs"
  shows "\<exists>us rs. mapM f mts ms = (Inr us, ms @ rs) \<and> list_all2 P (filter Q mts) rs"
  using assms
proof (induction mts arbitrary: ms)
  case Nil
  show ?case by (intro exI [of _ "[]"]) (simp add: ret_def)
next
  case (Cons m mts)
  then obtain rs where r: "f m ms = (Inr (), ms @ rs)" "list_all2 P (filter Q [m]) rs" by force
  have "\<exists>us rs'. mapM f mts (ms @ rs) = (Inr us, (ms @ rs) @ rs') \<and> list_all2 P (filter Q mts) rs'"
    by (rule Cons.IH) (use Cons.prems in simp)
  then obtain us rs' where r': "mapM f mts (ms @ rs) = (Inr us, (ms @ rs) @ rs')" "list_all2 P (filter Q mts) rs'" by blast
  have "filter Q (m # mts) = filter Q [m] @ filter Q mts" by simp
  then have "list_all2 P (filter Q (m # mts)) (rs @ rs')" using r(2) r'(2) by (simp only: list_all2_appendI)
  then show ?case by (intro exI [of _ "() # us"] exI [of _ "rs @ rs'"]) (simp add: andThen_def ret_def r(1) r'(1))
qed

lemma renderWork_answers:
  assumes "renderAccepts E cfg interval req"
  shows "\<not> snd (renderWork E cfg i req) \<and>
    list_all2 (seriesAnswer interval req) (filter (shown req) (replySeries E cfg i req)) (fst (renderWork E cfg i req))"
proof -
  have a: "plainRequest interval req" "StatsdFlushInterval cfg = floatOfInt interval" "None \<notin> set (Rollups cfg)"
    "\<And>m. m \<in> set (replySeries E cfg i req) \<Longrightarrow> Values m \<noteq> [] \<longrightarrow> onGrid interval req m"
    using assms by (auto simp: renderAccepts_def)
  have "\<exists>us rs. mapM (renderSeries E (queryStep cfg req) (fst (selectorOf (PathExpression req) True)) req) (replySeries E cfg i req) [] =
      (Inr us, [] @ rs) \<and> list_all2 (seriesAnswer interval req) (filter (shown req) (replySeries E cfg i req)) rs"
    by (rule mapM_appends) (rule renderSeries_shown [OF a(1,2) a(4)])
  then show ?thesis by (auto simp: renderWork_def runWork_def renderTarget_reply [OF a(3)] andThen_def ret_def)
qed

lemma list_all2_mem: "list_all2 P xs ys \<Longrightarrow> y \<in> set ys \<Longrightarrow> \<exists>x \<in> set xs. P x y"
  by (induction rule: list_all2_induct) auto

interpretation rh: fan_handler "renderWork E cfg" "renderAccepts E cfg interval" "renderOk E cfg interval" for E cfg interval
proof unfold_locales
  show "renderAccepts E cfg interval x \<Longrightarrow> \<not> snd (renderWork E cfg i x)" for i x
    using renderWork_answers by blast
  show "renderOk E cfg interval x r" if "renderAccepts E cfg interval x" "r \<in> set (fst (renderWork E cfg i x))" for i x r
  proof -
    have "list_all2 (seriesAnswer interval x) (filter (shown x) (replySeries E cfg i x)) (fst (renderWork E cfg i x))"
      using renderWork_answers [OF that(1)] by blast
    with list_all2_mem [OF this that(2)] show ?thesis unfolding renderOk_def by auto
  qed
qed


definition sampleStored :: "(int \<times> float64) list" where
  "sampleStored = [(90, FFin False (2 ^ 52) (-52)), (110, FFin False (2 ^ 52) (-51))]"

definition sampleMetric :: "(string \<times> string) list" where
  "sampleMetric = [(''__name__'', ''a''), (''__a_g1__'', ''b'')]"

lemma sampleSeries: "seriesOf [(sampleMetric, [pairText 90 ''1'', pairText 110 ''2''])] = Inr [\<lparr>Metric = sampleMetric, Values = toPairs sampleStored\<rparr>]"
proof -
  have "ParseFloatLit ''1'' = Inr (FFin False (2 ^ 52) (-52))" "ParseFloatLit ''2'' = Inr (FFin False (2 ^ 52) (-51))"
    "list_all bodyChar ''1''" "list_all bodyChar ''2''" by code_simp+
  then show ?thesis
    using UnmarshalJSON_pairText [of "''1''" 90] UnmarshalJSON_pairText [of "''2''" 110]
    by (simp add: sampleStored_def toPairs_def)
qed

lemma sampleStored_grid: "gridSeries 10 sampleStored" "fst (last sampleStored) = 110"
  by (simp_all add: gridSeries_def sampleStored_def smallTimes_def)

lemma sampleEnv_matrix: "decodeMatrix sampleEnv body = Inr [(sampleMetric, [pairText 90 ''1'', pairText 110 ''2''])]"
  by (simp add: sampleEnv_def sampleMetric_def)

lemma sampleReply: "replySeries sampleEnv sampleConfig i sampleRequest = [\<lparr>Metric = sampleMetric, Values = toPairs sampleStored\<rparr>]"
proof -
  have "httpGet sampleEnv i url params = Reply ''body'' None" for url params by (simp add: sampleEnv_def)
  moreover have "readLimited ''body'' None (PrometheusMaxBody sampleConfig) = Inr ''body''" by (simp add: sampleConfig_def readLimited_def)
  moreover have "length (PathExpression sampleRequest) \<le> 8192" by (simp add: sampleRequest_def)
  ultimately show ?thesis unfolding replySeries_def by (simp add: sampleEnv_matrix sampleSeries del: seriesOf.simps)
qed

lemma sampleAccepts: "renderAccepts sampleEnv sampleConfig 10 sampleRequest"
proof -
  have "onGrid 10 sampleRequest \<lparr>Metric = sampleMetric, Values = toPairs sampleStored\<rparr>"
    using sampleStored_grid sampleRequest_plain(2) unfolding onGrid_def
    by (intro exI [of _ sampleStored]) (simp add: sampleRequest_def)
  then show ?thesis using sampleRequest_plain(1) by (simp add: renderAccepts_def sampleReply) (simp add: sampleConfig_def)
qed

lemma sampleShown: "shown sampleRequest \<lparr>Metric = sampleMetric, Values = toPairs sampleStored\<rparr>"
proof -
  have "ConvertPrometheusMetric (fst (selectorOf (PathExpression sampleRequest) True)) sampleMetric = ''a.b''" by code_simp
  then show ?thesis by (simp add: shown_def toPairs_def sampleStored_def)
qed


end
