(* ===== verification/DurationProps.thy ===== *)
theory DurationProps
  imports Response LexSpec
begin

text \<open>
  \<open>DurationValue\<close> and \<open>PositiveDurationValue\<close> of \<open>src/mateql/lexer.go\<close>: the floating-point
  computation gives exactly the milliseconds of a whole number of units, of either sign.
\<close>

text \<open>The seconds of the unit \<open>u\<close>; the step of the query, in milliseconds, is the unit \<open>i\<close>.\<close>

definition unitSeconds :: "char \<Rightarrow> int \<Rightarrow> int \<Rightarrow> bool" where
  "unitSeconds u step k \<longleftrightarrow> (u, k) \<in> set
     [(CHR ''s'', 1), (CHR ''m'', 60), (CHR ''h'', 3600), (CHR ''d'', 86400), (CHR ''w'', 604800), (CHR ''y'', 31536000)] \<or>
     (u = CHR ''i'' \<and> 0 < k \<and> k * 1000 < 2 ^ 53 \<and> step = k * 1000)"

lemma ParseFloat_minus:
  assumes "n < 2 ^ 53"
  shows "\<exists>x. ParseFloat (CHR ''-'' # natDec n) = Inr x \<and> whole x (- int n)"
proof -
  let ?ds = "natDec n" and ?x = "roundQ True (int n) 1"
  have ds: "list_all isDecimalChar ?ds" "?ds \<noteq> []" by (simp_all add: natDec_decimal natDec_not_Nil)
  have w: "whole ?x (- int n)" using roundQ_whole [of "int n" 1 "- int n" True] roundQ_0 assms by (cases "n = 0") auto
  have l: "map toLowerByte ?ds = ?ds" using ds(1) by (intro map_idI) (auto simp: isDecimalChar_lower list_all_iff)
  have sp: "?ds \<noteq> ''inf''" "?ds \<noteq> ''infinity''" using ds(1) by (auto simp: isDecimalChar_def between_def)
  have tw: "takeWhile isDecimalChar ?ds = ?ds" "dropWhile isDecimalChar ?ds = []"
    using ds(1) by (auto simp: list_all_iff takeWhile_eq_all_conv)
  have "ParseFloat (CHR ''-'' # ?ds) = Inr ?x"
    using whole_not [OF w] ds(2) sp
    by (simp add: ParseFloat_def l tw decimalValue_def decDigits_natDec Let_def split: float64.splits)
  with w show ?thesis by blast
qed

lemma durationUnit_whole:
  assumes "unitSeconds u step k"
  shows "\<exists>mp. durationUnit u step = Some mp \<and> whole mp k"
proof (cases "u = CHR ''i''")
  case True
  with assms have k: "0 < k" "k * 1000 < 2 ^ 53" "step = k * 1000" by (auto simp: unitSeconds_def)
  have "whole (divF (floatOfInt step) (floatOfInt 1000)) k"
    using k by (intro divF_whole [where j = 1000] floatOfInt_whole) (auto intro: floatOfInt_whole)
  with True show ?thesis by (simp add: durationUnit_def)
next
  case False
  with assms have "durationUnit u step = Some (floatOfInt k)" by (auto simp: unitSeconds_def durationUnit_def)
  with assms show ?thesis by (auto simp: unitSeconds_def intro!: floatOfInt_whole)
qed

lemma unitSeconds_suffix: "unitSeconds u step k \<Longrightarrow> u \<in> set ''smhdwyi'' \<and> 0 < k"
  by (auto simp: unitSeconds_def)

lemma DurationValue_number:
  assumes "unitSeconds u step k" "\<bar>j\<bar> * k * 1000 < 2 ^ 53" "isDurationText True (t @ [u])" "ParseFloat t = Inr x" "whole x j"
  shows "DurationValue (t @ [u]) step = Inr (j * k * 1000)"
proof -
  have k: "0 < k" using unitSeconds_suffix [OF assms(1)] by blast
  have sc: "scanDuration (t @ [u]) True = int (length (t @ [u]))" using assms(3) by (subst scanDuration_text) simp
  have jk: "\<bar>k * j\<bar> * 1000 < 2 ^ 53" using assms(2) k by (simp add: abs_mult mult.commute)
  obtain mp where mp: "durationUnit u step = Some mp" "whole mp k" using durationUnit_whole [OF assms(1)] by blast
  have "whole (mulF mp x) (k * j)" using mp(2) assms(5) jk by (intro mulF_whole) auto
  from mulF_whole [OF this floatOfInt_whole [of 1000]]
  have "whole (mulF (mulF mp x) (floatOfInt 1000)) (k * j * 1000)" using jk by (simp add: abs_mult)
  then have "int64OfFloat (mulF (mulF mp x) (floatOfInt 1000)) = k * j * 1000"
    using jk by (intro int64OfFloat_whole) (auto simp: abs_mult)
  then show ?thesis using sc assms(4) mp(1) by (simp add: DurationValue_def nth_append mult.commute)
qed

lemma digits_natDec: "digits (natDec n)"
  using natDec_decimal natDec_not_Nil by (auto simp: digits_def list_all_iff)

lemma durationText_natDec:
  assumes "u \<in> set ''smhdwyi''"
  shows "isDurationText True (natDec n @ [u])" "isDurationText True (CHR ''-'' # natDec n @ [u])"
proof -
  have "natDec n @ [u] = natDec n @ [] @ [u]" by simp
  then have "isDurationLit (natDec n @ [u])" "isUnsignedBody (natDec n @ [u])"
    using assms digits_natDec [of n] unfolding isDurationLit_def isUnsignedBody_def digits_def by blast+
  then show "isDurationText True (natDec n @ [u])" "isDurationText True (CHR ''-'' # natDec n @ [u])"
    by (simp_all add: isDurationText_def)
qed

lemma DurationValue_bad: "\<not> isDurationText True s \<Longrightarrow> DurationValue s step = Inl (Errorf ''cannot parse duration %q'' [s])"
  using scanDuration_text [of s True "length s"] by (auto simp: DurationValue_def)



end
